(* ===== verification/Capsule_Prelude.thy ===== *)
theory Capsule_Prelude
  imports Main "HOL-Library.Word"
begin

text \<open>
  Shared vocabulary of the development: the machine integer types of the C and C++ sources, the
  bounded driver loop that the runtime nests, rounding up to an alignment, and the generic facts
  on words, maps and lists that the component theories use. The collection \<open>capsule_defs\<close>
  gathers the definitions of small state updates that proofs unfold together.
\<close>

unbundle bit_operations_syntax

named_theorems capsule_defs

type_synonym u8 = "8 word"
type_synonym u16 = "16 word"
type_synonym u32 = "32 word"
type_synonym u64 = "64 word"
type_synonym i32 = "32 word"

section \<open>Bounded loops with an early exit\<close>

text \<open>
  The shape of every driver loop of the runtime: a constant number of trips, each of which calls a
  function returning a status, and an early return of the first status that is not zero.
\<close>

fun drive_loop :: "nat \<Rightarrow> ('s \<Rightarrow> int \<times> 's) \<Rightarrow> 's \<Rightarrow> int \<times> 's" where
  "drive_loop 0 body s = (0, s)"
| "drive_loop (Suc n) body s =
     (case body s of (status, s') \<Rightarrow> if status \<noteq> 0 then (status, s') else drive_loop n body s')"

lemma drive_loop_append:
  "drive_loop (m + n) body s =
     (case drive_loop m body s of (status, s') \<Rightarrow>
        if status \<noteq> 0 then (status, s') else drive_loop n body s')"
  by (induction m arbitrary: s) (auto split: prod.splits)

text \<open>Nested bounded loops multiply their trips.\<close>

lemma drive_loop_nested: "drive_loop m (drive_loop n body) s = drive_loop (m * n) body s"
  by (induction m arbitrary: s) (auto simp: drive_loop_append split: prod.splits)

lemma drive_loop_snoc:
  "drive_loop (Suc n) body s =
     (case drive_loop n body s of (status, s') \<Rightarrow>
        if status \<noteq> 0 then (status, s') else body s')"
  using drive_loop_append [of n 1 body s] by (auto split: prod.splits)

lemma drive_loop_invariant:
  assumes "P s" and "\<And>t. P t \<Longrightarrow> P (snd (body t))"
  shows "P (snd (drive_loop n body s))"
  using assms(1)
proof (induction n arbitrary: s)
  case 0
  then show ?case by simp
next
  case (Suc n)
  from Suc.prems have "P (snd (body s))" by (rule assms(2))
  then show ?case using Suc.IH by (auto split: prod.splits)
qed

text \<open>A loop that did not stop early made every one of its trips.\<close>

lemma drive_loop_zero_iff:
  "fst (drive_loop n body s) = 0 \<longleftrightarrow> (\<forall>k<n. fst (body (((\<lambda>t. snd (body t)) ^^ k) s)) = 0)"
proof (induction n arbitrary: s)
  case 0
  then show ?case by simp
next
  case (Suc n)
  have split: "(\<forall>k<Suc n. Q k) \<longleftrightarrow> Q 0 \<and> (\<forall>k<n. Q (Suc k))" for Q :: "nat \<Rightarrow> bool"
    by (auto simp: less_Suc_eq_0_disj)
  show ?case
    by (cases "body s") (auto simp: split Suc.IH funpow_swap1 simp del: funpow.simps(2)
      simp add: funpow_Suc_right)
qed

text \<open>The state after \<open>k\<close> trips that all continued, and where the loop ends.\<close>

definition after_trips :: "('s \<Rightarrow> int \<times> 's) \<Rightarrow> nat \<Rightarrow> 's \<Rightarrow> 's" where
  "after_trips body k s = ((\<lambda>t. snd (body t)) ^^ k) s"

lemma after_trips_simps [simp]:
  "after_trips body 0 s = s" "after_trips body (Suc k) s = after_trips body k (snd (body s))"
  by (simp_all add: after_trips_def funpow_Suc_right del: funpow.simps(2))

lemma drive_loop_runs:
  assumes "\<forall>k<n. fst (body (after_trips body k s)) = 0"
  shows "drive_loop n body s = (0, after_trips body n s)"
  using assms
proof (induction n arbitrary: s)
  case (Suc n)
  have "fst (body s) = 0" using Suc.prems by (metis after_trips_simps(1) zero_less_Suc)
  moreover have "\<forall>k<n. fst (body (after_trips body k (snd (body s)))) = 0"
    using Suc.prems by (metis after_trips_simps(2) Suc_mono)
  ultimately show ?case using Suc.IH by (cases "body s") simp
qed simp

lemma drive_loop_stops:
  assumes "\<forall>k<n. fst (body (after_trips body k s)) = 0" and "n < m"
    and "fst (body (after_trips body n s)) \<noteq> 0"
  shows "drive_loop m body s = body (after_trips body n s)"
proof -
  have "m = n + Suc (m - n - 1)" using assms(2) by simp
  then have "drive_loop m body s = drive_loop (Suc (m - n - 1)) body (after_trips body n s)"
    using drive_loop_append [of n "Suc (m - n - 1)" body s] drive_loop_runs [OF assms(1)] by simp
  then show ?thesis using assms(3) by (cases "body (after_trips body n s)") simp
qed

section \<open>Rounding up to an alignment\<close>

text \<open>The value of LLVM's \<open>alignTo\<close> on unbounded integers.\<close>

definition align_to :: "nat \<Rightarrow> nat \<Rightarrow> nat" where
  "align_to x a = (x + a - 1) div a * a"

lemma align_to_ge:
  assumes "0 < a"
  shows "x \<le> align_to x a"
proof -
  have "x + a - 1 = (x + a - 1) div a * a + (x + a - 1) mod a"
    by simp
  moreover have "(x + a - 1) mod a < a"
    using assms by simp
  ultimately show ?thesis unfolding align_to_def by linarith
qed

lemma align_to_dvd [simp]: "a dvd align_to x a"
  by (simp add: align_to_def)

lemma align_to_less:
  assumes "0 < a"
  shows "align_to x a < x + a"
proof -
  have "(x + a - 1) div a * a \<le> x + a - 1"
    by (rule div_times_less_eq_dividend)
  then show ?thesis using assms unfolding align_to_def by linarith
qed

lemma align_to_least:
  assumes "0 < a" and "x \<le> y" and "a dvd y"
  shows "align_to x a \<le> y"
proof -
  from assms(3) obtain k where y: "y = a * k" by (auto elim: dvdE)
  have "x + a - 1 < (k + 1) * a"
    using assms(1,2) y by (simp add: algebra_simps)
  then have "(x + a - 1) div a < k + 1"
    using assms(1) by (simp add: less_mult_imp_div_less)
  then show ?thesis using y by (simp add: align_to_def mult.commute)
qed

lemma align_to_self: "0 < a \<Longrightarrow> a dvd x \<Longrightarrow> align_to x a = x"
  by (metis align_to_ge align_to_least le_antisym order_refl)

section \<open>Fallible steps\<close>

text \<open>Sequencing of fallible steps: the first error is the result.\<close>

definition on_ok :: "'e + 'a \<Rightarrow> ('a \<Rightarrow> 'e + 'b) \<Rightarrow> 'e + 'b" where
  "on_ok r f = (case r of Inl e \<Rightarrow> Inl e | Inr x \<Rightarrow> f x)"

lemma on_ok_Inr [simp]: "on_ok r f = Inr y \<longleftrightarrow> (\<exists>x. r = Inr x \<and> f x = Inr y)"
  by (auto simp: on_ok_def split: sum.splits)

lemma on_ok_Inl: "on_ok r f = Inl e \<longleftrightarrow> r = Inl e \<or> (\<exists>x. r = Inr x \<and> f x = Inl e)"
  by (auto simp: on_ok_def split: sum.splits)

lemma on_ok_simps [simp]: "on_ok (Inr x) f = f x" "on_ok (Inl e) f = Inl e"
  by (simp_all add: on_ok_def)

section \<open>Words\<close>

lemma unat_mask_mod: "unat (w AND mask n) = unat (w :: 'a::len word) mod 2 ^ n"
  by (metis take_bit_eq_mask unsigned_take_bit_eq take_bit_eq_mod)

lemma take_bit_word_self: "unat w < 2 ^ n \<Longrightarrow> take_bit n w = (w :: 'a::len word)"
  by (simp add: word_unat_eq_iff unsigned_take_bit_eq take_bit_nat_eq_self)

lemma u32_less_4G [simp]: "unat (w :: u32) < 4294967296"
  using unsigned_less [of w] by simp

lemma u32_le_max: "(w :: u32) \<le> 0xFFFFFFFF"
proof -
  have "unat w < Suc 4294967295" using u32_less_4G [of w] by (simp only: Suc_numeral) simp
  then have "unat w \<le> 4294967295" by (rule less_Suc_eq_le [THEN iffD1])
  then show ?thesis by (simp add: word_le_nat_alt)
qed

lemma u64_bound [simp]: "unat (w :: u64) < 18446744073709551616"
  using unsigned_less [of w] by simp

lemma unat_ucast_u64 [simp]: "unat (ucast (w :: u32) :: u64) = unat w"
proof -
  have "unat w < 2 ^ 64" using u32_less_4G [of w] by (rule less_trans) simp
  then show ?thesis by (simp add: unsigned_ucast_eq take_bit_nat_eq_self)
qed

lemma add_no_wrap:
  assumes "\<not> (a + b :: 'a::len word) < a"
  shows "unat (a + b) = unat a + unat b"
proof (rule ccontr)
  assume "unat (a + b) \<noteq> unat a + unat b"
  then have ge: "2 ^ LENGTH('a) \<le> unat a + unat b"
    using unat_add_lem [of a b] by (simp add: not_less)
  have lt: "unat a < 2 ^ LENGTH('a)" "unat b < 2 ^ LENGTH('a)" by simp_all
  have "unat a + unat b - 2 ^ LENGTH('a) < 2 ^ LENGTH('a)" using lt by linarith
  then have "unat (a + b) = unat a + unat b - 2 ^ LENGTH('a)"
    using unat_word_ariths(1) [of a b] le_mod_geq [OF ge] by simp
  then have "unat (a + b) < unat a" using lt ge by linarith
  then show False using assms by (simp add: word_less_nat_alt)
qed

text \<open>The power-of-two test, rounding down and up to a power of two, and shifts, as numbers.\<close>

lemma pow2_test:
  assumes "(w :: 'a::len word) \<noteq> 0" and "w AND (w - 1) = 0"
  obtains k where "k < LENGTH('a)" and "unat w = 2 ^ k"
proof -
  have pos: "0 < unat w" using assms(1) by (simp add: unat_gt_0)
  then obtain k where k: "2 ^ k \<le> unat w" "unat w < 2 ^ (k + 1)"
    using ex_power_ivl1 [of 2 "unat w"] by auto
  have len: "k < LENGTH('a)"
    using le_less_trans [OF k(1) unsigned_less [of w]] by (simp add: nat_power_less_imp_less)
  have "unat w = 2 ^ k"
  proof (rule ccontr)
    assume "unat w \<noteq> 2 ^ k"
    then have lt: "2 ^ k < unat w" using k(1) by simp
    have pred: "unat (w - 1) = unat w - 1" using pos by (simp add: unat_minus_one [OF assms(1)])
    have "unat w div 2 ^ k = 1" "(unat w - 1) div 2 ^ k = 1"
      using k lt by (simp_all add: div_nat_eqI)
    then have "bit (unat w) k" "bit (unat (w - 1)) k"
      using pred by (simp_all add: bit_iff_odd)
    then have "bit (w AND (w - 1)) k" by (simp add: bit_and_iff bit_unsigned_iff)
    then show False using assms(2) by simp
  qed
  then show thesis using len that by blast
qed

lemma unat_and_not_mask: "unat (w AND NOT (mask k) :: 'a::len word) = unat w div 2 ^ k * 2 ^ k"
proof -
  have "w = (w AND NOT (mask k)) OR (w AND mask k)"
    by (rule bit_word_eqI) (auto simp: bit_simps)
  moreover have "(w AND NOT (mask k)) AND (w AND mask k) = 0"
    by (rule bit_word_eqI) (auto simp: bit_simps)
  ultimately have "w = (w AND NOT (mask k)) + (w AND mask k)"
    by (metis disjunctive_add_eq_or)
  then have "w AND NOT (mask k) = w - (w AND mask k)" by (metis add_diff_cancel_right')
  moreover have "w AND mask k \<le> w" by (simp add: word_and_le2)
  ultimately have "unat (w AND NOT (mask k)) = unat w - unat w mod 2 ^ k"
    by (simp add: unat_sub unat_mask_mod)
  then show ?thesis by (simp add: minus_mod_eq_div_mult)
qed

lemma unat_drop_bit_div: "unat (drop_bit k w) = unat (w :: 'a::len word) div 2 ^ k"
  using unsigned_drop_bit_eq [of k w, where 'a=nat] 
    take_bit_nat_eq_self [OF unsigned_less [of w]]
  by (simp only: drop_bit_eq_div)

lemma unat_align_up:
  assumes "a = 2 ^ k" and "k < LENGTH('a)" and "unat w + 2 ^ k - 1 < 2 ^ LENGTH('a)"
  shows "unat ((w + a - 1) AND NOT (a - 1) :: 'a::len word) = align_to (unat w) (2 ^ k)"
proof -
  have m: "a - 1 = mask k" by (simp add: assms(1) mask_eq_exp_minus_1)
  have "unat (mask k :: 'a word) = 2 ^ k - 1"
    using assms(2) unsigned_of_nat [of "mask k", where 'b='a and 'a=nat]
    by (simp add: min_def mask_nat_def take_bit_nat_eq_self less_imp_diff_less mask_eq_exp_minus_1)
  then have "unat (w + mask k) = unat w + 2 ^ k - 1"
    using assms(3) unat_add_lem [of w "mask k"] by simp
  then show ?thesis
    by (simp only: add_diff_eq [symmetric] m unat_and_not_mask align_to_def)
qed

section \<open>Finite maps\<close>

lemma dom_fun_upd_Some: "dom (m(k \<mapsto> v)) = insert k (dom m)"
  by simp

end
