(* ===== verification/Stack_Budget.thy ===== *)
theory Stack_Budget
  imports Capsule_Prelude
begin

text \<open>
  The native call-stack budget of \<open>machine_stack_budget.cpp\<close>: the functions of each flatten class are contracted
  into the one frame they share after flattening, the graph of physical frames is searched for recursion and
  ordered, and the longest fixed path before and after each variable frame is subtracted from the kernel's 512
  bytes. Accepted modules are shown to respect both limits the kernel enforces on every call path.
\<close>

section \<open>Machine functions\<close>

definition KernelStackBytes :: nat where "KernelStackBytes = 512"
definition PortableStackGranule :: nat where "PortableStackGranule = 32"
definition KernelCallFrames :: nat where "KernelCallFrames = 8"

lemmas kernel_limits = KernelStackBytes_def PortableStackGranule_def KernelCallFrames_def

datatype budget_error =
    MalformedMetadata | ConflictingClasses | DuplicateRoots | NoOutputRoot | UnselectedReference | RecursivePath
  | NestedFrames | TooManyFrames | NativePathTooDeep | NoFrameFits | OutOfFuel

text \<open>A metadata node by its operands, those that are integer constants with their value.\<close>

type_synonym metadata = "nat option list option"

text \<open>An operand that names a global: a function of the module that is defined, by its index, a declaration,
  or something else.\<close>

datatype global_ref = DefinedFunction nat | DeclaredFunction | OtherGlobal
datatype mir_operand = PhysicalReg string | Immediate int | GlobalOperand global_ref | OtherOperand

type_synonym mir_instruction = "string \<times> mir_operand list"

record machine_function =
  mfn_flatten_root :: metadata
  mfn_flatten_unit :: metadata
  mfn_allocation_unit :: bool
  mfn_stack_size :: nat
  mfn_code :: "mir_instruction list"
  mfn_entry :: bool

definition metadataClass :: "metadata \<Rightarrow> budget_error + nat option" where
  "metadataClass md =
     (case md of
        None \<Rightarrow> Inr None
      | Some [Some v] \<Rightarrow> if v < 2 ^ 32 then Inr (Some v) else Inl MalformedMetadata
      | Some _ \<Rightarrow> Inl MalformedMetadata)"

definition starts_with :: "string \<Rightarrow> string \<Rightarrow> bool" where
  "starts_with name p = (take (length p) name = p)"

fun contains :: "string \<Rightarrow> string \<Rightarrow> bool" where
  "contains [] p = (p = [])"
| "contains (c # cs) p = (starts_with (c # cs) p \<or> contains cs p)"

definition isStackMemoryOpcode :: "string \<Rightarrow> bool" where
  "isStackMemoryOpcode name =
     (name \<in> set [''LDD'', ''LDW'', ''LDW32'', ''LDH'', ''LDH32'', ''LDB'', ''LDB32'', ''STD'', ''STW'', ''STW32'',
        ''STH'', ''STH32'', ''STB'', ''STB32''] \<or> (starts_with name ''ST'' \<and> contains name ''_imm''))"

text \<open>The bytes an instruction proves to lie below \<open>r10\<close>.\<close>

definition frame_access :: "mir_instruction \<Rightarrow> nat" where
  "frame_access i =
     (case i of (name, operands) \<Rightarrow>
        if \<not> isStackMemoryOpcode name then 0
        else case operands of
          _ # PhysicalReg base # Immediate offset # _ \<Rightarrow> if base = ''R10'' \<and> offset < 0 then nat (- offset) else 0
        | _ \<Rightarrow> 0)"

definition portableFrameBytes :: "machine_function \<Rightarrow> nat" where
  "portableFrameBytes machine =
     align_to (max (fold (\<lambda>i raw. max raw (frame_access i)) (mfn_code machine) (mfn_stack_size machine)) 1) PortableStackGranule"

section \<open>The graph of physical frames\<close>

definition classOf :: "machine_function \<Rightarrow> budget_error + nat option" where
  "classOf f =
     on_ok (metadataClass (mfn_flatten_root f)) (\<lambda>root.
       on_ok (metadataClass (mfn_flatten_unit f)) (\<lambda>unit.
         if root \<noteq> None \<and> unit \<noteq> None \<and> root \<noteq> unit then Inl ConflictingClasses
         else Inr (if root \<noteq> None then root else unit)))"

fun classes_of :: "machine_function list \<Rightarrow> budget_error + nat option list" where
  "classes_of [] = Inr []"
| "classes_of (f # fs) = on_ok (classOf f) (\<lambda>c. on_ok (classes_of fs) (\<lambda>cs. Inr (c # cs)))"

text \<open>The node of each class, in the order the classes are met, and the node of each function.\<close>

fun class_nodes :: "nat option list \<Rightarrow> (nat \<times> nat) list \<Rightarrow> (nat \<times> nat) list" where
  "class_nodes [] classes = classes"
| "class_nodes (None # cs) classes = class_nodes cs classes"
| "class_nodes (Some c # cs) classes =
     class_nodes cs (if map_of classes c = None then classes @ [(c, length classes)] else classes)"

fun node_of :: "(nat \<times> nat) list \<Rightarrow> nat \<Rightarrow> nat option list \<Rightarrow> nat list" where
  "node_of classes next [] = []"
| "node_of classes next (Some c # cs) = the (map_of classes c) # node_of classes next cs"
| "node_of classes next (None # cs) = next # node_of classes (Suc next) cs"

record frame_node =
  FlattenClass :: "nat option"
  Members :: "nat list"
  OutputRoot :: "nat option"
  VariableFrame :: bool
  FixedFloor :: nat
  Successors :: "nat list"

fun global_references :: "mir_instruction list \<Rightarrow> nat list" where
  "global_references [] = []"
| "global_references ((_, operands) # code) =
     List.map_filter (\<lambda>operand. case operand of GlobalOperand (DefinedFunction g) \<Rightarrow> Some g | _ \<Rightarrow> None) operands @
       global_references code"

definition removedByFlatten :: "machine_function list \<Rightarrow> nat list \<Rightarrow> nat \<Rightarrow> nat \<Rightarrow> bool" where
  "removedByFlatten fns nodeOf caller callee \<longleftrightarrow>
     nodeOf ! caller = nodeOf ! callee \<and> mfn_flatten_unit (fns ! callee) \<noteq> None"

definition caller_successors :: "machine_function list \<Rightarrow> nat list \<Rightarrow> nat \<Rightarrow> nat list" where
  "caller_successors fns nodeOf caller =
     sort (remdups (map (\<lambda>callee. nodeOf ! callee)
       (filter (\<lambda>callee. \<not> removedByFlatten fns nodeOf caller callee) (global_references (mfn_code (fns ! caller))))))"

definition node_members :: "nat list \<Rightarrow> nat \<Rightarrow> nat list" where
  "node_members nodeOf n = filter (\<lambda>f. nodeOf ! f = n) [0..<length nodeOf]"

definition make_node :: "machine_function list \<Rightarrow> (nat \<times> nat) list \<Rightarrow> nat list \<Rightarrow> nat \<Rightarrow> budget_error + frame_node" where
  "make_node fns classes nodeOf n =
     (let members = node_members nodeOf n;
          roots = filter (\<lambda>f. mfn_flatten_root (fns ! f) \<noteq> None) members
      in if 1 < length roots then Inl DuplicateRoots
         else Inr \<lparr>FlattenClass = (if n < length classes then Some (fst (classes ! n)) else None),
                Members = members,
                OutputRoot = (if roots = [] then None else Some (hd roots)),
                VariableFrame = (\<exists>f \<in> set members. mfn_allocation_unit (fns ! f)),
                FixedFloor = fold (\<lambda>f floor. if mfn_allocation_unit (fns ! f) then floor else max floor (portableFrameBytes (fns ! f))) members 0,
                Successors = sort (remdups (concat (map (caller_successors fns nodeOf) members)))\<rparr>)"

fun make_nodes :: "machine_function list \<Rightarrow> (nat \<times> nat) list \<Rightarrow> nat list \<Rightarrow> nat list \<Rightarrow> budget_error + frame_node list" where
  "make_nodes fns classes nodeOf [] = Inr []"
| "make_nodes fns classes nodeOf (n # ns) =
     on_ok (make_node fns classes nodeOf n) (\<lambda>node.
       on_ok (make_nodes fns classes nodeOf ns) (\<lambda>nodes. Inr (node # nodes)))"

record frame_graph =
  fg_node_of :: "nat list"
  fg_nodes :: "frame_node list"
  fg_entries :: "nat list"

definition frame_graph_of :: "machine_function list \<Rightarrow> budget_error + frame_graph" where
  "frame_graph_of fns =
     on_ok (classes_of fns) (\<lambda>cs.
       let classes = class_nodes cs []; nodeOf = node_of classes (length classes) cs;
           count = length classes + length (filter (\<lambda>c. c = None) cs)
       in on_ok (make_nodes fns classes nodeOf [0..<count]) (\<lambda>nodes.
            if \<exists>node \<in> set nodes. FlattenClass node \<noteq> None \<and> OutputRoot node = None then Inl NoOutputRoot
            else if \<exists>f \<in> set fns. \<exists>g \<in> set (global_references (mfn_code f)). length fns \<le> g then Inl UnselectedReference
            else Inr \<lparr>fg_node_of = nodeOf, fg_nodes = nodes,
                   fg_entries = sort (remdups (map (\<lambda>f. nodeOf ! f) (filter (\<lambda>f. mfn_entry (fns ! f)) [0..<length fns])))\<rparr>))"

section \<open>The search\<close>

text \<open>Colors are 0 for a node not met, 1 for one on the path and 2 for a finished one.\<close>

record search =
  color :: "nat \<Rightarrow> nat"
  active :: "nat list"
  postorder :: "nat list"

fun visit_list :: "(nat \<Rightarrow> search \<Rightarrow> budget_error + search) \<Rightarrow> nat list \<Rightarrow> search \<Rightarrow> budget_error + search" where
  "visit_list f [] s = Inr s"
| "visit_list f (n # ns) s = on_ok (f n s) (visit_list f ns)"

text \<open>The recursion goes one level deeper only past a node that turns from 0 to 1, so as many levels as there
  are nodes, and one more, are enough.\<close>

fun visit :: "nat \<Rightarrow> frame_node list \<Rightarrow> nat \<Rightarrow> search \<Rightarrow> budget_error + search" where
  "visit 0 nodes n s = Inl OutOfFuel"
| "visit (Suc fuel) nodes n s =
     (if color s n = 2 then Inr s
      else if color s n = 1 then Inl RecursivePath
      else on_ok (visit_list (visit fuel nodes) (Successors (nodes ! n))
                    (s\<lparr>color := (color s)(n := 1), active := active s @ [n]\<rparr>)) (\<lambda>s.
             Inr (s\<lparr>active := butlast (active s), color := (color s)(n := 2), postorder := postorder s @ [n]\<rparr>)))"

definition search_from :: "frame_node list \<Rightarrow> nat list \<Rightarrow> budget_error + nat list" where
  "search_from nodes entries =
     on_ok (visit_list (visit (Suc (length nodes)) nodes) entries \<lparr>color = (\<lambda>_. 0), active = [], postorder = []\<rparr>) (\<lambda>s.
       Inr (postorder s))"

section \<open>Limits along the order\<close>

text \<open>At most one variable frame on a path.\<close>

fun nested_loop :: "frame_node list \<Rightarrow> nat list \<Rightarrow> (nat \<Rightarrow> nat set) \<Rightarrow> budget_error + unit" where
  "nested_loop nodes [] previousVariables = Inr ()"
| "nested_loop nodes (n # order) previousVariables =
     (if VariableFrame (nodes ! n) \<and> previousVariables n \<noteq> {} then Inl NestedFrames
      else let p = (if VariableFrame (nodes ! n) then previousVariables(n := insert n (previousVariables n)) else previousVariables)
           in nested_loop nodes order (fold (\<lambda>s p. p(s := p s \<union> p n)) (Successors (nodes ! n)) p))"

text \<open>The number of frames.\<close>

fun frames_loop :: "frame_node list \<Rightarrow> nat list \<Rightarrow> (nat \<Rightarrow> nat) \<Rightarrow> budget_error + unit" where
  "frames_loop nodes [] callFrames = Inr ()"
| "frames_loop nodes (n # order) callFrames =
     (if callFrames n = 0 then frames_loop nodes order callFrames
      else if callFrames n > KernelCallFrames then Inl TooManyFrames
      else frames_loop nodes order
        (fold (\<lambda>s c. if c s < c n + 1 then c(s := c n + 1) else c) (Successors (nodes ! n)) callFrames))"

text \<open>The longest path of fixed frames from an entry; \<open>None\<close> is \<open>Invalid\<close>.\<close>

definition add_floor :: "frame_node list \<Rightarrow> nat \<Rightarrow> nat \<Rightarrow> (nat \<Rightarrow> nat option) \<Rightarrow> nat \<Rightarrow> nat option" where
  "add_floor nodes v s p =
     (if VariableFrame (nodes ! s) then p
      else let candidate = v + FixedFloor (nodes ! s)
           in if p s = None \<or> the (p s) < candidate then p(s := Some candidate) else p)"

fun prefix_loop :: "frame_node list \<Rightarrow> nat list \<Rightarrow> (nat \<Rightarrow> nat option) \<Rightarrow> budget_error + (nat \<Rightarrow> nat option)" where
  "prefix_loop nodes [] prefix = Inr prefix"
| "prefix_loop nodes (n # order) prefix =
     (if VariableFrame (nodes ! n) then prefix_loop nodes order prefix
      else case prefix n of
        None \<Rightarrow> prefix_loop nodes order prefix
      | Some v \<Rightarrow>
          if v > KernelStackBytes then Inl NativePathTooDeep
          else prefix_loop nodes order (fold (add_floor nodes v) (Successors (nodes ! n)) prefix))"

text \<open>The longest path of fixed frames to a leaf.\<close>

fun suffix_loop :: "frame_node list \<Rightarrow> nat list \<Rightarrow> (nat \<Rightarrow> nat option) \<Rightarrow> (nat \<Rightarrow> nat option)" where
  "suffix_loop nodes [] suffix = suffix"
| "suffix_loop nodes (n # rest) suffix =
     (if VariableFrame (nodes ! n) then suffix_loop nodes rest suffix
      else suffix_loop nodes rest (suffix(n := Some
        (fold (\<lambda>s best. if VariableFrame (nodes ! s) \<or> suffix s = None then best
                        else let candidate = FixedFloor (nodes ! n) + the (suffix s)
                             in if candidate > best then candidate else best)
          (Successors (nodes ! n)) (FixedFloor (nodes ! n))))))"

definition fixed_before :: "frame_node list \<Rightarrow> (nat \<Rightarrow> nat option) \<Rightarrow> nat \<Rightarrow> nat" where
  "fixed_before nodes prefix variable =
     fold (\<lambda>candidate before.
         case prefix candidate of
           None \<Rightarrow> before
         | Some v \<Rightarrow> if variable \<in> set (Successors (nodes ! candidate)) \<and> before < v then v else before)
       [0..<length nodes] 0"

definition fixed_after :: "frame_node list \<Rightarrow> (nat \<Rightarrow> nat option) \<Rightarrow> nat \<Rightarrow> nat" where
  "fixed_after nodes suffix variable =
     fold (\<lambda>s after. case suffix s of None \<Rightarrow> after | Some v \<Rightarrow> if after < v then v else after)
       (Successors (nodes ! variable)) 0"

fun budget_loop ::
  "frame_node list \<Rightarrow> nat list \<Rightarrow> (nat \<Rightarrow> nat option) \<Rightarrow> (nat \<Rightarrow> nat option) \<Rightarrow> nat list \<Rightarrow> budget_error + (nat \<times> nat) list" where
  "budget_loop nodes order prefix suffix [] = Inr []"
| "budget_loop nodes order prefix suffix (variable # rest) =
     (let node = nodes ! variable
      in if \<not> VariableFrame node then budget_loop nodes order prefix suffix rest
         else let fixed = fixed_before nodes prefix variable + fixed_after nodes suffix variable;
                  reachable = variable \<in> set order;
                  budget = (if reachable then (if fixed < KernelStackBytes then KernelStackBytes - fixed else 0) else KernelStackBytes)
              in if reachable \<and> (budget < PortableStackGranule \<or> FixedFloor node > budget) then Inl NoFrameFits
                 else on_ok (budget_loop nodes order prefix suffix rest) (\<lambda>budgets. Inr ((variable, budget) # budgets)))"

text \<open>The pass: the physical graph and the budget of each variable frame, which every allocation unit of the node
  is given.\<close>

definition stack_budget :: "machine_function list \<Rightarrow> budget_error + frame_graph \<times> (nat \<times> nat) list" where
  "stack_budget fns =
     on_ok (frame_graph_of fns) (\<lambda>G.
       let nodes = fg_nodes G; entries = fg_entries G
       in on_ok (search_from nodes entries) (\<lambda>postorder.
          let order = rev postorder
          in on_ok (nested_loop nodes order (\<lambda>_. {})) (\<lambda>_.
             on_ok (frames_loop nodes order (\<lambda>n. if n \<in> set entries then 1 else 0)) (\<lambda>_.
             on_ok (prefix_loop nodes order
                 (\<lambda>n. if n \<in> set entries \<and> \<not> VariableFrame (nodes ! n) then Some (FixedFloor (nodes ! n)) else None)) (\<lambda>prefix.
             on_ok (budget_loop nodes order prefix (suffix_loop nodes postorder (\<lambda>_. None)) [0..<length nodes]) (\<lambda>budgets.
               Inr (G, budgets)))))))"

text \<open>The budget each allocation unit carries away in its metadata.\<close>

definition native_stack_budget :: "machine_function list \<Rightarrow> frame_graph \<times> (nat \<times> nat) list \<Rightarrow> nat \<Rightarrow> nat option" where
  "native_stack_budget fns plan f =
     (if mfn_allocation_unit (fns ! f) then map_of (snd plan) (fg_node_of (fst plan) ! f) else None)"

section \<open>The search orders the graph\<close>

text \<open>A topological order: every node comes before all of its successors, which the list contains.\<close>

fun topological :: "(nat \<Rightarrow> nat list) \<Rightarrow> nat list \<Rightarrow> bool" where
  "topological succs [] = True"
| "topological succs (n # ns) = (set (succs n) \<subseteq> set ns \<and> n \<notin> set ns \<and> topological succs ns)"

abbreviation succs_of :: "frame_node list \<Rightarrow> nat \<Rightarrow> nat list" where
  "succs_of nodes n \<equiv> Successors (nodes ! n)"

definition search_inv :: "frame_node list \<Rightarrow> search \<Rightarrow> bool" where
  "search_inv nodes s \<longleftrightarrow>
     topological (succs_of nodes) (rev (postorder s)) \<and> (\<forall>m. color s m = 2 \<longleftrightarrow> m \<in> set (postorder s)) \<and> (\<forall>m. color s m \<le> 2)"

definition search_grows :: "search \<Rightarrow> search \<Rightarrow> bool" where
  "search_grows s t \<longleftrightarrow> (\<forall>m. (color s m \<noteq> 0 \<longrightarrow> color t m = color s m) \<and> (color t m \<noteq> color s m \<longrightarrow> color t m = 2))"

lemma search_grows_refl [simp]: "search_grows s s"
  by (simp add: search_grows_def)

lemma search_grows_trans: "search_grows s t \<Longrightarrow> search_grows t u \<Longrightarrow> search_grows s u"
proof (unfold search_grows_def, intro allI)
  fix m
  assume "\<forall>m. (color s m \<noteq> 0 \<longrightarrow> color t m = color s m) \<and> (color t m \<noteq> color s m \<longrightarrow> color t m = 2)"
    "\<forall>m. (color t m \<noteq> 0 \<longrightarrow> color u m = color t m) \<and> (color u m \<noteq> color t m \<longrightarrow> color u m = 2)"
  from spec [OF this(1), of m] spec [OF this(2), of m]
  show "(color s m \<noteq> 0 \<longrightarrow> color u m = color s m) \<and> (color u m \<noteq> color s m \<longrightarrow> color u m = 2)"
    by (cases "color t m = color s m") auto
qed

lemma search_grows_done: "search_grows s t \<Longrightarrow> color s n = 2 \<Longrightarrow> color t n = 2"
  unfolding search_grows_def by (drule spec [of _ n]) simp

lemma search_inv_color:
  assumes "search_inv nodes s"
  shows "color s n = 0 \<or> color s n = 1 \<or> color s n = 2" "color s n \<noteq> 2 \<Longrightarrow> n \<notin> set (postorder s)"
proof -
  have "color s n \<le> 2" "color s n = 2 \<longleftrightarrow> n \<in> set (postorder s)"
    using assms by (simp_all add: search_inv_def)
  then show "color s n = 0 \<or> color s n = 1 \<or> color s n = 2" "color s n \<noteq> 2 \<Longrightarrow> n \<notin> set (postorder s)"
    by (linarith, simp)
qed

lemma search_inv_push:
  assumes "search_inv nodes s" "color s n = 0"
  shows "search_inv nodes (s\<lparr>color := (color s)(n := 1), active := a\<rparr>)"
  using assms search_inv_color(2) [OF assms(1), of n] by (auto simp: search_inv_def)

lemma visit_list_ok:
  assumes step: "\<And>n s t. f n s = Inr t \<Longrightarrow> search_inv nodes s \<Longrightarrow> search_inv nodes t \<and> search_grows s t \<and> color t n = 2"
  shows "visit_list f ns s = Inr t \<Longrightarrow> search_inv nodes s \<Longrightarrow>
     search_inv nodes t \<and> search_grows s t \<and> (\<forall>n \<in> set ns. color t n = 2)"
proof (induction ns arbitrary: s)
  case (Cons n ns)
  then obtain u where "f n s = Inr u" "visit_list f ns u = Inr t"
    by (auto simp: on_ok_Inr)
  note u = this
  have "search_inv nodes u" "search_grows s u" "color u n = 2"
    using step [OF u(1) Cons.prems(2)] by auto
  moreover from Cons.IH [OF u(2) this(1)] have "search_inv nodes t" "search_grows u t" "\<forall>n \<in> set ns. color t n = 2"
    by auto
  ultimately show ?case
    using search_grows_trans [of s u t] search_grows_done [of u t n] by auto
qed simp

lemma visit_ok:
  "visit fuel nodes n s = Inr t \<Longrightarrow> search_inv nodes s \<Longrightarrow> search_inv nodes t \<and> search_grows s t \<and> color t n = 2"
proof (induction fuel arbitrary: n s t)
  case (Suc fuel)
  show ?case
  proof (cases "color s n = 2")
    case False
    let ?s = "s\<lparr>color := (color s)(n := 1), active := active s @ [n]\<rparr>"
    from False Suc.prems have white: "color s n = 0"
      using search_inv_color(1) [of nodes s n] by (auto split: if_splits)
    from False Suc.prems obtain u where u: "visit_list (visit fuel nodes) (succs_of nodes n) ?s = Inr u"
      and t: "t = u\<lparr>active := butlast (active u), color := (color u)(n := 2), postorder := postorder u @ [n]\<rparr>"
      by (auto simp: on_ok_Inr split: if_splits)
    have inv: "search_inv nodes u" and grows: "search_grows ?s u" and succs: "\<forall>m \<in> set (succs_of nodes n). color u m = 2"
      using visit_list_ok [OF Suc.IH u search_inv_push [OF Suc.prems(2) white]] by auto
    have "color u n = 1"
      using spec [OF grows [unfolded search_grows_def], of n] by simp
    then have "n \<notin> set (postorder u)"
      using search_inv_color(2) [OF inv, of n] by simp
    then have "search_inv nodes t"
      using inv succs by (auto simp: t search_inv_def)
    moreover have "search_grows s t"
      unfolding search_grows_def
    proof (intro allI)
      fix m
      show "(color s m \<noteq> 0 \<longrightarrow> color t m = color s m) \<and> (color t m \<noteq> color s m \<longrightarrow> color t m = 2)"
        using spec [OF grows [unfolded search_grows_def], of m] white by (cases "m = n") (simp_all add: t)
    qed
    ultimately show ?thesis by (simp add: t)
  qed (use Suc.prems in auto)
qed simp

lemma search_ordered:
  assumes "search_from nodes entries = Inr post"
  shows "topological (succs_of nodes) (rev post)" "set entries \<subseteq> set post"
proof -
  obtain s where s: "visit_list (visit (Suc (length nodes)) nodes) entries \<lparr>color = (\<lambda>_. 0), active = [], postorder = []\<rparr> = Inr s"
    "post = postorder s"
    using assms by (auto simp: search_from_def on_ok_Inr simp del: visit.simps)
  have "search_inv nodes s \<and> (\<forall>n \<in> set entries. color s n = 2)"
    using visit_list_ok [where f = "visit (Suc (length nodes)) nodes" and nodes = nodes, OF visit_ok s(1)]
    by (simp add: search_inv_def del: visit.simps)
  then show "topological (succs_of nodes) (rev post)" "set entries \<subseteq> set post"
    by (auto simp: search_inv_def s)
qed

text \<open>The recursion never runs out of levels.\<close>

definition white :: "nat \<Rightarrow> search \<Rightarrow> nat" where
  "white N s = card {m. m < N \<and> color s m = 0}"

lemma white_grows:
  assumes "search_grows s t"
  shows "white N t \<le> white N s"
proof -
  have "color t m = 0 \<Longrightarrow> color s m = 0" for m
    using spec [OF assms [unfolded search_grows_def], of m] by auto
  then show ?thesis
    unfolding white_def by (intro card_mono) auto
qed

lemma white_push: "n < N \<Longrightarrow> color s n = 0 \<Longrightarrow> white N (s\<lparr>color := (color s)(n := 1), active := a\<rparr>) < white N s"
  unfolding white_def by (rule psubset_card_mono) auto

lemma visit_list_fuel:
  assumes step: "\<And>n s. n < N \<Longrightarrow> search_inv nodes s \<Longrightarrow> white N s < k \<Longrightarrow> f n s \<noteq> Inl OutOfFuel"
    and ok: "\<And>n s t. f n s = Inr t \<Longrightarrow> search_inv nodes s \<Longrightarrow> search_inv nodes t \<and> search_grows s t \<and> color t n = 2"
  shows "set ns \<subseteq> {..<N} \<Longrightarrow> search_inv nodes s \<Longrightarrow> white N s < k \<Longrightarrow> visit_list f ns s \<noteq> Inl OutOfFuel"
proof (induction ns arbitrary: s)
  case (Cons n ns)
  show ?case
  proof (cases "f n s")
    case (Inr t)
    then show ?thesis
      using Cons ok [OF Inr] white_grows [of s t N] by auto
  qed (use Cons.prems step in auto)
qed simp

lemma visit_fuel:
  assumes closed: "\<And>n. n < N \<Longrightarrow> set (succs_of nodes n) \<subseteq> {..<N}"
  shows "n < N \<Longrightarrow> search_inv nodes s \<Longrightarrow> white N s < fuel \<Longrightarrow> visit fuel nodes n s \<noteq> Inl OutOfFuel"
proof (induction fuel arbitrary: n s)
  case (Suc fuel)
  let ?s = "s\<lparr>color := (color s)(n := 1), active := active s @ [n]\<rparr>"
  show ?case
  proof (cases "color s n = 0")
    case True
    then have "search_inv nodes ?s"
      using search_inv_push Suc.prems(2) by blast
    moreover have "white N ?s < fuel"
      using white_push [OF Suc.prems(1) True] Suc.prems(3) by (meson less_Suc_eq_le less_le_trans)
    ultimately have "visit_list (visit fuel nodes) (succs_of nodes n) ?s \<noteq> Inl OutOfFuel"
      using closed [OF Suc.prems(1)] by (intro visit_list_fuel [where N = N and nodes = nodes and k = fuel] Suc.IH visit_ok)
    then show ?thesis
      using True by (cases "visit_list (visit fuel nodes) (succs_of nodes n) ?s") auto
  next
    case False
    then have "color s n = 1 \<or> color s n = 2"
      using search_inv_color(1) [OF Suc.prems(2), of n] by simp
    then show ?thesis by auto
  qed
qed simp

section \<open>Every path respects the limits\<close>

fun frame_path :: "frame_node list \<Rightarrow> nat list \<Rightarrow> bool" where
  "frame_path nodes [] = True"
| "frame_path nodes [n] = True"
| "frame_path nodes (n # m # p) = (m \<in> set (succs_of nodes n) \<and> frame_path nodes (m # p))"

abbreviation floors :: "frame_node list \<Rightarrow> nat list \<Rightarrow> nat" where
  "floors nodes p \<equiv> sum_list (map (\<lambda>n. FixedFloor (nodes ! n)) p)"

abbreviation all_fixed :: "frame_node list \<Rightarrow> nat list \<Rightarrow> bool" where
  "all_fixed nodes p \<equiv> (\<forall>n \<in> set p. \<not> VariableFrame (nodes ! n))"

lemma frame_path_append:
  "frame_path nodes (p @ q) \<longleftrightarrow> frame_path nodes p \<and> frame_path nodes q \<and> (p \<noteq> [] \<longrightarrow> q \<noteq> [] \<longrightarrow> hd q \<in> set (succs_of nodes (last p)))"
proof (induction p)
  case (Cons n p)
  then show ?case by (cases p; cases q) auto
qed simp

lemma topological_path:
  assumes "topological (succs_of nodes) order" "frame_path nodes (n # p)" "n \<in> set order"
  shows "set p \<subseteq> set order \<and> distinct (n # p)"
  using assms
proof (induction order arbitrary: n p)
  case (Cons m order)
  show ?case
  proof (cases "n = m")
    case True
    show ?thesis
    proof (cases p)
      case p: (Cons q p')
      then have "q \<in> set order" "frame_path nodes (q # p')"
        using Cons.prems True by auto
      then have "set p \<subseteq> set order" "distinct p"
        using Cons.IH [of q p'] Cons.prems(1) p by auto
      then show ?thesis using Cons.prems(1) True by auto
    qed simp
  next
    case False
    then show ?thesis using Cons.IH [of n p] Cons.prems by auto
  qed
qed simp

text \<open>A fold keeps what every step keeps, and has what the step at one of its elements gives.\<close>

lemma fold_keeps:
  "Q p \<Longrightarrow> (\<And>s p. s \<in> set ss \<Longrightarrow> Q p \<Longrightarrow> Q (f s p)) \<Longrightarrow> Q (fold f ss p)"
  by (induction ss arbitrary: p) auto

lemma fold_reaches:
  assumes "m \<in> set ss" "J p" "\<And>s p. s \<in> set ss \<Longrightarrow> J p \<Longrightarrow> J (f s p)" "\<And>p. J p \<Longrightarrow> Q (f m p)"
    "\<And>s p. s \<in> set ss \<Longrightarrow> Q p \<Longrightarrow> Q (f s p)"
  shows "Q (fold f ss p)"
proof -
  obtain us vs where ss: "ss = us @ m # vs"
    using assms(1) by (meson split_list)
  have "J (fold f us p)"
    by (rule fold_keeps [where Q = J]) (use assms(2,3) in \<open>auto simp: ss\<close>)
  then have "Q (f m (fold f us p))"
    by (rule assms(4))
  then have "Q (fold f vs (f m (fold f us p)))"
    by (rule fold_keeps [where Q = Q]) (use assms(5) in \<open>auto simp: ss\<close>)
  then show ?thesis by (simp add: ss)
qed

text \<open>Relaxing the successors of one node keeps every mark and reaches every successor.\<close>

abbreviation add_previous :: "nat \<Rightarrow> nat \<Rightarrow> (nat \<Rightarrow> nat set) \<Rightarrow> nat \<Rightarrow> nat set" where
  "add_previous n \<equiv> \<lambda>s p. p(s := p s \<union> p n)"

lemma relax_sets: "x \<in> p m \<Longrightarrow> x \<in> fold (add_previous n) ss p m"
  by (rule fold_keeps [where Q = "\<lambda>p. x \<in> p m"]) auto

lemma reach_sets:
  assumes "m \<in> set ss" "x \<in> p n"
  shows "x \<in> fold (add_previous n) ss p m"
  by (rule fold_reaches [where Q = "\<lambda>p. x \<in> p m" and J = "\<lambda>p. x \<in> p n" and m = m]) (use assms in auto)

abbreviation add_frame :: "nat \<Rightarrow> nat \<Rightarrow> (nat \<Rightarrow> nat) \<Rightarrow> nat \<Rightarrow> nat" where
  "add_frame n \<equiv> \<lambda>s c. if c s < c n + 1 then c(s := c n + 1) else c"

lemma relax_frames: "k \<le> c m \<Longrightarrow> k \<le> fold (add_frame n) ss c m"
  by (rule fold_keeps [where Q = "\<lambda>c. k \<le> c m"]) auto

lemma reach_frames:
  assumes "m \<in> set ss" "k \<le> c n"
  shows "Suc k \<le> fold (add_frame n) ss c m"
  by (rule fold_reaches [where Q = "\<lambda>c. Suc k \<le> c m" and J = "\<lambda>c. k \<le> c n" and m = m]) (use assms in auto)

definition at_least :: "nat \<Rightarrow> nat option \<Rightarrow> bool" where
  "at_least v b = (case b of None \<Rightarrow> False | Some w \<Rightarrow> v \<le> w)"

lemma at_least_simps [simp]: "at_least v (Some w) = (v \<le> w)" "\<not> at_least v None"
  by (simp_all add: at_least_def)

lemma at_least_mono: "at_least v b \<Longrightarrow> w \<le> v \<Longrightarrow> at_least w b"
  by (cases b) auto

lemma add_floor_keeps: "at_least w (p m) \<Longrightarrow> at_least w (add_floor nodes v s p m)"
  by (cases "p s") (auto simp: add_floor_def Let_def)

lemma relax_prefix: "at_least w (p m) \<Longrightarrow> at_least w (fold (add_floor nodes v) ss p m)"
  by (rule fold_keeps [where Q = "\<lambda>p. at_least w (p m)"], assumption, rule add_floor_keeps)

lemma reach_prefix:
  assumes "m \<in> set ss" "\<not> VariableFrame (nodes ! m)"
  shows "at_least (v + FixedFloor (nodes ! m)) (fold (add_floor nodes v) ss p m)"
proof (rule fold_reaches [where Q = "\<lambda>p. at_least (v + FixedFloor (nodes ! m)) (p m)" and J = "\<lambda>_. True" and m = m])
  show "at_least (v + FixedFloor (nodes ! m)) (add_floor nodes v m p m)" for p
    using assms(2) by (cases "p m") (auto simp: add_floor_def Let_def)
  show "at_least (v + FixedFloor (nodes ! m)) (add_floor nodes v s p m)" if "at_least (v + FixedFloor (nodes ! m)) (p m)" for s p
    using that by (rule add_floor_keeps)
qed (use assms in auto)

lemma frames_loop_bound:
  assumes "frames_loop nodes order c = Inr ()" "topological (succs_of nodes) order" "n \<in> set order" "0 < k" "k \<le> c n"
    "frame_path nodes (n # p)"
  shows "k + length p \<le> KernelCallFrames"
  using assms
proof (induction order arbitrary: c n k p)
  case (Cons m order)
  let ?c = "fold (add_frame m) (succs_of nodes m) c"
  show ?case
  proof (cases "n = m")
    case True
    then have run: "frames_loop nodes order ?c = Inr ()" "c m \<le> KernelCallFrames"
      using Cons.prems by (auto split: if_splits)
    show ?thesis
    proof (cases p)
      case p: (Cons q p')
      then have "q \<in> set order" "Suc k \<le> ?c q" "frame_path nodes (q # p')"
        using Cons.prems True reach_frames [of q "succs_of nodes m" k c m] by auto
      then show ?thesis using Cons.IH [OF run(1)] Cons.prems(2) p by fastforce
    qed (use run Cons.prems True in simp)
  next
    case False
    then have "n \<in> set order" "topological (succs_of nodes) order" using Cons.prems by auto
    moreover have "frames_loop nodes order c = Inr () \<or> frames_loop nodes order ?c = Inr () \<and> k \<le> ?c n"
      using Cons.prems relax_frames [of k c n m] by (auto split: if_splits)
    ultimately show ?thesis using Cons.IH Cons.prems by blast
  qed
qed simp

lemma nested_loop_bound:
  assumes "nested_loop nodes order v = Inr ()" "topological (succs_of nodes) order" "n \<in> set order" "frame_path nodes (n # p)"
  shows "length (filter (\<lambda>n. VariableFrame (nodes ! n)) (n # p)) \<le> (if v n = {} then 1 else 0)"
  using assms
proof (induction order arbitrary: v n p)
  case (Cons m order)
  define v1 where "v1 = (if VariableFrame (nodes ! m) then v(m := insert m (v m)) else v)"
  define v2 where "v2 = fold (add_previous m) (succs_of nodes m) v1"
  have run: "nested_loop nodes order v2 = Inr ()" "VariableFrame (nodes ! m) \<Longrightarrow> v m = {}"
    using Cons.prems(1) by (auto simp: v1_def v2_def Let_def split: if_splits)
  have top: "topological (succs_of nodes) order" "m \<notin> set order" "set (succs_of nodes m) \<subseteq> set order"
    using Cons.prems(2) by auto
  show ?case
  proof (cases "n = m")
    case True
    show ?thesis
    proof (cases p)
      case Nil
      then show ?thesis using run(2) True by auto
    next
      case p: (Cons q p')
      then have q: "q \<in> set (succs_of nodes m)" "q \<in> set order" "frame_path nodes (q # p')"
        using Cons.prems(4) True top by auto
      have "v1 m \<noteq> {} \<Longrightarrow> v2 q \<noteq> {}"
        using reach_sets [OF q(1), of _ v1 m] by (auto simp: v2_def)
      moreover have "v1 m = {} \<longleftrightarrow> v m = {} \<and> \<not> VariableFrame (nodes ! m)"
        by (auto simp: v1_def)
      ultimately show ?thesis
        using Cons.IH [OF run(1) top(1) q(2,3)] run(2) True p by (auto split: if_splits)
    qed
  next
    case False
    then have n: "n \<in> set order" using Cons.prems(3) by simp
    have "v n \<noteq> {} \<Longrightarrow> v2 n \<noteq> {}"
      using relax_sets [of _ v1 n m "succs_of nodes m"] False by (auto simp: v2_def v1_def)
    then show ?thesis
      using Cons.IH [OF run(1) top(1) n Cons.prems(4)] by (auto split: if_splits)
  qed
qed simp

lemma prefix_loop_keeps: "prefix_loop nodes order p = Inr r \<Longrightarrow> at_least w (p n) \<Longrightarrow> at_least w (r n)"
proof (induction order arbitrary: p)
  case (Cons m order)
  show ?case
    using Cons.prems Cons.IH relax_prefix by (auto split: if_splits option.splits)
qed simp

lemma prefix_loop_bound:
  assumes "prefix_loop nodes order c = Inr r" "topological (succs_of nodes) order" "n \<in> set order" "at_least k (c n)"
    "frame_path nodes (n # p)" "all_fixed nodes (n # p)"
  shows "k + floors nodes p \<le> KernelStackBytes \<and> at_least (k + floors nodes p) (r (last (n # p)))"
  using assms
proof (induction order arbitrary: c n k p)
  case (Cons m order)
  show ?case
  proof (cases "n = m")
    case True
    then obtain v where v: "c m = Some v" "k \<le> v"
      using Cons.prems(4) by (cases "c m") auto
    let ?c = "fold (add_floor nodes v) (succs_of nodes m) c"
    have run: "prefix_loop nodes order ?c = Inr r" "v \<le> KernelStackBytes"
      using Cons.prems True v by (auto split: if_splits)
    show ?thesis
    proof (cases p)
      case Nil
      have "at_least k (?c m)" by (rule relax_prefix) (simp add: v)
      then show ?thesis using Nil True v run prefix_loop_keeps [OF run(1)] by simp
    next
      case p: (Cons q p')
      then have q: "q \<in> set (succs_of nodes m)" "q \<in> set order" "frame_path nodes (q # p')" "all_fixed nodes (q # p')"
        using Cons.prems True by auto
      have "at_least (k + FixedFloor (nodes ! q)) (?c q)"
        by (rule at_least_mono [OF reach_prefix]) (use q v in auto)
      from Cons.IH [OF run(1) _ q(2) this q(3,4)] show ?thesis using Cons.prems(2) p by (simp add: add.assoc)
    qed
  next
    case False
    then have "n \<in> set order" "topological (succs_of nodes) order" using Cons.prems by auto
    moreover obtain d where "prefix_loop nodes order d = Inr r" "at_least k (d n)"
      using Cons.prems(1,4) relax_prefix [of k c n nodes] by (auto split: if_splits option.splits)
    ultimately show ?thesis using Cons.IH Cons.prems(5,6) by blast
  qed
qed simp

lemma suffix_loop_snoc: "suffix_loop nodes (ps @ [n]) c = suffix_loop nodes [n] (suffix_loop nodes ps c)"
  by (induction ps arbitrary: c) auto

definition best_suffix :: "frame_node list \<Rightarrow> (nat \<Rightarrow> nat option) \<Rightarrow> nat \<Rightarrow> nat" where
  "best_suffix nodes suffix n =
     fold (\<lambda>s best. if VariableFrame (nodes ! s) \<or> suffix s = None then best
                        else let candidate = FixedFloor (nodes ! n) + the (suffix s)
                             in if candidate > best then candidate else best)
          (Successors (nodes ! n)) (FixedFloor (nodes ! n))"

lemma best_suffix_floor: "FixedFloor (nodes ! n) \<le> best_suffix nodes c n"
  unfolding best_suffix_def by (rule fold_keeps [where Q = "\<lambda>b. FixedFloor (nodes ! n) \<le> b"]) (auto simp: Let_def)

lemma best_suffix_step:
  assumes "m \<in> set (succs_of nodes n)" "\<not> VariableFrame (nodes ! m)" "at_least k (c m)"
  shows "FixedFloor (nodes ! n) + k \<le> best_suffix nodes c n"
  unfolding best_suffix_def
  by (rule fold_reaches [where Q = "\<lambda>b. FixedFloor (nodes ! n) + k \<le> b" and J = "\<lambda>_. True" and m = m])
    (use assms in \<open>auto simp: Let_def at_least_def split: option.splits\<close>)

lemma suffix_loop_bound:
  assumes "topological (succs_of nodes) (rev ps)" "n \<in> set ps" "frame_path nodes (n # p)" "all_fixed nodes (n # p)"
  shows "at_least (floors nodes (n # p)) (suffix_loop nodes ps (\<lambda>_. None) n)"
  using assms
proof (induction ps arbitrary: n p rule: rev_induct)
  case (snoc m ps)
  let ?c = "suffix_loop nodes ps (\<lambda>_. None)"
  have run: "suffix_loop nodes (ps @ [m]) (\<lambda>_. None) = (if VariableFrame (nodes ! m) then ?c else ?c(m := Some (best_suffix nodes ?c m)))"
    by (simp add: suffix_loop_snoc best_suffix_def)
  show ?case
  proof (cases "n = m")
    case True
    show ?thesis
    proof (cases p)
      case p: (Cons q p')
      then have q: "q \<in> set (succs_of nodes m)" "q \<in> set ps" "frame_path nodes (q # p')" "all_fixed nodes (q # p')"
        using snoc.prems True by auto
      have "at_least (floors nodes (q # p')) (?c q)"
        using snoc.IH q snoc.prems(1) by simp
      with q have "FixedFloor (nodes ! m) + floors nodes (q # p') \<le> best_suffix nodes ?c m"
        by (intro best_suffix_step) auto
      then show ?thesis using p True snoc.prems(4) by (simp add: run)
    qed (use True snoc.prems(4) best_suffix_floor in \<open>simp add: run\<close>)
  next
    case False
    then show ?thesis using snoc by (simp add: run)
  qed
qed simp

lemma fixed_before_bound:
  assumes "m < length nodes" "v \<in> set (succs_of nodes m)" "at_least k (c m)"
  shows "k \<le> fixed_before nodes c v"
  unfolding fixed_before_def
  by (rule fold_reaches [where Q = "\<lambda>b. k \<le> b" and J = "\<lambda>_. True" and m = m])
    (use assms in \<open>auto simp: at_least_def split: option.splits\<close>)

lemma fixed_after_bound:
  assumes "m \<in> set (succs_of nodes v)" "at_least k (c m)"
  shows "k \<le> fixed_after nodes c v"
  unfolding fixed_after_def
  by (rule fold_reaches [where Q = "\<lambda>b. k \<le> b" and J = "\<lambda>_. True" and m = m])
    (use assms in \<open>auto simp: at_least_def split: option.splits\<close>)

lemma budget_loop_bound:
  assumes "budget_loop nodes order prefix suffix vs = Inr budgets" "v \<in> set vs" "VariableFrame (nodes ! v)" "v \<in> set order"
  shows "\<exists>b. map_of budgets v = Some b \<and> FixedFloor (nodes ! v) \<le> b \<and>
     fixed_before nodes prefix v + b + fixed_after nodes suffix v = KernelStackBytes"
  using assms
proof (induction vs arbitrary: budgets)
  case (Cons u vs)
  show ?case
  proof (cases "u = v")
    case True
    then show ?thesis
      using Cons.prems by (auto simp: Let_def kernel_limits split: if_splits)
  next
    case False
    then show ?thesis
      using Cons.prems Cons.IH by (auto simp: Let_def split: if_splits)
  qed
qed simp

text \<open>Any path from an entry of an accepted graph, with every fixed frame no larger than its floor and the variable
  one within its budget.\<close>

lemma path_within_limits:
  assumes search: "search_from nodes entries = Inr post" and nested: "nested_loop nodes (rev post) (\<lambda>_. {}) = Inr ()"
    and frames: "frames_loop nodes (rev post) (\<lambda>n. if n \<in> set entries then 1 else 0) = Inr ()"
    and prefix: "prefix_loop nodes (rev post)
       (\<lambda>n. if n \<in> set entries \<and> \<not> VariableFrame (nodes ! n) then Some (FixedFloor (nodes ! n)) else None) = Inr pre"
    and budgets: "budget_loop nodes (rev post) pre (suffix_loop nodes post (\<lambda>_. None)) [0..<length nodes] = Inr budgets"
    and path: "frame_path nodes (e # p)" "e \<in> set entries" "set (e # p) \<subseteq> {..<length nodes}"
    and fixed: "\<And>n. n \<in> set (e # p) \<Longrightarrow> \<not> VariableFrame (nodes ! n) \<Longrightarrow> used n \<le> FixedFloor (nodes ! n)"
    and variable: "\<And>n b. n \<in> set (e # p) \<Longrightarrow> VariableFrame (nodes ! n) \<Longrightarrow> map_of budgets n = Some b \<Longrightarrow> used n \<le> b"
  shows "length (e # p) \<le> KernelCallFrames" "sum_list (map used (e # p)) \<le> KernelStackBytes"
proof -
  note top = search_ordered [OF search]
  have e: "e \<in> set (rev post)" using top(2) path(2) by auto
  then have post: "set (e # p) \<subseteq> set post" using topological_path [OF top(1) path(1) e] by simp
  show "length (e # p) \<le> KernelCallFrames"
    using frames_loop_bound [OF frames top(1) e, of 1 p] path by simp
  have used_le: "sum_list (map used q) \<le> floors nodes q" if "all_fixed nodes q" "set q \<subseteq> set (e # p)" for q
    using that by (intro sum_list_mono fixed) auto
  have pre: "floors nodes (e # q) \<le> KernelStackBytes \<and> at_least (floors nodes (e # q)) (pre (last (e # q)))"
    if "all_fixed nodes (e # q)" "frame_path nodes (e # q)" for q
    using prefix_loop_bound [OF prefix top(1) e, of "FixedFloor (nodes ! e)" q] path(2) that by simp
  show "sum_list (map used (e # p)) \<le> KernelStackBytes"
  proof (cases "all_fixed nodes (e # p)")
    case True
    then show ?thesis using pre [OF True path(1)] used_le [OF True] by (simp del: sum_list.Cons list.map) 
  next
    case False
    then obtain xs v ys where split: "e # p = xs @ v # ys" "VariableFrame (nodes ! v)"
      by (metis split_list)
    have one: "all_fixed nodes xs" "all_fixed nodes ys"
      using nested_loop_bound [OF nested top(1) e path(1)] split by (auto simp: filter_empty_conv)
    have paths: "frame_path nodes xs" "frame_path nodes (v # ys)" "xs \<noteq> [] \<Longrightarrow> v \<in> set (succs_of nodes (last xs))"
      using path(1) unfolding split(1) frame_path_append by auto
    have v: "v < length nodes" "v \<in> set (rev post)"
      using path(3) post unfolding split(1) by auto
    obtain b where b: "map_of budgets v = Some b"
      "fixed_before nodes pre v + b + fixed_after nodes (suffix_loop nodes post (\<lambda>_. None)) v = KernelStackBytes"
      using budget_loop_bound [OF budgets _ split(2) v(2)] v(1) by auto
    have "floors nodes xs \<le> fixed_before nodes pre v"
    proof (cases xs)
      case (Cons x xs')
      then have "x = e" "last xs \<in> set (e # p)" using split(1) last_in_set [of xs] by auto
      then show ?thesis
        using pre [of xs'] one(1) paths(1,3) Cons path(3) by (intro fixed_before_bound [of "last xs"]) auto
    qed simp
    moreover have "floors nodes ys \<le> fixed_after nodes (suffix_loop nodes post (\<lambda>_. None)) v"
    proof (cases ys)
      case (Cons y ys')
      then have "y \<in> set post" "y \<in> set (succs_of nodes v)" "frame_path nodes (y # ys')"
        using paths(2) post unfolding split(1) by auto
      then show ?thesis
        using suffix_loop_bound [OF top(1), of y ys'] one(2) Cons by (intro fixed_after_bound [of y]) auto
    qed simp
    moreover have "used v \<le> b" using variable [OF _ split(2) b(1)] split(1) by simp
    ultimately show ?thesis
      using b(2) used_le [OF one(1)] used_le [OF one(2)] unfolding split(1) by (simp add: subset_insertI2)
  qed
qed

section \<open>Call chains of the module\<close>

lemma class_nodes_wf:
  assumes "\<forall>c n. map_of classes c = Some n \<longrightarrow> n < length classes"
  shows "(\<forall>c n. map_of (class_nodes cs classes) c = Some n \<longrightarrow> n < length (class_nodes cs classes)) \<and>
     (\<forall>c. Some c \<in> set cs \<or> map_of classes c \<noteq> None \<longrightarrow> map_of (class_nodes cs classes) c \<noteq> None)"
  using assms
proof (induction cs classes rule: class_nodes.induct)
  case (3 c cs classes)
  let ?next = "if map_of classes c = None then classes @ [(c, length classes)] else classes"
  have "\<forall>d n. map_of ?next d = Some n \<longrightarrow> n < length ?next"
    using 3(2) by (auto simp: map_add_def split: option.splits if_splits) (meson less_SucI)
  moreover have "map_of ?next d \<noteq> None \<longleftrightarrow> d = c \<or> map_of classes d \<noteq> None" for d
    by (auto simp: map_add_def split: option.splits)
  ultimately show ?case using 3(1) by auto
qed auto

lemma node_of_bound:
  assumes "\<forall>c. Some c \<in> set cs \<longrightarrow> map_of classes c \<noteq> None" "\<forall>c n. map_of classes c = Some n \<longrightarrow> n < N" "N \<le> next"
  shows "set (node_of classes next cs) \<subseteq> {..<next + length (filter (\<lambda>c. c = None) cs)} \<and> length (node_of classes next cs) = length cs"
  using assms
proof (induction classes "next" cs rule: node_of.induct)
  case (2 classes "next" c cs)
  then have "the (map_of classes c) < next" by (cases "map_of classes c") (auto dest: order_less_le_trans)
  then show ?case using 2 by auto
next
  case (3 classes "next" cs)
  then show ?case by fastforce
qed simp

lemma classes_of_length: "classes_of fns = Inr cs \<Longrightarrow> length cs = length fns"
  by (induction fns arbitrary: cs) auto

lemma make_nodes_nth:
  "make_nodes fns classes nodeOf ns = Inr nodes \<Longrightarrow>
     length nodes = length ns \<and> (\<forall>i < length ns. make_node fns classes nodeOf (ns ! i) = Inr (nodes ! i))"
proof (induction ns arbitrary: nodes)
  case (Cons n ns)
  then show ?case by (auto simp: nth_Cons split: nat.splits)
qed simp

lemma floor_fold:
  "f \<in> set ms \<Longrightarrow> \<not> u f \<Longrightarrow> b f \<le> fold (\<lambda>f floor. if u f then floor else max floor (b f)) ms (0::nat)"
  by (rule fold_reaches [where Q = "\<lambda>x. b f \<le> x" and J = "\<lambda>_. True" and m = f]) auto

text \<open>What the graph of an accepted module says of its functions.\<close>

lemma frame_graph_nodes:
  assumes "frame_graph_of fns = Inr G"
  shows "length (fg_node_of G) = length fns" "set (fg_node_of G) \<subseteq> {..<length (fg_nodes G)}"
    "\<exists>classes. \<forall>n < length (fg_nodes G). make_node fns classes (fg_node_of G) n = Inr (fg_nodes G ! n)"
    "fg_entries G = sort (remdups (map (\<lambda>f. fg_node_of G ! f) (filter (\<lambda>f. mfn_entry (fns ! f)) [0..<length fns])))"
    "\<forall>f \<in> set fns. \<forall>g \<in> set (global_references (mfn_code f)). g < length fns"
proof -
  from assms obtain cs nodes where cs: "classes_of fns = Inr cs"
    and nodes: "make_nodes fns (class_nodes cs []) (node_of (class_nodes cs []) (length (class_nodes cs [])) cs)
        [0..<length (class_nodes cs []) + length (filter (\<lambda>c. c = None) cs)] = Inr nodes"
    and refs: "\<not> (\<exists>f \<in> set fns. \<exists>g \<in> set (global_references (mfn_code f)). length fns \<le> g)"
    and G: "G = \<lparr>fg_node_of = node_of (class_nodes cs []) (length (class_nodes cs [])) cs, fg_nodes = nodes,
      fg_entries = sort (remdups (map (\<lambda>f. node_of (class_nodes cs []) (length (class_nodes cs [])) cs ! f)
        (filter (\<lambda>f. mfn_entry (fns ! f)) [0..<length fns])))\<rparr>"
    unfolding frame_graph_of_def by (auto simp: Let_def split: if_splits)
  note wf = class_nodes_wf [of "[]" cs, simplified]
  note bound = node_of_bound [of cs "class_nodes cs []" "length (class_nodes cs [])" "length (class_nodes cs [])"]
  note nth = make_nodes_nth [OF nodes]
  show "length (fg_node_of G) = length fns" "set (fg_node_of G) \<subseteq> {..<length (fg_nodes G)}"
    using bound wf nth classes_of_length [OF cs] by (auto simp: G)
  show "\<exists>classes. \<forall>n < length (fg_nodes G). make_node fns classes (fg_node_of G) n = Inr (fg_nodes G ! n)"
    using nth by (auto simp: G intro!: exI [of _ "class_nodes cs []"])
  show "fg_entries G = sort (remdups (map (\<lambda>f. fg_node_of G ! f) (filter (\<lambda>f. mfn_entry (fns ! f)) [0..<length fns])))"
    by (simp add: G)
  show "\<forall>f \<in> set fns. \<forall>g \<in> set (global_references (mfn_code f)). g < length fns"
    using refs by (meson not_le)
qed

lemma guarded_Inr: "(if c then Inl e else Inr r) = Inr x \<Longrightarrow> x = r"
  by (simp split: if_splits)

lemma graph_node:
  assumes G: "frame_graph_of fns = Inr G" and n: "n < length (fg_nodes G)"
  shows "Members (fg_nodes G ! n) = node_members (fg_node_of G) n"
    "VariableFrame (fg_nodes G ! n) \<longleftrightarrow> (\<exists>f \<in> set (node_members (fg_node_of G) n). mfn_allocation_unit (fns ! f))"
    "f \<in> set (node_members (fg_node_of G) n) \<Longrightarrow> \<not> mfn_allocation_unit (fns ! f) \<Longrightarrow>
       portableFrameBytes (fns ! f) \<le> FixedFloor (fg_nodes G ! n)"
    "set (succs_of (fg_nodes G) n) = (\<Union>f \<in> set (node_members (fg_node_of G) n). set (caller_successors fns (fg_node_of G) f))"
proof -
  obtain classes where "make_node fns classes (fg_node_of G) n = Inr (fg_nodes G ! n)"
    using frame_graph_nodes(3) [OF G] n by blast
  then obtain fc root where node: "fg_nodes G ! n = \<lparr>FlattenClass = fc, Members = node_members (fg_node_of G) n, OutputRoot = root,
      VariableFrame = (\<exists>f \<in> set (node_members (fg_node_of G) n). mfn_allocation_unit (fns ! f)),
      FixedFloor = fold (\<lambda>f floor. if mfn_allocation_unit (fns ! f) then floor else max floor (portableFrameBytes (fns ! f)))
        (node_members (fg_node_of G) n) 0,
      Successors = sort (remdups (concat (map (caller_successors fns (fg_node_of G)) (node_members (fg_node_of G) n))))\<rparr>"
    unfolding make_node_def Let_def by (blast dest: guarded_Inr)
  show "Members (fg_nodes G ! n) = node_members (fg_node_of G) n"
    "VariableFrame (fg_nodes G ! n) \<longleftrightarrow> (\<exists>f \<in> set (node_members (fg_node_of G) n). mfn_allocation_unit (fns ! f))"
    "set (succs_of (fg_nodes G) n) = (\<Union>f \<in> set (node_members (fg_node_of G) n). set (caller_successors fns (fg_node_of G) f))"
    by (simp_all add: node)
  show "portableFrameBytes (fns ! f) \<le> FixedFloor (fg_nodes G ! n)"
    if "f \<in> set (node_members (fg_node_of G) n)" "\<not> mfn_allocation_unit (fns ! f)"
    using floor_fold [OF that(1), of "\<lambda>f. mfn_allocation_unit (fns ! f)" "\<lambda>f. portableFrameBytes (fns ! f)"] that(2)
    by (simp add: node)
qed

lemma graph_edge:
  assumes G: "frame_graph_of fns = Inr G" and f: "f < length fns" "g \<in> set (global_references (mfn_code (fns ! f)))"
    "\<not> removedByFlatten fns (fg_node_of G) f g"
  shows "fg_node_of G ! g \<in> set (succs_of (fg_nodes G) (fg_node_of G ! f))"
proof -
  have "fg_node_of G ! f < length (fg_nodes G)"
    using frame_graph_nodes(1,2) [OF G] f(1) by (metis lessThan_iff nth_mem subsetD)
  then show ?thesis
    using f frame_graph_nodes(1) [OF G] by (auto simp: graph_node(4) [OF G] node_members_def caller_successors_def)
qed

lemma graph_closed:
  assumes G: "frame_graph_of fns = Inr G" and n: "n < length (fg_nodes G)"
  shows "set (succs_of (fg_nodes G) n) \<subseteq> {..<length (fg_nodes G)}"
proof -
  have "fg_node_of G ! g < length (fg_nodes G)" if "g < length fns" for g
    using frame_graph_nodes(1,2) [OF G] that by (metis lessThan_iff nth_mem subsetD)
  then show ?thesis
    using frame_graph_nodes(1) [OF G] frame_graph_nodes(5) [OF G, THEN bspec, OF nth_mem]
    by (auto simp: graph_node(4) [OF G n] node_members_def caller_successors_def)
qed

text \<open>A chain of calls between functions, and the physical frames it stacks: a call the flattening removes stays in
  its caller's frame.\<close>

fun call_chain :: "machine_function list \<Rightarrow> nat list \<Rightarrow> bool" where
  "call_chain fns [] = True"
| "call_chain fns [f] = (f < length fns)"
| "call_chain fns (f # g # fs) = (f < length fns \<and> g \<in> set (global_references (mfn_code (fns ! f))) \<and> call_chain fns (g # fs))"

fun physical_frames :: "machine_function list \<Rightarrow> nat list \<Rightarrow> nat list \<Rightarrow> nat list" where
  "physical_frames fns nodeOf [] = []"
| "physical_frames fns nodeOf [f] = [nodeOf ! f]"
| "physical_frames fns nodeOf (f # g # fs) =
     (if removedByFlatten fns nodeOf f g then [] else [nodeOf ! f]) @ physical_frames fns nodeOf (g # fs)"

text \<open>The frame of a node holds the largest of its members' frames.\<close>

definition node_frame :: "(nat \<Rightarrow> nat) \<Rightarrow> nat list \<Rightarrow> nat \<Rightarrow> nat" where
  "node_frame frame nodeOf n = fold (\<lambda>f m. max m (frame f)) (node_members nodeOf n) 0"

lemma node_frame_le: "(\<And>f. f \<in> set (node_members nodeOf n) \<Longrightarrow> frame f \<le> b) \<Longrightarrow> node_frame frame nodeOf n \<le> b"
  unfolding node_frame_def by (rule fold_keeps [where Q = "\<lambda>m. m \<le> b"]) auto

lemma call_chain_bound: "call_chain fns fs \<Longrightarrow> \<forall>f \<in> set fns. \<forall>g \<in> set (global_references (mfn_code f)). g < length fns \<Longrightarrow> set fs \<subseteq> {..<length fns}"
  by (induction fns fs rule: call_chain.induct) auto

lemma physical_frames_path:
  assumes "frame_graph_of fns = Inr G" "call_chain fns (f # fs)"
  shows "\<exists>p. physical_frames fns (fg_node_of G) (f # fs) = fg_node_of G ! f # p \<and> frame_path (fg_nodes G) (fg_node_of G ! f # p) \<and>
     set p \<subseteq> set (fg_node_of G)"
  using assms(2)
proof (induction fs arbitrary: f)
  case (Cons g fs)
  then obtain p where p: "physical_frames fns (fg_node_of G) (g # fs) = fg_node_of G ! g # p"
    "frame_path (fg_nodes G) (fg_node_of G ! g # p)" "set p \<subseteq> set (fg_node_of G)"
    by auto
  have f: "f < length fns" "g \<in> set (global_references (mfn_code (fns ! f)))" "g < length (fg_node_of G)"
    using Cons.prems call_chain_bound [OF Cons.prems frame_graph_nodes(5) [OF assms(1)]] frame_graph_nodes(1) [OF assms(1)] by auto
  show ?case
  proof (cases "removedByFlatten fns (fg_node_of G) f g")
    case True
    then show ?thesis using p by (auto simp: removedByFlatten_def)
  next
    case False
    then show ?thesis using p f graph_edge [OF assms(1) f(1,2) False] by auto
  qed
qed simp

lemma stack_budget_unfold:
  assumes "stack_budget fns = Inr (G, budgets)"
  obtains post pre where "frame_graph_of fns = Inr G" "search_from (fg_nodes G) (fg_entries G) = Inr post"
    "nested_loop (fg_nodes G) (rev post) (\<lambda>_. {}) = Inr ()"
    "frames_loop (fg_nodes G) (rev post) (\<lambda>n. if n \<in> set (fg_entries G) then 1 else 0) = Inr ()"
    "prefix_loop (fg_nodes G) (rev post) (\<lambda>n. if n \<in> set (fg_entries G) \<and> \<not> VariableFrame (fg_nodes G ! n)
       then Some (FixedFloor (fg_nodes G ! n)) else None) = Inr pre"
    "budget_loop (fg_nodes G) (rev post) pre (suffix_loop (fg_nodes G) post (\<lambda>_. None)) [0..<length (fg_nodes G)] = Inr budgets"
  using assms unfolding stack_budget_def by (auto simp: Let_def)

lemma entry_node: "frame_graph_of fns = Inr G \<Longrightarrow> f < length fns \<Longrightarrow> mfn_entry (fns ! f) \<Longrightarrow> fg_node_of G ! f \<in> set (fg_entries G)"
  by (auto simp: frame_graph_nodes(4))

text \<open>The search is never cut short: enough levels of recursion are allowed for any graph.\<close>

lemma graph_fuel: "frame_graph_of fns \<noteq> Inl OutOfFuel"
proof -
  have "metadataClass md \<noteq> Inl OutOfFuel" for md
    by (auto simp: metadataClass_def split: option.splits list.splits)
  then have "classOf f \<noteq> Inl OutOfFuel" for f
    by (auto simp: classOf_def on_ok_Inl split: if_splits)
  then have "classes_of fns \<noteq> Inl OutOfFuel"
    by (induction fns) (auto simp: on_ok_Inl)
  moreover have "make_nodes fns classes nodeOf ns \<noteq> Inl OutOfFuel" for classes nodeOf ns
    by (induction ns) (auto simp: make_node_def Let_def on_ok_Inl split: if_splits)
  ultimately show ?thesis
    by (auto simp: frame_graph_of_def Let_def on_ok_Inl split: if_splits)
qed

lemma loops_fuel:
  "nested_loop nodes order v \<noteq> Inl OutOfFuel" "frames_loop nodes order c \<noteq> Inl OutOfFuel"
  "prefix_loop nodes order p \<noteq> Inl OutOfFuel" "budget_loop nodes order pre suf vs \<noteq> Inl OutOfFuel"
  subgoal by (induction order arbitrary: v) (auto simp: Let_def)
  subgoal by (induction order arbitrary: c) auto
  subgoal by (induction order arbitrary: p) (auto split: option.splits)
  subgoal by (induction vs) (auto simp: Let_def on_ok_Inl split: if_splits)
  done

lemma search_fuel:
  assumes "frame_graph_of fns = Inr G"
  shows "search_from (fg_nodes G) (fg_entries G) \<noteq> Inl OutOfFuel"
proof -
  let ?N = "length (fg_nodes G)" and ?s = "\<lparr>color = (\<lambda>_. 0), active = [], postorder = []\<rparr> :: search"
  have "set (fg_entries G) \<subseteq> {..<?N}"
    using frame_graph_nodes [OF assms] nth_mem [of _ "fg_node_of G"] by (auto simp: subset_iff)
  moreover have "white ?N ?s < Suc ?N" by (simp add: white_def)
  moreover have "search_inv (fg_nodes G) ?s" by (simp add: search_inv_def)
  ultimately have "visit_list (visit (Suc ?N) (fg_nodes G)) (fg_entries G) ?s \<noteq> Inl OutOfFuel"
    by (intro visit_list_fuel [where N = ?N and nodes = "fg_nodes G" and k = "Suc ?N"] visit_fuel visit_ok)
      (auto intro!: visit_fuel graph_closed [OF assms] simp del: visit.simps)
  then show ?thesis
    unfolding search_from_def on_ok_Inl by auto
qed

lemma stack_budget_total: "stack_budget fns \<noteq> Inl OutOfFuel"
  using graph_fuel search_fuel loops_fuel by (fastforce simp: stack_budget_def Let_def on_ok_Inl)

text \<open>C11: The call-stack budget is sound. In a module the pass accepts, take any chain of calls that starts at an entry
  program, with every native function in a frame no larger than its portable size and every allocation unit in one
  no larger than the budget it was given. The physical frames the chain stacks are pairwise distinct, so there is no
  recursion, they are at most eight, and together they use at most the kernel's 512 bytes.\<close>

theorem accepted_stack_fits:
  assumes accepted: "stack_budget fns = Inr (G, budgets)" and chain: "call_chain fns (f # fs)" and entry: "mfn_entry (fns ! f)"
    and native: "\<And>g. g < length fns \<Longrightarrow> \<not> mfn_allocation_unit (fns ! g) \<Longrightarrow> frame g \<le> portableFrameBytes (fns ! g)"
    and units: "\<And>g b. g < length fns \<Longrightarrow> native_stack_budget fns (G, budgets) g = Some b \<Longrightarrow> frame g \<le> b"
  shows "distinct (physical_frames fns (fg_node_of G) (f # fs)) \<and> length (physical_frames fns (fg_node_of G) (f # fs)) \<le> 8 \<and>
     sum_list (map (node_frame frame (fg_node_of G)) (physical_frames fns (fg_node_of G) (f # fs))) \<le> 512"
proof -
  obtain post pre where run: "frame_graph_of fns = Inr G" "search_from (fg_nodes G) (fg_entries G) = Inr post"
    "nested_loop (fg_nodes G) (rev post) (\<lambda>_. {}) = Inr ()"
    "frames_loop (fg_nodes G) (rev post) (\<lambda>n. if n \<in> set (fg_entries G) then 1 else 0) = Inr ()"
    "prefix_loop (fg_nodes G) (rev post) (\<lambda>n. if n \<in> set (fg_entries G) \<and> \<not> VariableFrame (fg_nodes G ! n)
       then Some (FixedFloor (fg_nodes G ! n)) else None) = Inr pre"
    "budget_loop (fg_nodes G) (rev post) pre (suffix_loop (fg_nodes G) post (\<lambda>_. None)) [0..<length (fg_nodes G)] = Inr budgets"
    using stack_budget_unfold [OF accepted] by blast
  note facts = frame_graph_nodes [OF run(1)] and top = search_ordered [OF run(2)]
  obtain p where p: "physical_frames fns (fg_node_of G) (f # fs) = fg_node_of G ! f # p"
    "frame_path (fg_nodes G) (fg_node_of G ! f # p)" "set p \<subseteq> set (fg_node_of G)"
    using physical_frames_path [OF run(1) chain] by blast
  have f: "f < length fns" using call_chain_bound [OF chain facts(5)] by simp
  note e = entry_node [OF run(1) f entry]
  have "fg_node_of G ! f \<in> set (fg_node_of G)" using facts(1) f by simp
  then have bound: "set (fg_node_of G ! f # p) \<subseteq> {..<length (fg_nodes G)}"
    using p(3) facts(2) by auto
  have order: "set (fg_node_of G ! f # p) \<subseteq> set (rev post) \<and> distinct (fg_node_of G ! f # p)"
    using topological_path [OF top(1) p(2)] top(2) e by auto
  have members: "g < length fns" "fg_node_of G ! g = n" if "g \<in> set (node_members (fg_node_of G) n)" for g n
    using that facts(1) by (auto simp: node_members_def)
  have fixed: "node_frame frame (fg_node_of G) n \<le> FixedFloor (fg_nodes G ! n)"
    if "n \<in> set (fg_node_of G ! f # p)" "\<not> VariableFrame (fg_nodes G ! n)" for n
  proof (rule node_frame_le)
    fix g assume g: "g \<in> set (node_members (fg_node_of G) n)"
    have "n < length (fg_nodes G)" using that(1) bound by auto
    with g that(2) show "frame g \<le> FixedFloor (fg_nodes G ! n)"
      using native [of g] members(1) [OF g] graph_node(2,3) [OF run(1), of n] by (meson order_trans)
  qed
  have variable: "node_frame frame (fg_node_of G) n \<le> b"
    if n: "n \<in> set (fg_node_of G ! f # p)" "VariableFrame (fg_nodes G ! n)" and b: "map_of budgets n = Some b" for n b
  proof (rule node_frame_le)
    fix g assume g: "g \<in> set (node_members (fg_node_of G) n)"
    have "n < length (fg_nodes G)" "FixedFloor (fg_nodes G ! n) \<le> b"
      using n b bound order budget_loop_bound [OF run(6) _ n(2)] by auto
    then show "frame g \<le> b"
      using g members [OF g] units [of g b] native [of g] graph_node(3) [OF run(1) _ g] b
      by (cases "mfn_allocation_unit (fns ! g)") (auto simp: native_stack_budget_def)
  qed
  note limits = path_within_limits [OF run(2-6) p(2) e bound, of "node_frame frame (fg_node_of G)"]
  have "length (fg_node_of G ! f # p) \<le> KernelCallFrames"
    by (rule limits(1); erule fixed variable; assumption)
  moreover have "sum_list (map (node_frame frame (fg_node_of G)) (fg_node_of G ! f # p)) \<le> KernelStackBytes"
    by (rule limits(2); erule fixed variable; assumption)
  ultimately show ?thesis
    using order p(1) by (simp add: kernel_limits)
qed

text \<open>An entry program calls a dispatcher, the root of flatten class 7; the class has one allocation unit, which calls
  a native routine with a 40-byte frame.\<close>

definition sample_functions :: "machine_function list" where
  "sample_functions =
     [\<lparr>mfn_flatten_root = None, mfn_flatten_unit = None, mfn_allocation_unit = False, mfn_stack_size = 0,
        mfn_code = [(''JAL'', [GlobalOperand (DefinedFunction 1)])], mfn_entry = True\<rparr>,
      \<lparr>mfn_flatten_root = Some [Some 7], mfn_flatten_unit = None, mfn_allocation_unit = False, mfn_stack_size = 0,
        mfn_code = [(''STD'', [PhysicalReg ''R1'', PhysicalReg ''R10'', Immediate (-8)]), (''JAL'', [GlobalOperand (DefinedFunction 2)])],
        mfn_entry = False\<rparr>,
      \<lparr>mfn_flatten_root = None, mfn_flatten_unit = Some [Some 7], mfn_allocation_unit = True, mfn_stack_size = 200,
        mfn_code = [(''JAL'', [GlobalOperand (DefinedFunction 3)]), (''JAL'', [GlobalOperand DeclaredFunction])], mfn_entry = False\<rparr>,
      \<lparr>mfn_flatten_root = None, mfn_flatten_unit = None, mfn_allocation_unit = False, mfn_stack_size = 40,
        mfn_code = [], mfn_entry = False\<rparr>]"

definition sample_graph :: frame_graph where
  "sample_graph =
     \<lparr>fg_node_of = [1, 0, 0, 2],
      fg_nodes = [\<lparr>FlattenClass = Some 7, Members = [1, 2], OutputRoot = Some 1, VariableFrame = True, FixedFloor = 32, Successors = [2]\<rparr>,
        \<lparr>FlattenClass = None, Members = [0], OutputRoot = None, VariableFrame = False, FixedFloor = 32, Successors = [0]\<rparr>,
        \<lparr>FlattenClass = None, Members = [3], OutputRoot = None, VariableFrame = False, FixedFloor = 64, Successors = []\<rparr>],
      fg_entries = [1]\<rparr>"

lemma sample_frames:
  "map portableFrameBytes sample_functions = [32, 32, 224, 64]"
  by (simp add: sample_functions_def portableFrameBytes_def frame_access_def isStackMemoryOpcode_def starts_with_def align_to_def
      PortableStackGranule_def)

lemma sample_graph_ok: "frame_graph_of sample_functions = Inr sample_graph"
  by (simp add: sample_graph_def frame_graph_of_def sample_functions_def classOf_def metadataClass_def Let_def make_node_def node_members_def
      caller_successors_def removedByFlatten_def map_filter_simps portableFrameBytes_def frame_access_def isStackMemoryOpcode_def
      starts_with_def align_to_def PortableStackGranule_def)

lemma sample_budget_ok: "stack_budget sample_functions = Inr (sample_graph, [(0, 416)])"
  by (simp add: stack_budget_def sample_graph_ok) (simp add: sample_graph_def search_from_def Let_def kernel_limits fixed_before_def fixed_after_def
      add_floor_def)

theorem accepted_stack_fits_witness:
  "distinct [1, 0, 2::nat] \<and> sum_list (map (node_frame (\<lambda>g. [32, 32, 416, 64] ! g) (fg_node_of sample_graph)) [1, 0, 2]) \<le> 512 \<and>
     physical_frames sample_functions (fg_node_of sample_graph) [0, 1, 2, 3] = [1, 0, 2]"
proof -
  have chain: "call_chain sample_functions (0 # [1, 2, 3])"
    by (simp add: sample_functions_def map_filter_simps)
  have entry: "mfn_entry (sample_functions ! 0)"
    by (simp add: sample_functions_def)
  have native: "[32, 32, 416, 64] ! g \<le> portableFrameBytes (sample_functions ! g)"
    if "g < length sample_functions" "\<not> mfn_allocation_unit (sample_functions ! g)" for g
  proof -
    have "portableFrameBytes (sample_functions ! g) = [32, 32, 224, 64] ! g"
      using that(1) by (simp flip: sample_frames)
    then show ?thesis
      using that by (auto simp: sample_functions_def less_Suc_eq)
  qed
  have units: "[32, 32, 416, 64] ! g \<le> b"
    if "g < length sample_functions" "native_stack_budget sample_functions (sample_graph, [(0, 416)]) g = Some b" for g b
    using that by (auto simp: sample_functions_def sample_graph_def native_stack_budget_def less_Suc_eq split: if_splits)
  have "physical_frames sample_functions (fg_node_of sample_graph) (0 # [1, 2, 3]) = [1, 0, 2]"
    by (simp add: sample_functions_def sample_graph_def removedByFlatten_def)
  moreover have "distinct (physical_frames sample_functions (fg_node_of sample_graph) (0 # [1, 2, 3])) \<and>
     length (physical_frames sample_functions (fg_node_of sample_graph) (0 # [1, 2, 3])) \<le> 8 \<and>
     sum_list (map (node_frame (\<lambda>g. [32, 32, 416, 64] ! g) (fg_node_of sample_graph))
       (physical_frames sample_functions (fg_node_of sample_graph) (0 # [1, 2, 3]))) \<le> 512"
    by (rule accepted_stack_fits [OF sample_budget_ok chain entry]; erule native units; assumption)
  ultimately show ?thesis by (simp del: physical_frames.simps)
qed

end
