(* ===== verification/Capsule_Abi.thy ===== *)
theory Capsule_Abi
  imports Capsule_Prelude
begin

text \<open>
  The private object ABI (\<open>src/src/runtime/internal/bpf_capsule_abi.h\<close>), the public status and
  error codes (\<open>src/src/runtime/guest/bpf_capsule_types.h\<close>) and the bit-level encodings the runtime
  and the compiler share: the fiber control record and its one-store outcome word, the object
  configuration record, continuation tokens, packed region IDs and function tokens.
\<close>

section \<open>Statuses, error codes and results\<close>

definition CAPSULE_OK :: u32 where "CAPSULE_OK = 0"
definition CAPSULE_PENDING :: u32 where "CAPSULE_PENDING = 1"
definition CAPSULE_YIELD :: u32 where "CAPSULE_YIELD = 2"
definition CAPSULE_EXITED :: u32 where "CAPSULE_EXITED = 3"

lemmas status_defs = CAPSULE_OK_def CAPSULE_PENDING_def CAPSULE_YIELD_def CAPSULE_EXITED_def

lemma status_distinct [simp]:
  "CAPSULE_OK \<noteq> CAPSULE_PENDING" "CAPSULE_OK \<noteq> CAPSULE_YIELD" "CAPSULE_OK \<noteq> CAPSULE_EXITED"
  "CAPSULE_PENDING \<noteq> CAPSULE_OK" "CAPSULE_PENDING \<noteq> CAPSULE_YIELD" "CAPSULE_PENDING \<noteq> CAPSULE_EXITED"
  "CAPSULE_YIELD \<noteq> CAPSULE_OK" "CAPSULE_YIELD \<noteq> CAPSULE_PENDING" "CAPSULE_YIELD \<noteq> CAPSULE_EXITED"
  "CAPSULE_EXITED \<noteq> CAPSULE_OK" "CAPSULE_EXITED \<noteq> CAPSULE_PENDING" "CAPSULE_EXITED \<noteq> CAPSULE_YIELD"
  by (simp_all add: status_defs)

definition CAPSULE_ERROR_POOL_EXHAUSTED :: i32 where "CAPSULE_ERROR_POOL_EXHAUSTED = -1"
definition CAPSULE_ERROR_INVALID_CONTINUATION :: i32 where "CAPSULE_ERROR_INVALID_CONTINUATION = -2"
definition CAPSULE_ERROR_STALE_CONTINUATION :: i32 where "CAPSULE_ERROR_STALE_CONTINUATION = -3"
definition CAPSULE_ERROR_NOT_PENDING :: i32 where "CAPSULE_ERROR_NOT_PENDING = -4"
definition CAPSULE_ERROR_POOL_CORRUPT :: i32 where "CAPSULE_ERROR_POOL_CORRUPT = -5"
definition CAPSULE_ERROR_RETURN_MISMATCH :: i32 where "CAPSULE_ERROR_RETURN_MISMATCH = -6"
definition CAPSULE_ERROR_STACK_OVERFLOW :: i32 where "CAPSULE_ERROR_STACK_OVERFLOW = -7"
definition CAPSULE_ERROR_MEMORY_FAULT :: i32 where "CAPSULE_ERROR_MEMORY_FAULT = -8"
definition CAPSULE_ERROR_INVALID_DISPATCH :: i32 where "CAPSULE_ERROR_INVALID_DISPATCH = -9"
definition CAPSULE_ERROR_INTRINSIC_GUARD :: i32 where "CAPSULE_ERROR_INTRINSIC_GUARD = -10"
definition CAPSULE_ERROR_UNREACHABLE :: i32 where "CAPSULE_ERROR_UNREACHABLE = -13"
definition CAPSULE_ERROR_TRAP :: i32 where "CAPSULE_ERROR_TRAP = -14"
definition CAPSULE_ERROR_ALLOCATOR_CORRUPT :: i32 where "CAPSULE_ERROR_ALLOCATOR_CORRUPT = -16"
definition CAPSULE_ERROR_BAD_PLAN :: i32 where "CAPSULE_ERROR_BAD_PLAN = -17"

lemmas error_code_defs =
  CAPSULE_ERROR_POOL_EXHAUSTED_def CAPSULE_ERROR_INVALID_CONTINUATION_def
  CAPSULE_ERROR_STALE_CONTINUATION_def CAPSULE_ERROR_NOT_PENDING_def CAPSULE_ERROR_POOL_CORRUPT_def
  CAPSULE_ERROR_RETURN_MISMATCH_def CAPSULE_ERROR_STACK_OVERFLOW_def
  CAPSULE_ERROR_MEMORY_FAULT_def CAPSULE_ERROR_INVALID_DISPATCH_def
  CAPSULE_ERROR_INTRINSIC_GUARD_def CAPSULE_ERROR_UNREACHABLE_def CAPSULE_ERROR_TRAP_def
  CAPSULE_ERROR_ALLOCATOR_CORRUPT_def CAPSULE_ERROR_BAD_PLAN_def

definition BPF_CAPSULE_NO_CONTINUATION :: u64 where
  "BPF_CAPSULE_NO_CONTINUATION = 0xFFFFFFFFFFFFFFFF"

definition BPF_CAPSULE_MAX_FIBERS_LIMIT :: u32 where
  "BPF_CAPSULE_MAX_FIBERS_LIMIT = 65535"

definition BPF_CAPSULE_NO_FIBER :: u32 where
  "BPF_CAPSULE_NO_FIBER = 0xFFFFFFFF"

record capsule_result =
  res_code :: i32
  res_status :: u32
  res_continuation :: u64

section \<open>The fiber control record\<close>

record fiber_control =
  fc_status :: u32
  fc_code :: i32
  fc_generation :: u64
  fc_sp :: u64
  fc_fp :: u64
  fc_resume_region_id :: u32
  fc_return_size :: u32

definition BPF_CAPSULE_REGION_ID_DONE :: u32 where
  "BPF_CAPSULE_REGION_ID_DONE = 0xFFFFFFFF"

text \<open>The zero-filled record of a fresh control map: an idle fiber.\<close>

definition zero_control :: fiber_control where
  "zero_control = \<lparr>fc_status = 0, fc_code = 0, fc_generation = 0, fc_sp = 0, fc_fp = 0,
     fc_resume_region_id = 0, fc_return_size = 0\<rparr>"

text \<open>\<open>__bpf_capsule_stop\<close>: publish a terminal event as two field stores.\<close>

definition bpf_capsule_stop :: "fiber_control \<Rightarrow> i32 \<Rightarrow> fiber_control" where
  [capsule_defs]: "bpf_capsule_stop control code = control\<lparr>fc_status := CAPSULE_EXITED, fc_code := code\<rparr>"

text \<open>\<open>OutcomeValue\<close>: the word whose single 64-bit store fills the adjacent pair.\<close>

definition OutcomeValue :: "i32 \<Rightarrow> u64" where
  "OutcomeValue code = push_bit 32 (scast code) OR ucast CAPSULE_EXITED"

text \<open>A 64-bit little-endian store at the address of \<open>status\<close>: the low half lands in \<open>status\<close>, the
  high half in \<open>code\<close>, which is four bytes above it.\<close>

definition store_outcome :: "u64 \<Rightarrow> fiber_control \<Rightarrow> fiber_control" where
  "store_outcome w control = control\<lparr>fc_status := ucast w, fc_code := ucast (drop_bit 32 w)\<rparr>"

lemma ucast_OutcomeValue_low: "ucast (OutcomeValue code) = CAPSULE_EXITED"
  by (rule bit_word_eqI)
    (auto simp: OutcomeValue_def bit_simps CAPSULE_EXITED_def)

lemma ucast_OutcomeValue_high: "ucast (drop_bit 32 (OutcomeValue code)) = code"
proof (rule bit_word_eqI)
  fix n assume "n < LENGTH(32)"
  then show "bit (ucast (drop_bit 32 (OutcomeValue code)) :: i32) n = bit code n"
    by (cases "n = 31") (auto simp: OutcomeValue_def bit_simps CAPSULE_EXITED_def min_def)
qed

text \<open>Storing the outcome word publishes exactly what the runtime's two field stores publish, for
  every signed code: status \<open>EXITED\<close> in the low half and the code, sign and all, in the high half.\<close>

lemma store_OutcomeValue_eq_stop: "store_outcome (OutcomeValue code) control = bpf_capsule_stop control code"
  by (simp add: store_outcome_def bpf_capsule_stop_def ucast_OutcomeValue_low ucast_OutcomeValue_high)

section \<open>The object configuration record\<close>

definition BPF_CAPSULE_ABI_MAGIC :: u32 where "BPF_CAPSULE_ABI_MAGIC = 0x42504341"
definition BPF_CAPSULE_ABI_VERSION :: u32 where "BPF_CAPSULE_ABI_VERSION = 8"
definition BPF_CAPSULE_MEMORY_REGION_SHIFT :: nat where "BPF_CAPSULE_MEMORY_REGION_SHIFT = 22"
definition BPF_CAPSULE_MEMORY_REGION_SIZE :: u32 where
  "BPF_CAPSULE_MEMORY_REGION_SIZE = push_bit BPF_CAPSULE_MEMORY_REGION_SHIFT 1"
definition BPF_CAPSULE_MAX_DIRECT_MEMORY_REGIONS :: u32 where
  "BPF_CAPSULE_MAX_DIRECT_MEMORY_REGIONS = 63"
definition BPF_CAPSULE_ARENA_PAGE_SHIFT :: nat where "BPF_CAPSULE_ARENA_PAGE_SHIFT = 12"
definition BPF_CAPSULE_ARENA_PAGE_SIZE :: u32 where
  "BPF_CAPSULE_ARENA_PAGE_SIZE = push_bit BPF_CAPSULE_ARENA_PAGE_SHIFT 1"
definition BPF_CAPSULE_MAX_ARENA_PAGES :: u32 where
  "BPF_CAPSULE_MAX_ARENA_PAGES = push_bit (32 - BPF_CAPSULE_ARENA_PAGE_SHIFT) 1"
definition BPF_CAPSULE_MEMORY_FIXED :: u32 where "BPF_CAPSULE_MEMORY_FIXED = 0"
definition BPF_CAPSULE_MEMORY_ARENA :: u32 where "BPF_CAPSULE_MEMORY_ARENA = 1"

lemmas layout_constants =
  BPF_CAPSULE_MEMORY_REGION_SHIFT_def BPF_CAPSULE_MEMORY_REGION_SIZE_def
  BPF_CAPSULE_MAX_DIRECT_MEMORY_REGIONS_def BPF_CAPSULE_ARENA_PAGE_SHIFT_def
  BPF_CAPSULE_ARENA_PAGE_SIZE_def BPF_CAPSULE_MAX_ARENA_PAGES_def BPF_CAPSULE_MEMORY_FIXED_def
  BPF_CAPSULE_MEMORY_ARENA_def BPF_CAPSULE_ABI_MAGIC_def BPF_CAPSULE_ABI_VERSION_def

text \<open>The macro \<open>BPF_CAPSULE_ARENA_SLICE_SLACK_PAGES\<close>, in 64-bit arithmetic.\<close>

definition BPF_CAPSULE_ARENA_SLICE_SLACK_PAGES :: "u32 \<Rightarrow> u64" where
  "BPF_CAPSULE_ARENA_SLICE_SLACK_PAGES stack_bytes_per_fiber =
     (if (ucast stack_bytes_per_fiber :: u64) > ucast BPF_CAPSULE_ARENA_PAGE_SIZE
      then ucast stack_bytes_per_fiber div ucast BPF_CAPSULE_ARENA_PAGE_SIZE - 1 else 0)"

record object_config =
  cfg_heap_base :: u32
  cfg_heap_bytes :: u32
  cfg_stack_base :: u32
  cfg_memory_end :: u32
  cfg_fiber_count :: u32
  cfg_stack_bytes_per_fiber :: u32
  cfg_max_fibers :: u32
  cfg_arena_image_pages :: u32
  cfg_memory_backend :: u32
  cfg_direct_memory_regions :: u32
  cfg_abi_magic :: u32
  cfg_abi_version :: u32
  cfg_memory_view_base :: u64

section \<open>Continuation tokens\<close>

definition BPF_CAPSULE_CONTINUATION_FIBER_BITS :: nat where
  "BPF_CAPSULE_CONTINUATION_FIBER_BITS = 16"
definition BPF_CAPSULE_CONTINUATION_FIBER_MASK :: u64 where
  "BPF_CAPSULE_CONTINUATION_FIBER_MASK = push_bit BPF_CAPSULE_CONTINUATION_FIBER_BITS 1 - 1"
definition BPF_CAPSULE_CONTINUATION_GENERATION_MASK :: u64 where
  "BPF_CAPSULE_CONTINUATION_GENERATION_MASK =
     push_bit (64 - BPF_CAPSULE_CONTINUATION_FIBER_BITS) 1 - 1"

definition next_generation :: "u64 \<Rightarrow> u64" where
  "next_generation generation =
     (let g = (generation + 1) AND BPF_CAPSULE_CONTINUATION_GENERATION_MASK in if g \<noteq> 0 then g else 1)"

definition continuation_value :: "u32 \<Rightarrow> u64 \<Rightarrow> u64" where
  "continuation_value fiber generation =
     push_bit BPF_CAPSULE_CONTINUATION_FIBER_BITS generation OR ucast fiber"

text \<open>The two projections at the head of \<open>__bpf_capsule_consume_continuation\<close>.\<close>

definition continuation_fiber :: "u64 \<Rightarrow> u32" where
  "continuation_fiber continuation = ucast (continuation AND BPF_CAPSULE_CONTINUATION_FIBER_MASK)"

definition continuation_generation :: "u64 \<Rightarrow> u64" where
  "continuation_generation continuation = drop_bit BPF_CAPSULE_CONTINUATION_FIBER_BITS continuation"

lemmas continuation_consts =
  BPF_CAPSULE_CONTINUATION_FIBER_BITS_def BPF_CAPSULE_CONTINUATION_FIBER_MASK_def
  BPF_CAPSULE_CONTINUATION_GENERATION_MASK_def

text \<open>A generation fits its 48-bit field and is never zero once a fiber has been leased.\<close>

definition valid_generation :: "u64 \<Rightarrow> bool" where
  "valid_generation g \<longleftrightarrow> g \<noteq> 0 \<and> take_bit 48 g = g"

lemma generation_mask: "BPF_CAPSULE_CONTINUATION_GENERATION_MASK = mask 48"
  by (simp add: continuation_consts mask_eq_exp_minus_1)

lemma fiber_mask: "BPF_CAPSULE_CONTINUATION_FIBER_MASK = mask 16"
  by (simp add: continuation_consts mask_eq_exp_minus_1)

lemma valid_next_generation [simp, intro]: "valid_generation (next_generation g)"
  by (auto simp: valid_generation_def next_generation_def Let_def generation_mask
      simp flip: take_bit_eq_mask)

lemma take_bit_u32_small: "f < 65536 \<Longrightarrow> take_bit 16 (f :: u32) = f"
  by (simp add: take_bit_word_self word_less_nat_alt)

lemma continuation_fiber_value:
  assumes "f < 65536"
  shows "continuation_fiber (continuation_value f g) = f"
proof -
  have "continuation_fiber (continuation_value f g) = take_bit 16 f"
    by (rule bit_word_eqI)
      (auto simp: continuation_fiber_def continuation_value_def fiber_mask continuation_consts(1)
        bit_simps)
  then show ?thesis using take_bit_u32_small [OF assms] by simp
qed

lemma bit_u32_high:
  assumes "f < (65536 :: u32)" and "16 \<le> n"
  shows "\<not> bit f n"
  using assms(2) by (subst take_bit_u32_small [OF assms(1), symmetric]) (simp add: bit_take_bit_iff)

lemma continuation_generation_value:
  assumes "f < 65536"
  shows "continuation_generation (continuation_value f g) = take_bit 48 g"
  by (rule bit_word_eqI)
    (auto simp: continuation_generation_def continuation_value_def continuation_consts(1) bit_simps
      bit_u32_high [OF assms])

lemma next_generation_neq:
  assumes "valid_generation g"
  shows "next_generation g \<noteq> g"
proof
  assume eq: "next_generation g = g"
  have g: "take_bit 48 g = g" "g \<noteq> 0" using assms by (auto simp: valid_generation_def)
  have lt: "unat g < 2 ^ 48"
    using g(1) by (metis take_bit_nat_less_exp unsigned_take_bit_eq)
  have "unat (take_bit 48 (g + 1)) = (unat g + 1) mod 2 ^ 48"
    using lt by (simp add: unsigned_take_bit_eq take_bit_eq_mod unat_word_ariths)
  moreover from eq have "take_bit 48 (g + 1) = g \<or> (take_bit 48 (g + 1) = 0 \<and> g = 1)"
    by (auto simp: next_generation_def Let_def generation_mask take_bit_eq_mask split: if_splits)
  ultimately have "unat g = (unat g + 1) mod 2 ^ 48 \<or> (g = 1 \<and> (unat g + 1) mod 2 ^ 48 = 0)"
    by (metis unat_0)
  then show False
    using lt g(2) by (cases "unat g + 1 = 2 ^ 48") (auto simp: unat_eq_zero)
qed

text \<open>C6: a continuation token carries its fiber and its generation without loss, is never the
  reserved "no continuation" word, and taking the next generation always changes the token.\<close>

theorem continuation_roundtrip:
  assumes "f < ucast BPF_CAPSULE_MAX_FIBERS_LIMIT" and "valid_generation g"
  shows "continuation_fiber (continuation_value f g) = f
    \<and> continuation_generation (continuation_value f g) = g
    \<and> continuation_value f g \<noteq> BPF_CAPSULE_NO_CONTINUATION
    \<and> continuation_value f (next_generation g) \<noteq> continuation_value f g"
proof -
  have f: "f < 65535" and f': "f < 65536"
    using assms(1) by (auto simp: BPF_CAPSULE_MAX_FIBERS_LIMIT_def word_less_nat_alt)
  have roundtrip: "continuation_generation (continuation_value f h) = h"
    if "valid_generation h" for h
    using that continuation_generation_value [OF f'] by (simp add: valid_generation_def)
  have "continuation_value f g \<noteq> BPF_CAPSULE_NO_CONTINUATION"
  proof
    assume "continuation_value f g = BPF_CAPSULE_NO_CONTINUATION"
    then have "f = continuation_fiber BPF_CAPSULE_NO_CONTINUATION"
      using continuation_fiber_value [OF f'] by metis
    also have "\<dots> = 65535"
      by (simp add: continuation_fiber_def BPF_CAPSULE_NO_CONTINUATION_def fiber_mask mask_eq_exp_minus_1)
    finally show False using f by simp
  qed
  moreover have "continuation_value f (next_generation g) \<noteq> continuation_value f g"
    using roundtrip [OF assms(2)] roundtrip [OF valid_next_generation [of g]]
      next_generation_neq [OF assms(2)] by metis
  ultimately show ?thesis
    using continuation_fiber_value [OF f'] roundtrip [OF assms(2)] by simp
qed

theorem continuation_roundtrip_witness:
  "continuation_fiber (continuation_value 511 7) = 511
    \<and> continuation_generation (continuation_value 511 7) = 7"
  using continuation_roundtrip [of 511 7]
  by (simp add: BPF_CAPSULE_MAX_FIBERS_LIMIT_def valid_generation_def take_bit_word_self)

section \<open>Region IDs and function tokens\<close>

definition BPF_CAPSULE_REGION_ID_STEP_BITS :: nat where "BPF_CAPSULE_REGION_ID_STEP_BITS = 8"
definition BPF_CAPSULE_REGION_ID_STEP_MASK :: u32 where
  "BPF_CAPSULE_REGION_ID_STEP_MASK = push_bit BPF_CAPSULE_REGION_ID_STEP_BITS 1 - 1"
definition BPF_CAPSULE_REGION_ID_INDEX_MASK :: u32 where
  "BPF_CAPSULE_REGION_ID_INDEX_MASK = 0x00ffff00"
definition BPF_CAPSULE_STEP_TRIPS :: nat where "BPF_CAPSULE_STEP_TRIPS = 32"
definition BPF_CAPSULE_FUNCTION_TOKEN_DISPLACEMENT :: u64 where
  "BPF_CAPSULE_FUNCTION_TOKEN_DISPLACEMENT = push_bit 32 1"
definition BPF_CAPSULE_MANAGED_FUNCTION_TOKEN_SPAN :: u32 where
  "BPF_CAPSULE_MANAGED_FUNCTION_TOKEN_SPAN = 0x01000000"
definition BPF_CAPSULE_NATIVE_FUNCTION_TOKEN_SPAN :: u32 where
  "BPF_CAPSULE_NATIVE_FUNCTION_TOKEN_SPAN = 0x00100000"
definition BPF_CAPSULE_FUNCTION_TOKEN_SPAN :: u64 where
  "BPF_CAPSULE_FUNCTION_TOKEN_SPAN =
     ucast BPF_CAPSULE_MANAGED_FUNCTION_TOKEN_SPAN + ucast BPF_CAPSULE_NATIVE_FUNCTION_TOKEN_SPAN"
definition BPF_CAPSULE_MEMORY_WINDOW_SIZE :: u64 where
  "BPF_CAPSULE_MEMORY_WINDOW_SIZE =
     BPF_CAPSULE_FUNCTION_TOKEN_DISPLACEMENT + BPF_CAPSULE_FUNCTION_TOKEN_SPAN"

end
