(* ===== verification/Kernel_Maps.thy ===== *)
theory Kernel_Maps
  imports Capsule_Abi
begin

text \<open>
  The kernel services the runtime calls are not part of the repository, so they are a parameter of
  the model: a record of helper functions, one per map and operation the runtime uses, over the
  contents of that map. The contents of a BPF hash map are a partial function and those of a BPF
  stack map a list with the top first. What the runtime relies on is stated here as named
  predicates over such functions: the \<open>_ok\<close> predicates are the documented effect of a call by its
  return code, and the \<open>_live\<close> predicates say that a preallocated map serves every request that
  is possible.
\<close>

definition EEXIST :: int where "EEXIST = 17"
definition ENOENT :: int where "ENOENT = 2"
definition E2BIG :: int where "E2BIG = 7"
definition EAGAIN :: int where "EAGAIN = 11"
definition ENOMEM :: int where "ENOMEM = 12"
definition EFAULT :: int where "EFAULT = 14"
definition EBUSY :: int where "EBUSY = 16"
definition EINVAL :: int where "EINVAL = 22"
definition ENODATA :: int where "ENODATA = 61"
definition ENOLINK :: int where "ENOLINK = 67"
definition EPROTO :: int where "EPROTO = 71"
definition EALREADY :: int where "EALREADY = 114"
definition ECANCELED :: int where "ECANCELED = 125"
definition EOVERFLOW :: int where "EOVERFLOW = 75"

record kernel =
  k_issued_update :: "(u32 \<rightharpoonup> u32) \<Rightarrow> u32 \<Rightarrow> u32 \<Rightarrow> int \<times> (u32 \<rightharpoonup> u32)"
  k_free_pop :: "u32 list \<Rightarrow> int \<times> u32 \<times> u32 list"
  k_free_push :: "u32 list \<Rightarrow> u32 \<Rightarrow> int \<times> u32 list"
  k_lease_update :: "(u32 \<rightharpoonup> u64) \<Rightarrow> u32 \<Rightarrow> u64 \<Rightarrow> int \<times> (u32 \<rightharpoonup> u64)"
  k_lease_delete :: "(u32 \<rightharpoonup> u64) \<Rightarrow> u32 \<Rightarrow> int \<times> (u32 \<rightharpoonup> u64)"
  k_claim_update :: "(u64 \<rightharpoonup> u32) \<Rightarrow> u64 \<Rightarrow> u32 \<Rightarrow> int \<times> (u64 \<rightharpoonup> u32)"
  k_claim_delete :: "(u64 \<rightharpoonup> u32) \<Rightarrow> u64 \<Rightarrow> int \<times> (u64 \<rightharpoonup> u32)"
  k_cpu :: u32

section \<open>Documented behaviour of the helpers\<close>

text \<open>\<open>bpf_map_update_elem\<close> with \<open>BPF_NOEXIST\<close>: success inserts a key that was absent, a present
  key is refused with \<open>-EEXIST\<close>, and a failing call changes nothing.\<close>

definition noexist_ok :: "(('k \<rightharpoonup> 'v) \<Rightarrow> 'k \<Rightarrow> 'v \<Rightarrow> int \<times> ('k \<rightharpoonup> 'v)) \<Rightarrow> bool" where
  "noexist_ok upd \<longleftrightarrow> (\<forall>m k v rc m'. upd m k v = (rc, m') \<longrightarrow>
     (rc = 0 \<longrightarrow> m k = None \<and> m' = m(k \<mapsto> v)) \<and> (rc \<noteq> 0 \<longrightarrow> m' = m) \<and>
     (m k \<noteq> None \<longrightarrow> rc = - EEXIST) \<and> (m k = None \<longrightarrow> rc \<noteq> - EEXIST))"

text \<open>\<open>bpf_map_delete_elem\<close>: success removes a present key, an absent key is refused.\<close>

definition delete_ok :: "(('k \<rightharpoonup> 'v) \<Rightarrow> 'k \<Rightarrow> int \<times> ('k \<rightharpoonup> 'v)) \<Rightarrow> bool" where
  "delete_ok del \<longleftrightarrow> (\<forall>m k rc m'. del m k = (rc, m') \<longrightarrow>
     (rc = 0 \<longrightarrow> m k \<noteq> None \<and> m' = m(k := None)) \<and> (rc \<noteq> 0 \<longrightarrow> m' = m) \<and>
     (m k = None \<longrightarrow> rc = - ENOENT))"

text \<open>\<open>bpf_map_pop_elem\<close> and \<open>bpf_map_push_elem\<close> on a stack map.\<close>

definition pop_ok :: "(u32 list \<Rightarrow> int \<times> u32 \<times> u32 list) \<Rightarrow> bool" where
  "pop_ok pop \<longleftrightarrow> (\<forall>xs rc x xs'. pop xs = (rc, x, xs') \<longrightarrow>
     (rc = 0 \<longrightarrow> xs = x # xs') \<and> (rc \<noteq> 0 \<longrightarrow> xs' = xs))"

definition push_ok :: "(u32 list \<Rightarrow> u32 \<Rightarrow> int \<times> u32 list) \<Rightarrow> bool" where
  "push_ok push \<longleftrightarrow> (\<forall>xs x rc xs'. push xs x = (rc, xs') \<longrightarrow>
     (rc = 0 \<longrightarrow> xs' = x # xs) \<and> (rc \<noteq> 0 \<longrightarrow> xs' = xs))"

definition kernel_ok :: "kernel \<Rightarrow> bool" where
  "kernel_ok K \<longleftrightarrow> noexist_ok (k_issued_update K) \<and> pop_ok (k_free_pop K) \<and>
     push_ok (k_free_push K) \<and> noexist_ok (k_lease_update K) \<and> delete_ok (k_lease_delete K) \<and>
     noexist_ok (k_claim_update K) \<and> delete_ok (k_claim_delete K)"

text \<open>A preallocated map with room for \<open>n\<close> entries serves every insertion of an absent key while it
  holds fewer than \<open>n\<close>, and every removal of a present key.\<close>

definition noexist_live :: "nat \<Rightarrow> (('k \<rightharpoonup> 'v) \<Rightarrow> 'k \<Rightarrow> 'v \<Rightarrow> int \<times> ('k \<rightharpoonup> 'v)) \<Rightarrow> bool" where
  "noexist_live n upd \<longleftrightarrow> (\<forall>m k v. m k = None \<longrightarrow> finite (dom m) \<longrightarrow> card (dom m) < n \<longrightarrow>
     fst (upd m k v) = 0)"

definition delete_live :: "(('k \<rightharpoonup> 'v) \<Rightarrow> 'k \<Rightarrow> int \<times> ('k \<rightharpoonup> 'v)) \<Rightarrow> bool" where
  "delete_live del \<longleftrightarrow> (\<forall>m k. m k \<noteq> None \<longrightarrow> fst (del m k) = 0)"

definition pop_live :: "(u32 list \<Rightarrow> int \<times> u32 \<times> u32 list) \<Rightarrow> bool" where
  "pop_live pop \<longleftrightarrow> (\<forall>xs. xs \<noteq> [] \<longrightarrow> fst (pop xs) = 0)"

definition push_live :: "nat \<Rightarrow> (u32 list \<Rightarrow> u32 \<Rightarrow> int \<times> u32 list) \<Rightarrow> bool" where
  "push_live n push \<longleftrightarrow> (\<forall>xs x. length xs < n \<longrightarrow> fst (push xs x) = 0)"

definition kernel_live :: "nat \<Rightarrow> kernel \<Rightarrow> bool" where
  "kernel_live n K \<longleftrightarrow> noexist_live n (k_issued_update K) \<and> pop_live (k_free_pop K) \<and>
     push_live n (k_free_push K) \<and> noexist_live n (k_lease_update K) \<and>
     delete_live (k_lease_delete K) \<and> noexist_live n (k_claim_update K) \<and>
     delete_live (k_claim_delete K)"

lemma noexist_okD:
  assumes "noexist_ok upd" and "upd m k v = (rc, m')"
  shows "rc = 0 \<Longrightarrow> m k = None" and "rc = 0 \<Longrightarrow> m' = m(k \<mapsto> v)" and "rc \<noteq> 0 \<Longrightarrow> m' = m"
    and "m k \<noteq> None \<Longrightarrow> rc = - EEXIST" and "m k = None \<Longrightarrow> rc \<noteq> - EEXIST"
  using assms unfolding noexist_ok_def by metis+

lemma delete_okD:
  assumes "delete_ok del" and "del m k = (rc, m')"
  shows "rc = 0 \<Longrightarrow> m k \<noteq> None" and "rc = 0 \<Longrightarrow> m' = m(k := None)" and "rc \<noteq> 0 \<Longrightarrow> m' = m"
    and "m k = None \<Longrightarrow> rc = - ENOENT"
  using assms unfolding delete_ok_def by metis+

lemma pop_okD:
  assumes "pop_ok pop" and "pop xs = (rc, x, xs')"
  shows "rc = 0 \<Longrightarrow> xs = x # xs'" and "rc \<noteq> 0 \<Longrightarrow> xs' = xs"
  using assms unfolding pop_ok_def by metis+

lemma push_okD:
  assumes "push_ok push" and "push xs x = (rc, xs')"
  shows "rc = 0 \<Longrightarrow> xs' = x # xs" and "rc \<noteq> 0 \<Longrightarrow> xs' = xs"
  using assms unfolding push_ok_def by metis+

lemma kernel_okD:
  assumes "kernel_ok K"
  shows "noexist_ok (k_issued_update K)" "pop_ok (k_free_pop K)" "push_ok (k_free_push K)"
    "noexist_ok (k_lease_update K)" "delete_ok (k_lease_delete K)"
    "noexist_ok (k_claim_update K)" "delete_ok (k_claim_delete K)"
  using assms by (auto simp: kernel_ok_def)

section \<open>An instance\<close>

text \<open>Maps that never run out of room and a stack map with \<open>n\<close> slots satisfy both groups.\<close>

definition plain_noexist :: "('k \<rightharpoonup> 'v) \<Rightarrow> 'k \<Rightarrow> 'v \<Rightarrow> int \<times> ('k \<rightharpoonup> 'v)" where
  "plain_noexist m k v = (case m k of None \<Rightarrow> (0, m(k \<mapsto> v)) | Some _ \<Rightarrow> (- EEXIST, m))"

definition plain_delete :: "('k \<rightharpoonup> 'v) \<Rightarrow> 'k \<Rightarrow> int \<times> ('k \<rightharpoonup> 'v)" where
  "plain_delete m k = (case m k of None \<Rightarrow> (- ENOENT, m) | Some _ \<Rightarrow> (0, m(k := None)))"

definition plain_pop :: "u32 list \<Rightarrow> int \<times> u32 \<times> u32 list" where
  "plain_pop xs = (case xs of [] \<Rightarrow> (- ENOENT, 0, []) | x # xs' \<Rightarrow> (0, x, xs'))"

definition plain_push :: "nat \<Rightarrow> u32 list \<Rightarrow> u32 \<Rightarrow> int \<times> u32 list" where
  "plain_push n xs x = (if length xs < n then (0, x # xs) else (- E2BIG, xs))"

definition plain_kernel :: "nat \<Rightarrow> u32 \<Rightarrow> kernel" where
  "plain_kernel n cpu = \<lparr>k_issued_update = plain_noexist, k_free_pop = plain_pop,
     k_free_push = plain_push n, k_lease_update = plain_noexist, k_lease_delete = plain_delete,
     k_claim_update = plain_noexist, k_claim_delete = plain_delete, k_cpu = cpu\<rparr>"

lemmas plain_kernel_defs =
  plain_kernel_def plain_noexist_def plain_delete_def plain_pop_def plain_push_def
  EEXIST_def ENOENT_def E2BIG_def

lemma plain_noexist_ok: "noexist_ok plain_noexist"
  by (auto simp: noexist_ok_def plain_noexist_def EEXIST_def split: option.splits)

lemma plain_delete_ok: "delete_ok plain_delete"
  by (auto simp: delete_ok_def plain_delete_def ENOENT_def split: option.splits)

lemma plain_pop_ok: "pop_ok plain_pop"
  by (auto simp: pop_ok_def plain_pop_def ENOENT_def split: list.splits)

lemma plain_push_ok: "push_ok (plain_push n)"
  by (simp add: push_ok_def plain_push_def E2BIG_def)

lemma plain_kernel_ok [simp]: "kernel_ok (plain_kernel n cpu)"
  by (simp add: plain_kernel_def kernel_ok_def plain_noexist_ok plain_delete_ok plain_pop_ok
      plain_push_ok)

lemma plain_kernel_live [simp]: "kernel_live n (plain_kernel n cpu)"
  by (simp add: plain_kernel_defs kernel_live_def noexist_live_def delete_live_def pop_live_def
      push_live_def split: option.split list.split)

end
