(* ===== verification/Byte_Memory.thy ===== *)
theory Byte_Memory
  imports Capsule_Prelude
begin

text \<open>
  Byte-addressed memory as the generated code and the host see it: a total function from addresses
  to bytes with little-endian loads and stores of up to eight bytes, as LLVM loads and stores of
  integer types behave on BPF, and the read-over-write laws that the memory components use.
\<close>

type_synonym bytes = "nat \<Rightarrow> u8"

primrec load_le :: "bytes \<Rightarrow> nat \<Rightarrow> nat \<Rightarrow> u64" where
  "load_le m a 0 = 0"
| "load_le m a (Suc n) = ucast (m a) OR push_bit 8 (load_le m (Suc a) n)"

definition store_le :: "bytes \<Rightarrow> nat \<Rightarrow> nat \<Rightarrow> u64 \<Rightarrow> bytes" where
  "store_le m a n v = (\<lambda>x. if a \<le> x \<and> x < a + n then ucast (drop_bit (8 * (x - a)) v) else m x)"

lemma bit_load_le:
  "bit (load_le m a n) k \<longleftrightarrow> k < 64 \<and> k < 8 * n \<and> bit (m (a + k div 8)) (k mod 8)"
proof (induction n arbitrary: a k)
  case (Suc n)
  show ?case
  proof (cases "k < 8")
    case True
    then show ?thesis by (auto simp: bit_simps)
  next
    case False
    then have "a + k div 8 = Suc a + (k - 8) div 8" "k mod 8 = (k - 8) mod 8"
      by (simp_all add: le_div_geq le_mod_geq)
    moreover have "bit (load_le m a (Suc n)) k \<longleftrightarrow> k < 64 \<and> bit (load_le m (Suc a) n) (k - 8)"
      using False by (auto simp: bit_simps dest: bit_imp_le_length)
    ultimately show ?thesis using False Suc.IH [of "Suc a" "k - 8"] by auto
  qed
qed simp

lemma load_store_same:
  assumes "n \<le> 8"
  shows "load_le (store_le m a n v) a n = take_bit (8 * n) v"
proof (rule bit_word_eqI)
  fix k assume k: "k < LENGTH(64)"
  have "k div 8 < n" if "k < 8 * n" using that by (simp add: less_mult_imp_div_less mult.commute)
  then show "bit (load_le (store_le m a n v) a n) k = bit (take_bit (8 * n) v) k"
    using k by (auto simp: bit_load_le store_le_def bit_simps)
qed

lemma load_le_cong:
  assumes "\<And>i. i < n \<Longrightarrow> m (a + i) = m' (a' + i)"
  shows "load_le m a n = load_le m' a' n"
  using assms
proof (induction n arbitrary: a a')
  case (Suc n)
  have "m a = m' a'" using Suc.prems [of 0] by simp
  moreover have "load_le m (Suc a) n = load_le m' (Suc a') n"
    by (rule Suc.IH) (use Suc.prems [of "Suc i" for i] in simp)
  ultimately show ?case by simp
qed simp

lemma load_store_other:
  assumes "a + n \<le> b \<or> b + k \<le> a"
  shows "load_le (store_le m b k v) a n = load_le m a n"
  by (rule load_le_cong) (use assms in \<open>auto simp: store_le_def\<close>)

lemma store_le_other: "x < a \<or> a + n \<le> x \<Longrightarrow> store_le m a n v x = m x"
  by (auto simp: store_le_def)

lemma load_le_take_bit: "n \<le> 8 \<Longrightarrow> take_bit (8 * n) (load_le m a n) = load_le m a n"
  by (rule bit_word_eqI) (auto simp: bit_simps bit_load_le)

lemma byte_of_load:
  assumes "j < n" and "n \<le> 8"
  shows "(ucast (drop_bit (8 * j) (load_le m a n)) :: u8) = m (a + j)"
proof (rule bit_word_eqI)
  fix k assume k: "k < LENGTH(8)"
  have "8 * j + k < 8 * n" "8 * j + k < 64" using assms k by auto
  moreover have "(8 * j + k) div 8 = j" "(8 * j + k) mod 8 = k" using k by simp_all
  ultimately show "bit (ucast (drop_bit (8 * j) (load_le m a n)) :: u8) k = bit (m (a + j)) k"
    using k by (simp add: bit_simps bit_load_le)
qed

lemma store_of_load:
  "n \<le> 8 \<Longrightarrow> store_le m a n (load_le m' b n) = (\<lambda>x. if a \<le> x \<and> x < a + n then m' (b + (x - a)) else m x)"
  by (auto simp: store_le_def fun_eq_iff byte_of_load)

lemma store_load_same: "n \<le> 8 \<Longrightarrow> store_le m a n (load_le m a n) = m"
  by (auto simp: store_of_load fun_eq_iff)

section \<open>Copies\<close>

text \<open>Memory with so many bytes copied, all read before any is written.\<close>

definition mem_copied :: "nat \<Rightarrow> nat \<Rightarrow> nat \<Rightarrow> bytes \<Rightarrow> bytes" where
  "mem_copied dst src n m = (\<lambda>x. if dst \<le> x \<and> x < dst + n then m (src + (x - dst)) else m x)"

text \<open>Copying the next \<open>n\<close> bytes after the first \<open>k\<close>, upwards.\<close>

lemma copy_up_step:
  assumes "n \<le> 8" and "dst \<le> src \<or> src + (k + n) \<le> dst"
  shows "store_le (mem_copied dst src k m) (dst + k) n (load_le (mem_copied dst src k m) (src + k) n)
    = mem_copied dst src (k + n) m"
  using assms by (auto simp: store_of_load mem_copied_def fun_eq_iff)

end
