(* ===== verification/Guest_Heap.thy ===== *)
theory Guest_Heap
  imports Kernel_Maps Byte_Memory
begin

text \<open>
  The guest's allocator, \<open>platform/allocator.c\<close>: the lock of both atomics tiers, the four operations that run
  under it without suspending, and the C library functions that retry them. The TLSF allocator underneath is not part
  of the sources; it is a parameter that works on the bytes of the heap, and what the code relies on is stated in
  \<open>tlsf_ok\<close>. The heap's safety is shown for any interleaving of fibers.
\<close>

section \<open>The allocator's environment\<close>

text \<open>TLSF keeps its state in the pool, so its functions read and change the memory. A null pointer is 0.\<close>

record tlsf =
  tlsf_size :: u64
  tlsf_pool_overhead :: u64
  tlsf_block_size_min :: u64
  tlsf_block_size_max :: u64
  tlsf_create_with_pool :: "bytes \<Rightarrow> u64 \<Rightarrow> u64 \<Rightarrow> u64 \<times> bytes"
  tlsf_malloc :: "bytes \<Rightarrow> u64 \<Rightarrow> u64 \<Rightarrow> u64 \<times> bytes"
  tlsf_free :: "bytes \<Rightarrow> u64 \<Rightarrow> u64 \<Rightarrow> bytes"
  tlsf_block_size :: "bytes \<Rightarrow> u64 \<Rightarrow> u64"
  tlsf_memalign :: "bytes \<Rightarrow> u64 \<Rightarrow> u64 \<Rightarrow> u64 \<Rightarrow> u64 \<times> bytes"

text \<open>The build's tier, the two helpers of the lease map, the extent of the heap, and TLSF.\<close>

record heap_build =
  FULL_ATOMICS :: bool
  allocator_lease_update :: "(u32 \<rightharpoonup> u32) \<Rightarrow> u32 \<Rightarrow> u32 \<Rightarrow> int \<times> (u32 \<rightharpoonup> u32)"
  allocator_lease_delete :: "(u32 \<rightharpoonup> u32) \<Rightarrow> u32 \<Rightarrow> int \<times> (u32 \<rightharpoonup> u32)"
  capsule_heap_start :: u64
  capsule_heap_size :: u64
  heap_tlsf :: tlsf

record heap_world =
  fs_tlsf :: u64
  fs_allocator_lock_word :: u32
  fs_allocator_lease :: "u32 \<rightharpoonup> u32"
  heap_memory :: bytes

definition FS_ALLOCATOR_BUSY :: u64 where "FS_ALLOCATOR_BUSY = NOT 0"
definition FS_ALLOCATOR_ERROR :: u64 where "FS_ALLOCATOR_ERROR = NOT 1"

section \<open>The lock\<close>

definition fs_try_lock :: "heap_build \<Rightarrow> heap_world \<Rightarrow> bool \<times> heap_world" where
  "fs_try_lock E w =
     (if FULL_ATOMICS E then
        (if fs_allocator_lock_word w = 0 then (True, w\<lparr>fs_allocator_lock_word := 1\<rparr>) else (False, w))
      else let (rc, lease) = allocator_lease_update E (fs_allocator_lease w) 0 1
           in (rc = 0, w\<lparr>fs_allocator_lease := lease\<rparr>))"

definition fs_unlock :: "heap_build \<Rightarrow> heap_world \<Rightarrow> bool \<times> heap_world" where
  "fs_unlock E w =
     (if FULL_ATOMICS E then (fs_allocator_lock_word w = 1, w\<lparr>fs_allocator_lock_word := 0\<rparr>)
      else let (rc, lease) = allocator_lease_delete E (fs_allocator_lease w) 0
           in (rc = 0, w\<lparr>fs_allocator_lease := lease\<rparr>))"

section \<open>The operations under the lock\<close>

definition fs_setup :: "heap_build \<Rightarrow> heap_world \<Rightarrow> bool \<times> heap_world" where
  "fs_setup E w =
     (let T = heap_tlsf E; minimum = tlsf_size T + tlsf_pool_overhead T + tlsf_block_size_min T
      in if capsule_heap_size E < minimum then (False, w)
         else let (t, memory) = tlsf_create_with_pool T (heap_memory w) (capsule_heap_start E) (capsule_heap_size E)
              in (t \<noteq> 0, w\<lparr>fs_tlsf := t, heap_memory := memory\<rparr>))"

definition unlock_with :: "heap_build \<Rightarrow> u64 \<Rightarrow> heap_world \<Rightarrow> u64 \<times> heap_world" where
  "unlock_with E result w = (let (ok, w) = fs_unlock E w in (if ok then result else FS_ALLOCATOR_ERROR, w))"

definition bpf_allocator_malloc :: "heap_build \<Rightarrow> u64 \<Rightarrow> heap_world \<Rightarrow> u64 \<times> heap_world" where
  "bpf_allocator_malloc E n w =
     (let (locked, w) = fs_try_lock E w
      in if \<not> locked then (FS_ALLOCATOR_BUSY, w)
         else let (have_pool, w) = (if fs_tlsf w \<noteq> 0 then (True, w) else fs_setup E w)
              in if \<not> have_pool then unlock_with E 0 w
                 else let (result, memory) = tlsf_malloc (heap_tlsf E) (heap_memory w) (fs_tlsf w) n
                      in unlock_with E result (w\<lparr>heap_memory := memory\<rparr>))"

definition bpf_allocator_free :: "heap_build \<Rightarrow> u64 \<Rightarrow> heap_world \<Rightarrow> u64 \<times> heap_world" where
  "bpf_allocator_free E address w =
     (let (locked, w) = fs_try_lock E w
      in if \<not> locked then (FS_ALLOCATOR_BUSY, w)
         else unlock_with E 0
           (if fs_tlsf w \<noteq> 0 then w\<lparr>heap_memory := tlsf_free (heap_tlsf E) (heap_memory w) (fs_tlsf w) address\<rparr> else w))"

definition bpf_allocator_size :: "heap_build \<Rightarrow> u64 \<Rightarrow> heap_world \<Rightarrow> u64 \<times> heap_world" where
  "bpf_allocator_size E address w =
     (let (locked, w) = fs_try_lock E w
      in if \<not> locked then (FS_ALLOCATOR_BUSY, w)
         else unlock_with E (if fs_tlsf w \<noteq> 0 then tlsf_block_size (heap_tlsf E) (heap_memory w) address else 0) w)"

definition bpf_allocator_memalign :: "heap_build \<Rightarrow> u64 \<Rightarrow> u64 \<Rightarrow> heap_world \<Rightarrow> u64 \<times> heap_world" where
  "bpf_allocator_memalign E align n w =
     (let (locked, w) = fs_try_lock E w
      in if \<not> locked then (FS_ALLOCATOR_BUSY, w)
         else let (have_pool, w) = (if fs_tlsf w \<noteq> 0 then (True, w) else fs_setup E w)
              in if \<not> have_pool then unlock_with E 0 w
                 else let (result, memory) = tlsf_memalign (heap_tlsf E) (heap_memory w) (fs_tlsf w) align n
                      in unlock_with E result (w\<lparr>heap_memory := memory\<rparr>))"

section \<open>The library functions\<close>

text \<open>A function of the library runs for a fiber: it has the fiber's \<open>errno\<close>, and between its attempts at the lock
  other fibers run, which \<open>env\<close> gives by the number of the attempt. It may wait forever, end the capsule or return.\<close>

datatype 'a guest = Returns 'a | Exits i32

record heap_run =
  attempts :: nat
  errno :: int
  heap :: heap_world

type_synonym interference = "nat \<Rightarrow> heap_world \<Rightarrow> heap_world"

partial_function (option) retry :: "interference \<Rightarrow> (heap_world \<Rightarrow> u64 \<times> heap_world) \<Rightarrow> heap_run \<Rightarrow> (u64 \<times> heap_run) option" where
  "retry env call r =
     (let (result, w) = call (env (attempts r) (heap r)); r = r\<lparr>attempts := Suc (attempts r), heap := w\<rparr>
      in if result = FS_ALLOCATOR_BUSY then retry env call r else Some (result, r))"

definition completed ::
  "interference \<Rightarrow> (heap_world \<Rightarrow> u64 \<times> heap_world) \<Rightarrow> heap_run \<Rightarrow> (u64 guest \<times> heap_run) option" where
  "completed env call r =
     (case retry env call r of
        None \<Rightarrow> None
      | Some (result, r) \<Rightarrow>
          Some (if result = FS_ALLOCATOR_ERROR then Exits CAPSULE_ERROR_ALLOCATOR_CORRUPT else Returns result, r))"

definition on_return ::
  "('a guest \<times> heap_run) option \<Rightarrow> ('a \<Rightarrow> heap_run \<Rightarrow> ('b guest \<times> heap_run) option) \<Rightarrow> ('b guest \<times> heap_run) option" where
  "on_return c f =
     (case c of None \<Rightarrow> None | Some (Exits code, r) \<Rightarrow> Some (Exits code, r) | Some (Returns x, r) \<Rightarrow> f x r)"

definition malloc :: "heap_build \<Rightarrow> interference \<Rightarrow> u64 \<Rightarrow> heap_run \<Rightarrow> (u64 guest \<times> heap_run) option" where
  "malloc E env n r =
     on_return (completed env (bpf_allocator_malloc E n) r) (\<lambda>result r.
       Some (Returns result, if result = 0 then r\<lparr>errno := ENOMEM\<rparr> else r))"

definition free :: "heap_build \<Rightarrow> interference \<Rightarrow> u64 \<Rightarrow> heap_run \<Rightarrow> (unit guest \<times> heap_run) option" where
  "free E env p r =
     (if p = 0 then Some (Returns (), r)
      else on_return (completed env (bpf_allocator_free E p) r) (\<lambda>_ r. Some (Returns (), r)))"

definition fill_bytes :: "bytes \<Rightarrow> u64 \<Rightarrow> u8 \<Rightarrow> nat \<Rightarrow> bytes" where
  "fill_bytes m p v n = (\<lambda>a. if unat p \<le> a \<and> a < unat p + n then v else m a)"

definition copy_bytes :: "bytes \<Rightarrow> u64 \<Rightarrow> u64 \<Rightarrow> nat \<Rightarrow> bytes" where
  "copy_bytes m d s n = (\<lambda>a. if unat d \<le> a \<and> a < unat d + n then m (unat s + (a - unat d)) else m a)"

definition set_heap :: "bytes \<Rightarrow> heap_run \<Rightarrow> heap_run" where
  "set_heap m r = r\<lparr>heap := (heap r)\<lparr>heap_memory := m\<rparr>\<rparr>"

definition calloc :: "heap_build \<Rightarrow> interference \<Rightarrow> u64 \<Rightarrow> u64 \<Rightarrow> heap_run \<Rightarrow> (u64 guest \<times> heap_run) option" where
  "calloc E env n sz r =
     (if sz \<noteq> 0 \<and> n > (-1) div sz then Some (Returns 0, r\<lparr>errno := ENOMEM\<rparr>)
      else on_return (malloc E env (n * sz) r) (\<lambda>p r.
             Some (Returns p, if p \<noteq> 0 then set_heap (fill_bytes (heap_memory (heap r)) p 0 (unat (n * sz))) r else r)))"

definition malloc_usable_size :: "heap_build \<Rightarrow> interference \<Rightarrow> u64 \<Rightarrow> heap_run \<Rightarrow> (u64 guest \<times> heap_run) option" where
  "malloc_usable_size E env p r = (if p = 0 then Some (Returns 0, r) else completed env (bpf_allocator_size E p) r)"

definition realloc :: "heap_build \<Rightarrow> interference \<Rightarrow> u64 \<Rightarrow> u64 \<Rightarrow> heap_run \<Rightarrow> (u64 guest \<times> heap_run) option" where
  "realloc E env p n r =
     (if p = 0 then malloc E env n r
      else if n = 0 then on_return (free E env p r) (\<lambda>_ r. Some (Returns 0, r))
      else on_return (malloc_usable_size E env p r) (\<lambda>old_size r.
             if old_size \<ge> n then Some (Returns p, r)
             else on_return (malloc E env n r) (\<lambda>replacement r.
                    if replacement = 0 then Some (Returns 0, r)
                    else on_return (free E env p (set_heap (copy_bytes (heap_memory (heap r)) replacement p (unat old_size)) r)) (\<lambda>_ r.
                           Some (Returns replacement, r)))))"

definition memalign :: "heap_build \<Rightarrow> interference \<Rightarrow> u64 \<Rightarrow> u64 \<Rightarrow> heap_run \<Rightarrow> (u64 guest \<times> heap_run) option" where
  "memalign E env align n r =
     (if align = 0 \<or> align AND (align - 1) \<noteq> 0 then Some (Returns 0, r\<lparr>errno := EINVAL\<rparr>)
      else if align > tlsf_block_size_max (heap_tlsf E) then Some (Returns 0, r\<lparr>errno := ENOMEM\<rparr>)
      else on_return (completed env (bpf_allocator_memalign E align n) r) (\<lambda>result r.
             Some (Returns result, if result = 0 then r\<lparr>errno := ENOMEM\<rparr> else r)))"

definition aligned_alloc :: "heap_build \<Rightarrow> interference \<Rightarrow> u64 \<Rightarrow> u64 \<Rightarrow> heap_run \<Rightarrow> (u64 guest \<times> heap_run) option" where
  "aligned_alloc E env align n r =
     (if align = 0 \<or> n mod align \<noteq> 0 then Some (Returns 0, r\<lparr>errno := EINVAL\<rparr>) else memalign E env align n r)"

text \<open>\<open>posix_memalign\<close> returns its error code and the allocation it stores through its first argument, if any.\<close>

definition posix_memalign :: "heap_build \<Rightarrow> interference \<Rightarrow> u64 \<Rightarrow> u64 \<Rightarrow> heap_run \<Rightarrow> ((int \<times> u64 option) guest \<times> heap_run) option" where
  "posix_memalign E env align n r =
     (if align = 0 \<or> align AND (align - 1) \<noteq> 0 \<or> align mod 8 \<noteq> 0 then Some (Returns (EINVAL, None), r)
      else on_return (memalign E env align n r) (\<lambda>allocation r'.
             let error = (if allocation \<noteq> 0 then 0 else if errno r' = EINVAL then EINVAL else ENOMEM)
             in Some (Returns (error, if error = 0 then Some allocation else None), r'\<lparr>errno := errno r\<rparr>)))"

section \<open>What the code relies on\<close>

definition payload :: "bytes \<Rightarrow> u64 \<Rightarrow> nat \<Rightarrow> u8 list" where
  "payload m p s = map (\<lambda>i. m (unat p + i)) [0..<s]"

definition block_span :: "u64 \<Rightarrow> nat \<Rightarrow> nat set" where
  "block_span p s = {unat p..<unat p + s}"

text \<open>The blocks in use lie in the heap, are not empty and do not overlap.\<close>

definition blocks_ok :: "heap_build \<Rightarrow> (u64 \<rightharpoonup> nat) \<Rightarrow> bool" where
  "blocks_ok E b \<longleftrightarrow>
     (\<forall>p s. b p = Some s \<longrightarrow> p \<noteq> 0 \<and> 0 < s \<and> unat (capsule_heap_start E) \<le> unat p \<and>
        unat p + s \<le> unat (capsule_heap_start E) + unat (capsule_heap_size E)) \<and>
     (\<forall>p q s t. b p = Some s \<longrightarrow> b q = Some t \<longrightarrow> p \<noteq> q \<longrightarrow> block_span p s \<inter> block_span q t = {})"

text \<open>A change of memory that keeps the bytes of every block in use before and after.\<close>

definition keeps_payload :: "(u64 \<rightharpoonup> nat) \<Rightarrow> (u64 \<rightharpoonup> nat) \<Rightarrow> bytes \<Rightarrow> bytes \<Rightarrow> bool" where
  "keeps_payload b b' m m' \<longleftrightarrow> (\<forall>p s. b p = Some s \<longrightarrow> b' p = Some s \<longrightarrow> payload m' p s = payload m p s)"

definition allocates :: "(u64 \<rightharpoonup> nat) \<Rightarrow> (u64 \<rightharpoonup> nat) \<Rightarrow> u64 \<Rightarrow> u64 \<Rightarrow> bool" where
  "allocates b b' n p \<longleftrightarrow> (if p = 0 then b' = b else b p = None \<and> (\<exists>s \<ge> unat n. b' = b(p \<mapsto> s)))"

text \<open>The documented behaviour of TLSF, in terms of the blocks in use, \<open>B\<close>, of a memory on which the control
  structure at \<open>t\<close> is well formed, \<open>R\<close>. Writing into blocks in use does not disturb it.\<close>

type_synonym tlsf_view = "(bytes \<Rightarrow> u64 \<Rightarrow> bool) \<times> (bytes \<Rightarrow> u64 \<rightharpoonup> nat)"

definition tlsf_creates :: "heap_build \<Rightarrow> tlsf_view \<Rightarrow> bool" where
  "tlsf_creates E = (\<lambda>(R, B). \<forall>m t m'.
     tlsf_create_with_pool (heap_tlsf E) m (capsule_heap_start E) (capsule_heap_size E) = (t, m') \<longrightarrow> t \<noteq> 0 \<longrightarrow>
       R m' t \<and> B m' = Map.empty)"

definition tlsf_mallocs :: "heap_build \<Rightarrow> tlsf_view \<Rightarrow> bool" where
  "tlsf_mallocs E = (\<lambda>(R, B). \<forall>m t n p m'. R m t \<longrightarrow> tlsf_malloc (heap_tlsf E) m t n = (p, m') \<longrightarrow>
     R m' t \<and> allocates (B m) (B m') n p \<and> keeps_payload (B m) (B m') m m')"

definition tlsf_frees :: "heap_build \<Rightarrow> tlsf_view \<Rightarrow> bool" where
  "tlsf_frees E = (\<lambda>(R, B). \<forall>m t p m'. R m t \<longrightarrow> B m p \<noteq> None \<longrightarrow> tlsf_free (heap_tlsf E) m t p = m' \<longrightarrow>
     R m' t \<and> B m' = (B m)(p := None) \<and> keeps_payload (B m) (B m') m m')"

definition tlsf_sizes :: "heap_build \<Rightarrow> tlsf_view \<Rightarrow> bool" where
  "tlsf_sizes E = (\<lambda>(R, B). \<forall>m t p s. R m t \<longrightarrow> B m p = Some s \<longrightarrow> tlsf_block_size (heap_tlsf E) m p = of_nat s)"

definition tlsf_memaligns :: "heap_build \<Rightarrow> tlsf_view \<Rightarrow> bool" where
  "tlsf_memaligns E = (\<lambda>(R, B). \<forall>m t a n p m'.
     R m t \<longrightarrow> a \<noteq> 0 \<longrightarrow> a AND (a - 1) = 0 \<longrightarrow> tlsf_memalign (heap_tlsf E) m t a n = (p, m') \<longrightarrow>
       R m' t \<and> allocates (B m) (B m') n p \<and> p mod a = 0 \<and> keeps_payload (B m) (B m') m m')"

definition outside_blocks :: "(u64 \<rightharpoonup> nat) \<Rightarrow> bytes \<Rightarrow> bytes \<Rightarrow> bool" where
  "outside_blocks b m m' \<longleftrightarrow> (\<forall>x. (\<forall>p s. b p = Some s \<longrightarrow> x \<notin> block_span p s) \<longrightarrow> m' x = m x)"

definition tlsf_undisturbed :: "tlsf_view \<Rightarrow> bool" where
  "tlsf_undisturbed = (\<lambda>(R, B). \<forall>m t m'. R m t \<longrightarrow> outside_blocks (B m) m m' \<longrightarrow> R m' t \<and> B m' = B m)"

definition tlsf_ok :: "heap_build \<Rightarrow> tlsf_view \<Rightarrow> bool" where
  "tlsf_ok E V \<longleftrightarrow> (\<forall>m t. fst V m t \<longrightarrow> blocks_ok E (snd V m)) \<and> tlsf_creates E V \<and> tlsf_mallocs E V \<and> tlsf_frees E V \<and>
     tlsf_sizes E V \<and> tlsf_memaligns E V \<and> tlsf_undisturbed V"

text \<open>The two helpers of the lease map, on the tier that uses them, and a heap that does not reach the two sentinel
  values.\<close>

definition heap_build_ok :: "heap_build \<Rightarrow> bool" where
  "heap_build_ok E \<longleftrightarrow>
     (\<not> FULL_ATOMICS E \<longrightarrow> noexist_ok (allocator_lease_update E) \<and> delete_ok (allocator_lease_delete E) \<and>
        delete_live (allocator_lease_delete E)) \<and>
     unat (capsule_heap_start E) + unat (capsule_heap_size E) \<le> 2 ^ 64 - 2"

lemma tlsf_okD:
  assumes "tlsf_ok E (R, B)"
  shows "R m t \<Longrightarrow> blocks_ok E (B m)"
    "tlsf_create_with_pool (heap_tlsf E) m (capsule_heap_start E) (capsule_heap_size E) = (t, m') \<Longrightarrow> t \<noteq> 0 \<Longrightarrow>
       R m' t \<and> B m' = Map.empty"
    "R m t \<Longrightarrow> tlsf_malloc (heap_tlsf E) m t n = (p, m') \<Longrightarrow>
       R m' t \<and> allocates (B m) (B m') n p \<and> keeps_payload (B m) (B m') m m'"
    "R m t \<Longrightarrow> B m p \<noteq> None \<Longrightarrow> tlsf_free (heap_tlsf E) m t p = m' \<Longrightarrow>
       R m' t \<and> B m' = (B m)(p := None) \<and> keeps_payload (B m) (B m') m m'"
    "R m t \<Longrightarrow> B m p = Some s \<Longrightarrow> tlsf_block_size (heap_tlsf E) m p = of_nat s"
    "R m t \<Longrightarrow> a \<noteq> 0 \<Longrightarrow> a AND (a - 1) = 0 \<Longrightarrow> tlsf_memalign (heap_tlsf E) m t a n = (p, m') \<Longrightarrow>
       R m' t \<and> allocates (B m) (B m') n p \<and> p mod a = 0 \<and> keeps_payload (B m) (B m') m m'"
    "R m t \<Longrightarrow> outside_blocks (B m) m m' \<Longrightarrow> R m' t \<and> B m' = B m"
proof -
  note ok = assms [unfolded tlsf_ok_def fst_conv snd_conv]
  show "R m t \<Longrightarrow> blocks_ok E (B m)" using ok by blast
  show "tlsf_create_with_pool (heap_tlsf E) m (capsule_heap_start E) (capsule_heap_size E) = (t, m') \<Longrightarrow> t \<noteq> 0 \<Longrightarrow>
       R m' t \<and> B m' = Map.empty"
    using ok unfolding tlsf_creates_def by blast
  show "R m t \<Longrightarrow> tlsf_malloc (heap_tlsf E) m t n = (p, m') \<Longrightarrow>
       R m' t \<and> allocates (B m) (B m') n p \<and> keeps_payload (B m) (B m') m m'"
    using ok unfolding tlsf_mallocs_def by blast
  show "R m t \<Longrightarrow> B m p \<noteq> None \<Longrightarrow> tlsf_free (heap_tlsf E) m t p = m' \<Longrightarrow>
       R m' t \<and> B m' = (B m)(p := None) \<and> keeps_payload (B m) (B m') m m'"
    using ok unfolding tlsf_frees_def by blast
  show "R m t \<Longrightarrow> B m p = Some s \<Longrightarrow> tlsf_block_size (heap_tlsf E) m p = of_nat s"
    using ok unfolding tlsf_sizes_def by blast
  show "R m t \<Longrightarrow> a \<noteq> 0 \<Longrightarrow> a AND (a - 1) = 0 \<Longrightarrow> tlsf_memalign (heap_tlsf E) m t a n = (p, m') \<Longrightarrow>
       R m' t \<and> allocates (B m) (B m') n p \<and> p mod a = 0 \<and> keeps_payload (B m) (B m') m m'"
    using ok unfolding tlsf_memaligns_def by blast
  show "R m t \<Longrightarrow> outside_blocks (B m) m m' \<Longrightarrow> R m' t \<and> B m' = B m"
    using ok unfolding tlsf_undisturbed_def by blast
qed

section \<open>One operation at a time\<close>

definition unlocked :: "heap_build \<Rightarrow> heap_world \<Rightarrow> bool" where
  "unlocked E w \<longleftrightarrow> (if FULL_ATOMICS E then fs_allocator_lock_word w = 0 else fs_allocator_lease w 0 = None)"

definition locked :: "heap_build \<Rightarrow> heap_world \<Rightarrow> bool" where
  "locked E w \<longleftrightarrow> (if FULL_ATOMICS E then fs_allocator_lock_word w = 1 else fs_allocator_lease w 0 \<noteq> None)"

definition same_lock :: "heap_world \<Rightarrow> heap_world \<Rightarrow> bool" where
  "same_lock w w' \<longleftrightarrow> fs_allocator_lock_word w' = fs_allocator_lock_word w \<and> fs_allocator_lease w' = fs_allocator_lease w"

definition same_heap :: "heap_world \<Rightarrow> heap_world \<Rightarrow> bool" where
  "same_heap w w' \<longleftrightarrow> fs_tlsf w' = fs_tlsf w \<and> heap_memory w' = heap_memory w"

lemma locked_unlocked: "locked E w \<Longrightarrow> \<not> unlocked E w"
  by (auto simp: locked_def unlocked_def split: if_splits)

lemma try_lock_takes:
  assumes "heap_build_ok E" "fs_try_lock E w = (True, w')"
  shows "unlocked E w" "locked E w'" "same_heap w w'"
  using assms noexist_okD(1,2) [of "allocator_lease_update E" "fs_allocator_lease w" 0 1]
  by (auto simp: heap_build_ok_def fs_try_lock_def unlocked_def locked_def same_heap_def split: if_splits prod.splits)

lemma try_lock_busy:
  assumes "heap_build_ok E" "fs_try_lock E w = (False, w')"
  shows "w' = w"
  using assms noexist_okD(3) [of "allocator_lease_update E" "fs_allocator_lease w" 0 1]
  by (auto simp: heap_build_ok_def fs_try_lock_def split: if_splits prod.splits)

lemma unlock_releases:
  assumes "heap_build_ok E" "locked E w"
  obtains w' where "fs_unlock E w = (True, w')" "unlocked E w'" "same_heap w w'"
proof -
  obtain rc lease where del: "allocator_lease_delete E (fs_allocator_lease w) 0 = (rc, lease)"
    by (meson surj_pair)
  have "rc = 0" if "\<not> FULL_ATOMICS E"
    using assms del that by (auto simp: heap_build_ok_def locked_def delete_live_def) (metis fst_conv)
  moreover have "lease = (fs_allocator_lease w)(0 := None)" if "\<not> FULL_ATOMICS E"
    using assms(1) that delete_okD(2) [of "allocator_lease_delete E" "fs_allocator_lease w" 0 rc lease] del calculation
    by (simp add: heap_build_ok_def)
  ultimately show thesis
    using that assms(2) del by (auto simp: fs_unlock_def unlocked_def locked_def same_heap_def split: if_splits)
qed

text \<open>The four operations are one pattern around the lock.\<close>

datatype heap_call = MallocCall u64 | FreeCall u64 | SizeCall u64 | MemalignCall u64 u64

fun run_heap_call :: "heap_build \<Rightarrow> heap_call \<Rightarrow> heap_world \<Rightarrow> u64 \<times> heap_world" where
  "run_heap_call E (MallocCall n) w = bpf_allocator_malloc E n w"
| "run_heap_call E (FreeCall p) w = bpf_allocator_free E p w"
| "run_heap_call E (SizeCall p) w = bpf_allocator_size E p w"
| "run_heap_call E (MemalignCall a n) w = bpf_allocator_memalign E a n w"

definition with_pool :: "heap_build \<Rightarrow> (bytes \<Rightarrow> u64 \<Rightarrow> u64 \<times> bytes) \<Rightarrow> heap_world \<Rightarrow> u64 \<times> heap_world" where
  "with_pool E f w =
     (let (have_pool, w) = (if fs_tlsf w \<noteq> 0 then (True, w) else fs_setup E w)
      in if \<not> have_pool then (0, w)
         else let (result, memory) = f (heap_memory w) (fs_tlsf w) in (result, w\<lparr>heap_memory := memory\<rparr>))"

fun heap_body :: "heap_build \<Rightarrow> heap_call \<Rightarrow> heap_world \<Rightarrow> u64 \<times> heap_world" where
  "heap_body E (MallocCall n) w = with_pool E (\<lambda>m t. tlsf_malloc (heap_tlsf E) m t n) w"
| "heap_body E (FreeCall p) w =
     (0, if fs_tlsf w \<noteq> 0 then w\<lparr>heap_memory := tlsf_free (heap_tlsf E) (heap_memory w) (fs_tlsf w) p\<rparr> else w)"
| "heap_body E (SizeCall p) w = (if fs_tlsf w \<noteq> 0 then tlsf_block_size (heap_tlsf E) (heap_memory w) p else 0, w)"
| "heap_body E (MemalignCall a n) w = with_pool E (\<lambda>m t. tlsf_memalign (heap_tlsf E) m t a n) w"

lemma heap_call_island:
  "run_heap_call E c w =
     (let (ok, w) = fs_try_lock E w
      in if \<not> ok then (FS_ALLOCATOR_BUSY, w) else let (v, w) = heap_body E c w in unlock_with E v w)"
  by (cases c)
    (simp_all add: bpf_allocator_malloc_def bpf_allocator_free_def bpf_allocator_size_def bpf_allocator_memalign_def with_pool_def
      Let_def split: prod.splits)

definition live_blocks :: "tlsf_view \<Rightarrow> heap_world \<Rightarrow> u64 \<rightharpoonup> nat" where
  "live_blocks V w = (if fs_tlsf w = 0 then Map.empty else snd V (heap_memory w))"

definition pool_ok :: "tlsf_view \<Rightarrow> heap_world \<Rightarrow> bool" where
  "pool_ok V w \<longleftrightarrow> fs_tlsf w = 0 \<or> fst V (heap_memory w) (fs_tlsf w)"

text \<open>What an operation does to the blocks, by its kind.\<close>

fun call_effect :: "heap_call \<Rightarrow> (u64 \<rightharpoonup> nat) \<Rightarrow> (u64 \<rightharpoonup> nat) \<Rightarrow> u64 \<Rightarrow> bool" where
  "call_effect (MallocCall n) b b' v = allocates b b' n v"
| "call_effect (FreeCall p) b b' v = (v = 0 \<and> b' = b(p := None))"
| "call_effect (SizeCall p) b b' v = (b' = b \<and> v = of_nat (the (b p)))"
| "call_effect (MemalignCall a n) b b' v = (allocates b b' n v \<and> v mod a = 0)"

fun call_allowed :: "heap_call \<Rightarrow> u64 set \<Rightarrow> bool" where
  "call_allowed (MallocCall n) own = True"
| "call_allowed (FreeCall p) own = (p \<in> own)"
| "call_allowed (SizeCall p) own = (p \<in> own)"
| "call_allowed (MemalignCall a n) own = (a \<noteq> 0 \<and> a AND (a - 1) = 0)"

lemma pool_blocks_ok: "tlsf_ok E V \<Longrightarrow> pool_ok V w \<Longrightarrow> blocks_ok E (live_blocks V w)"
  by (cases V; cases "fs_tlsf w = 0") (auto simp: pool_ok_def live_blocks_def dest: tlsf_okD(1), simp add: blocks_ok_def)

lemma with_pool_effect:
  assumes "tlsf_ok E (R, B)" "pool_ok (R, B) w" "with_pool E f w = (v, w')"
    and f: "\<And>m t p m'. R m t \<Longrightarrow> f m t = (p, m') \<Longrightarrow> R m' t \<and> allocates (B m) (B m') n p \<and> p mod a = 0 \<and> keeps_payload (B m) (B m') m m'"
  shows "pool_ok (R, B) w' \<and> allocates (live_blocks (R, B) w) (live_blocks (R, B) w') n v \<and> v mod a = 0 \<and>
     keeps_payload (live_blocks (R, B) w) (live_blocks (R, B) w') (heap_memory w) (heap_memory w') \<and> same_lock w w'"
proof (cases "fs_tlsf w = 0")
  case False
  obtain p m' where "f (heap_memory w) (fs_tlsf w) = (p, m')" by (meson surj_pair)
  then show ?thesis
    using False assms(2,3) f [of "heap_memory w" "fs_tlsf w" p m']
    by (auto simp: with_pool_def pool_ok_def live_blocks_def same_lock_def)
next
  case True
  show ?thesis
  proof (cases "fst (fs_setup E w)")
    case False
    then show ?thesis
      using True assms(3)
      by (auto simp: with_pool_def pool_ok_def live_blocks_def same_lock_def fs_setup_def Let_def allocates_def keeps_payload_def
          split: if_splits prod.splits)
  next
    case have_pool: True
    then obtain t m where create: "tlsf_create_with_pool (heap_tlsf E) (heap_memory w) (capsule_heap_start E) (capsule_heap_size E) = (t, m)"
      "t \<noteq> 0" "fs_setup E w = (True, w\<lparr>fs_tlsf := t, heap_memory := m\<rparr>)"
      by (auto simp: fs_setup_def Let_def split: if_splits prod.splits)
    obtain p m' where fm: "f m t = (p, m')" by (meson surj_pair)
    have "R m t" "B m = Map.empty" using tlsf_okD(2) [OF assms(1) create(1,2)] by auto
    then show ?thesis
      using True assms(3) create fm f [of m t p m']
      by (auto simp: with_pool_def pool_ok_def live_blocks_def same_lock_def keeps_payload_def)
  qed
qed

lemma heap_body_effect:
  assumes "tlsf_ok E V" "pool_ok V w" "call_allowed c (dom (live_blocks V w))" "heap_body E c w = (v, w')"
  shows "pool_ok V w' \<and> call_effect c (live_blocks V w) (live_blocks V w') v \<and>
     keeps_payload (live_blocks V w) (live_blocks V w') (heap_memory w) (heap_memory w') \<and> same_lock w w'"
proof -
  obtain R B where V: "V = (R, B)" by (cases V)
  note ok = assms(1) [unfolded V]
  show ?thesis
  proof (cases c)
    case (MallocCall n)
    have "with_pool E (\<lambda>m t. tlsf_malloc (heap_tlsf E) m t n) w = (v, w')"
      using assms(4) MallocCall by simp
    from with_pool_effect [OF ok assms(2) [unfolded V] this, of n 1] show ?thesis
      using tlsf_okD(3) [OF ok, of _ _ n] by (simp add: V MallocCall)
  next
    case (MemalignCall a n)
    have "with_pool E (\<lambda>m t. tlsf_memalign (heap_tlsf E) m t a n) w = (v, w')"
      using assms(4) MemalignCall by simp
    moreover have "a \<noteq> 0" "a AND (a - 1) = 0" using assms(3) MemalignCall by simp_all
    ultimately have "pool_ok V w' \<and> allocates (live_blocks V w) (live_blocks V w') n v \<and> v mod a = 0 \<and>
       keeps_payload (live_blocks V w) (live_blocks V w') (heap_memory w) (heap_memory w') \<and> same_lock w w'"
      unfolding V by (intro with_pool_effect [OF ok assms(2) [unfolded V]] tlsf_okD(6) [OF ok])
    then show ?thesis by (simp add: MemalignCall)
  next
    case (FreeCall p)
    then have "fs_tlsf w \<noteq> 0" "B (heap_memory w) p \<noteq> None"
      using assms(3) by (auto simp: V live_blocks_def split: if_splits)
    then show ?thesis
      using assms(2,4) tlsf_okD(4) [OF ok, of "heap_memory w" "fs_tlsf w" p] FreeCall
      by (auto simp: V pool_ok_def live_blocks_def same_lock_def)
  next
    case (SizeCall p)
    then obtain s where "fs_tlsf w \<noteq> 0" "B (heap_memory w) p = Some s"
      using assms(3) by (auto simp: V live_blocks_def split: if_splits)
    then show ?thesis
      using assms(2,4) tlsf_okD(5) [OF ok, of "heap_memory w" "fs_tlsf w" p s] SizeCall
      by (auto simp: V pool_ok_def live_blocks_def same_lock_def keeps_payload_def)
  qed
qed

section \<open>Any number of fibers\<close>

text \<open>Fibers on different processors meet at the lock. A fiber outside the allocator may enter it, find it busy, or write
  into the memory it owns; inside it works and leaves. The blocks a fiber owns, with what it last wrote there, are
  recorded beside the machine's state: an allocation gives the requested bytes to the fiber that asked, and entering
  \<open>free\<close> gives the block up.\<close>

datatype fiber_pc = Outside | Inside heap_call | Leaving heap_call u64

record heap_system =
  sys_world :: heap_world
  sys_pc :: "nat \<Rightarrow> fiber_pc"
  sys_owned :: "nat \<Rightarrow> u64 \<rightharpoonup> u8 list"
  sys_results :: "(nat \<times> heap_call \<times> u64) list"

fun requested :: "heap_call \<Rightarrow> u64 option" where
  "requested (MallocCall n) = Some n"
| "requested (MemalignCall a n) = Some n"
| "requested _ = None"

fun given_up :: "heap_call \<Rightarrow> (u64 \<rightharpoonup> u8 list) \<Rightarrow> u64 \<rightharpoonup> u8 list" where
  "given_up (FreeCall p) own = own(p := None)"
| "given_up _ own = own"

definition gained :: "heap_call \<Rightarrow> u64 \<Rightarrow> bytes \<Rightarrow> (u64 \<rightharpoonup> u8 list) \<Rightarrow> u64 \<rightharpoonup> u8 list" where
  "gained c v m own =
     (case requested c of
        None \<Rightarrow> own
      | Some n \<Rightarrow> if v \<noteq> 0 \<and> v \<noteq> FS_ALLOCATOR_ERROR then own(v \<mapsto> payload m v (unat n)) else own)"

inductive heap_step :: "heap_build \<Rightarrow> heap_system \<Rightarrow> heap_system \<Rightarrow> bool" for E where
  enter: "sys_pc S f = Outside \<Longrightarrow> call_allowed c (dom (sys_owned S f)) \<Longrightarrow> fs_try_lock E (sys_world S) = (True, w) \<Longrightarrow>
     heap_step E S (S\<lparr>sys_world := w, sys_pc := (sys_pc S)(f := Inside c),
       sys_owned := (sys_owned S)(f := given_up c (sys_owned S f))\<rparr>)"
| busy: "sys_pc S f = Outside \<Longrightarrow> call_allowed c (dom (sys_owned S f)) \<Longrightarrow> fs_try_lock E (sys_world S) = (False, w) \<Longrightarrow>
     heap_step E S (S\<lparr>sys_world := w, sys_results := (f, c, FS_ALLOCATOR_BUSY) # sys_results S\<rparr>)"
| work: "sys_pc S f = Inside c \<Longrightarrow> heap_body E c (sys_world S) = (v, w) \<Longrightarrow>
     heap_step E S (S\<lparr>sys_world := w, sys_pc := (sys_pc S)(f := Leaving c v)\<rparr>)"
| leave: "sys_pc S f = Leaving c v \<Longrightarrow> unlock_with E v (sys_world S) = (r, w) \<Longrightarrow>
     heap_step E S (S\<lparr>sys_world := w, sys_pc := (sys_pc S)(f := Outside),
       sys_owned := (sys_owned S)(f := gained c r (heap_memory w) (sys_owned S f)),
       sys_results := (f, c, r) # sys_results S\<rparr>)"
| poke: "sys_pc S f = Outside \<Longrightarrow> sys_owned S f p = Some bs \<Longrightarrow> i < length bs \<Longrightarrow>
     heap_step E S (S\<lparr>sys_world := (sys_world S)\<lparr>heap_memory := (heap_memory (sys_world S))(unat p + i := x)\<rparr>,
       sys_owned := (sys_owned S)(f := (sys_owned S f)(p \<mapsto> bs[i := x]))\<rparr>)"

text \<open>The start: the lock is free, the pool is well formed or not yet set up, and no fiber owns anything.\<close>

definition heap_start :: "heap_build \<Rightarrow> tlsf_view \<Rightarrow> heap_system \<Rightarrow> bool" where
  "heap_start E V S \<longleftrightarrow> unlocked E (sys_world S) \<and> pool_ok V (sys_world S) \<and> sys_pc S = (\<lambda>_. Outside) \<and>
     sys_owned S = (\<lambda>_. Map.empty) \<and> sys_results S = []"

abbreviation blocks_of :: "tlsf_view \<Rightarrow> heap_system \<Rightarrow> u64 \<rightharpoonup> nat" where
  "blocks_of V S \<equiv> live_blocks V (sys_world S)"

definition lock_inv :: "heap_build \<Rightarrow> heap_system \<Rightarrow> bool" where
  "lock_inv E S \<longleftrightarrow> (\<forall>f g. sys_pc S f \<noteq> Outside \<longrightarrow> sys_pc S g \<noteq> Outside \<longrightarrow> f = g) \<and>
     (if \<exists>f. sys_pc S f \<noteq> Outside then locked E (sys_world S) else unlocked E (sys_world S))"

definition block_held :: "(u64 \<rightharpoonup> nat) \<Rightarrow> bytes \<Rightarrow> u64 \<Rightarrow> u8 list \<Rightarrow> bool" where
  "block_held b m p bs \<longleftrightarrow> (\<exists>s. b p = Some s \<and> length bs \<le> s) \<and> payload m p (length bs) = bs"

definition owned_inv :: "tlsf_view \<Rightarrow> heap_system \<Rightarrow> bool" where
  "owned_inv V S \<longleftrightarrow>
     (\<forall>f p bs. sys_owned S f p = Some bs \<longrightarrow> block_held (blocks_of V S) (heap_memory (sys_world S)) p bs) \<and>
     (\<forall>f g p. sys_owned S f p \<noteq> None \<longrightarrow> sys_owned S g p \<noteq> None \<longrightarrow> f = g)"

definition unowned :: "heap_system \<Rightarrow> u64 \<Rightarrow> bool" where
  "unowned S p \<longleftrightarrow> (\<forall>g. sys_owned S g p = None)"

fun pc_inv :: "tlsf_view \<Rightarrow> heap_system \<Rightarrow> fiber_pc \<Rightarrow> bool" where
  "pc_inv V S Outside = True"
| "pc_inv V S (Inside c) = (call_allowed c (dom (blocks_of V S)) \<and> (\<forall>p. c = FreeCall p \<longrightarrow> unowned S p))"
| "pc_inv V S (Leaving c v) =
     (v \<noteq> FS_ALLOCATOR_ERROR \<and> v \<noteq> FS_ALLOCATOR_BUSY \<and>
      (\<forall>n. requested c = Some n \<longrightarrow> v \<noteq> 0 \<longrightarrow> unowned S v \<and> (\<exists>s \<ge> unat n. blocks_of V S v = Some s)) \<and>
      (\<forall>a n. c = MemalignCall a n \<longrightarrow> v mod a = 0))"

definition results_inv :: "heap_system \<Rightarrow> bool" where
  "results_inv S \<longleftrightarrow> (\<forall>f c v. (f, c, v) \<in> set (sys_results S) \<longrightarrow> v \<noteq> FS_ALLOCATOR_ERROR \<and>
     (\<forall>a n. c = MemalignCall a n \<longrightarrow> v = FS_ALLOCATOR_BUSY \<or> v mod a = 0))"

definition heap_inv :: "heap_build \<Rightarrow> tlsf_view \<Rightarrow> heap_system \<Rightarrow> bool" where
  "heap_inv E V S \<longleftrightarrow> pool_ok V (sys_world S) \<and> lock_inv E S \<and> owned_inv V S \<and> (\<forall>f. pc_inv V S (sys_pc S f)) \<and> results_inv S"

lemma payload_length [simp]: "length (payload m p s) = s"
  by (simp add: payload_def)

lemma payload_prefix: "k \<le> s \<Longrightarrow> payload m p k = take k (payload m p s)"
  by (rule nth_equalityI) (auto simp: payload_def)

lemma payload_write:
  "payload (m(unat p + i := x)) p n = (payload m p n)[i := x]"
  by (rule nth_equalityI) (auto simp: payload_def nth_list_update)

lemma payload_write_other:
  "a \<notin> block_span p n \<Longrightarrow> payload (m(a := x)) p n = payload m p n"
  by (auto simp: payload_def block_span_def)

lemma no_sentinel:
  assumes "heap_build_ok E" "blocks_ok E b" "blocks_ok E b'" "call_allowed c (dom b)" "call_effect c b b' v"
  shows "v \<noteq> FS_ALLOCATOR_ERROR" "v \<noteq> FS_ALLOCATOR_BUSY"
proof -
  have error: "FS_ALLOCATOR_ERROR = 18446744073709551614"
    by (simp add: FS_ALLOCATOR_ERROR_def)
  have "unat (18446744073709551614 :: u64) = 18446744073709551614"
    by simp
  then have sentinels: "unat FS_ALLOCATOR_ERROR = 18446744073709551614" "unat FS_ALLOCATOR_BUSY = 18446744073709551615"
    by (simp only: error, simp add: FS_ALLOCATOR_BUSY_def unsigned_minus_1_eq_mask mask_eq_exp_minus_1)
  have small: "unat p < 18446744073709551614" "s < 18446744073709551614" if "blocks_ok E d" "d p = Some s" for d p s
  proof -
    have "p \<noteq> 0" "0 < s" "unat p + s \<le> 18446744073709551614"
      using that assms(1) by (fastforce simp: blocks_ok_def heap_build_ok_def)+
    moreover have "0 < unat p" using \<open>p \<noteq> 0\<close> by (simp add: unat_gt_0)
    ultimately show "unat p < 18446744073709551614" "s < 18446744073709551614" by linarith+
  qed
  have alloc: "unat v < 18446744073709551614" if "allocates b b' n v" for n
    using that small(1) [OF assms(3), of v] by (cases "v = 0") (auto simp: allocates_def)
  have "unat v < 18446744073709551614"
  proof (cases c)
    case (SizeCall p)
    then obtain s where "b p = Some s" "v = of_nat s" using assms(4,5) by auto
    then show ?thesis using small(2) [OF assms(2), of p s] by (simp add: unat_of_nat)
  qed (use assms(5) alloc in auto)
  then show "v \<noteq> FS_ALLOCATOR_ERROR" "v \<noteq> FS_ALLOCATOR_BUSY"
    using sentinels by auto
qed

lemma same_heap_views:
  assumes "same_heap w w'"
  shows "live_blocks V w' = live_blocks V w" "pool_ok V w' = pool_ok V w" "heap_memory w' = heap_memory w"
  using assms by (simp_all add: same_heap_def live_blocks_def pool_ok_def)

lemma block_held_keeps:
  assumes "block_held b m p bs" "keeps_payload b b' m m'" "b' p = b p"
  shows "block_held b' m' p bs"
proof -
  obtain s where s: "b p = Some s" "length bs \<le> s" "payload m p (length bs) = bs"
    using assms(1) by (auto simp: block_held_def)
  then have "payload m' p s = payload m p s" using assms(2,3) by (simp add: keeps_payload_def)
  then have "payload m' p (length bs) = bs"
    using s payload_prefix [OF s(2), of m' p] payload_prefix [OF s(2), of m p] by simp
  then show ?thesis using s assms(3) by (auto simp: block_held_def)
qed

lemma call_allowed_mono: "call_allowed c A \<Longrightarrow> A \<subseteq> B \<Longrightarrow> call_allowed c B"
  by (cases c) auto

lemma heap_invD:
  assumes "heap_inv E V S"
  shows "pool_ok V (sys_world S)" "results_inv S" "pc_inv V S (sys_pc S f)"
    "sys_owned S f p = Some bs \<Longrightarrow> block_held (blocks_of V S) (heap_memory (sys_world S)) p bs"
    "sys_owned S f p = Some bs \<Longrightarrow> sys_owned S g p = Some cs \<Longrightarrow> g = f"
    "sys_pc S f \<noteq> Outside \<Longrightarrow> g \<noteq> f \<Longrightarrow> sys_pc S g = Outside"
    "sys_pc S f \<noteq> Outside \<Longrightarrow> locked E (sys_world S)"
    "unlocked E (sys_world S) \<Longrightarrow> sys_pc S f = Outside"
proof -
  show "sys_pc S f \<noteq> Outside \<Longrightarrow> locked E (sys_world S)"
    using assms by (auto simp: heap_inv_def lock_inv_def split: if_splits)
  then show "unlocked E (sys_world S) \<Longrightarrow> sys_pc S f = Outside"
    using locked_unlocked by blast
  show "sys_pc S f \<noteq> Outside \<Longrightarrow> g \<noteq> f \<Longrightarrow> sys_pc S g = Outside"
    using assms unfolding heap_inv_def lock_inv_def by blast
  have owned: "owned_inv V S" using assms by (simp add: heap_inv_def)
  then show "sys_owned S f p = Some bs \<Longrightarrow> block_held (blocks_of V S) (heap_memory (sys_world S)) p bs"
    by (simp add: owned_inv_def)
  show "sys_owned S f p = Some bs \<Longrightarrow> sys_owned S g p = Some cs \<Longrightarrow> g = f"
    using owned unfolding owned_inv_def by blast
qed (use assms in \<open>simp_all add: heap_inv_def\<close>)

lemma heap_invI:
  assumes "pool_ok V (sys_world S)" "results_inv S" "\<And>f. pc_inv V S (sys_pc S f)"
    "\<And>f p bs. sys_owned S f p = Some bs \<Longrightarrow> block_held (blocks_of V S) (heap_memory (sys_world S)) p bs"
    "\<And>f g p bs cs. sys_owned S f p = Some bs \<Longrightarrow> sys_owned S g p = Some cs \<Longrightarrow> f = g"
    "lock_inv E S"
  shows "heap_inv E V S"
proof -
  have "owned_inv V S"
    unfolding owned_inv_def using assms(4,5) by blast
  then show ?thesis using assms by (simp add: heap_inv_def)
qed

lemma lock_inv_held: "sys_pc S f \<noteq> Outside \<Longrightarrow> (\<And>g. g \<noteq> f \<Longrightarrow> sys_pc S g = Outside) \<Longrightarrow> locked E (sys_world S) \<Longrightarrow> lock_inv E S"
  unfolding lock_inv_def by (metis (full_types))

lemma lock_inv_free: "(\<And>f. sys_pc S f = Outside) \<Longrightarrow> unlocked E (sys_world S) \<Longrightarrow> lock_inv E S"
  by (simp add: lock_inv_def)

lemma heap_inv_owned: "heap_inv E V S \<Longrightarrow> sys_owned S f p = Some bs \<Longrightarrow> blocks_of V S p \<noteq> None"
  by (drule (1) heap_invD(4)) (auto simp: block_held_def)

text \<open>Each step keeps the invariant.\<close>

lemma enter_keeps:
  assumes ok: "heap_build_ok E" and inv: "heap_inv E V S"
    and allowed: "call_allowed c (dom (sys_owned S f))" and lock: "fs_try_lock E (sys_world S) = (True, w)"
  shows "heap_inv E V (S\<lparr>sys_world := w, sys_pc := (sys_pc S)(f := Inside c), sys_owned := (sys_owned S)(f := given_up c (sys_owned S f))\<rparr>)"
    (is "heap_inv E V ?S")
proof -
  note got = try_lock_takes [OF ok lock] and views = same_heap_views [OF try_lock_takes(3) [OF ok lock]]
  have less: "given_up c (sys_owned S f) p = Some bs \<Longrightarrow> sys_owned S f p = Some bs" for p bs
    by (cases c) (auto split: if_splits)
  have owned: "sys_owned ?S g p = Some bs \<Longrightarrow> sys_owned S g p = Some bs" for g p bs
    using less by (auto split: if_splits)
  have gone: "sys_owned ?S g p = None" if free: "c = FreeCall p" for g p
  proof (cases "g = f")
    case False
    obtain bs where "sys_owned S f p = Some bs" using allowed free by auto
    then show ?thesis using heap_invD(5) [OF inv, of f p bs g] False by (cases "sys_owned S g p") auto
  qed (simp add: free)
  have "dom (sys_owned S f) \<subseteq> dom (blocks_of V S)" using heap_inv_owned [OF inv] by blast
  then have pcs: "pc_inv V ?S (sys_pc ?S g)" for g
    using call_allowed_mono [OF allowed] gone views heap_invD(8) [OF inv got(1), of g] by (simp add: unowned_def)
  show ?thesis
  proof (rule heap_invI)
    show "pc_inv V ?S (sys_pc ?S g)" for g by (rule pcs)
    show "block_held (blocks_of V ?S) (heap_memory (sys_world ?S)) p bs" if "sys_owned ?S g p = Some bs" for g p bs
      using heap_invD(4) [OF inv owned [OF that]] views by simp
    show "g = h" if "sys_owned ?S g p = Some bs" "sys_owned ?S h p = Some cs" for g h p bs cs
      by (rule heap_invD(5) [OF inv owned [OF that(2)] owned [OF that(1)]])
    show "lock_inv E ?S"
      using heap_invD(8) [OF inv got(1)] got(2) by (intro lock_inv_held [where f = f]) auto
  qed (use heap_invD(1,2) [OF inv] views in \<open>auto simp: results_inv_def\<close>)
qed

lemma work_keeps:
  assumes ok: "heap_build_ok E" "tlsf_ok E V" and inv: "heap_inv E V S" and pc: "sys_pc S f = Inside c"
    and body: "heap_body E c (sys_world S) = (v, w)"
  shows "heap_inv E V (S\<lparr>sys_world := w, sys_pc := (sys_pc S)(f := Leaving c v)\<rparr>)" (is "heap_inv E V ?S")
proof -
  note pool = heap_invD(1) [OF inv]
  have allowed: "call_allowed c (dom (blocks_of V S))" and free: "\<And>p. c = FreeCall p \<Longrightarrow> unowned S p"
    using heap_invD(3) [OF inv, of f] pc by auto
  have effect: "pool_ok V w" "call_effect c (blocks_of V S) (live_blocks V w) v"
    "keeps_payload (blocks_of V S) (live_blocks V w) (heap_memory (sys_world S)) (heap_memory w)" "same_lock (sys_world S) w"
    using heap_body_effect [OF ok(2) pool allowed body] by auto
  note sentinel = no_sentinel [OF ok(1) pool_blocks_ok [OF ok(2) pool] pool_blocks_ok [OF ok(2) effect(1)] allowed effect(2)]
  have outside: "g \<noteq> f \<Longrightarrow> sys_pc S g = Outside" for g
    using heap_invD(6) [OF inv, of f g] pc by simp
  have fresh: "requested c = Some n \<Longrightarrow> v \<noteq> 0 \<Longrightarrow> blocks_of V S v = None \<and> (\<exists>s \<ge> unat n. live_blocks V w v = Some s)" for n
    using effect(2) by (cases c) (auto simp: allocates_def)
  have same: "live_blocks V w p = blocks_of V S p" if "sys_owned S g p = Some bs" for g p bs
  proof -
    have "p \<in> dom (blocks_of V S)" using heap_inv_owned [OF inv that] by auto
    moreover have "c \<noteq> FreeCall p" using that free [of p] by (auto simp: unowned_def)
    ultimately show ?thesis using effect(2) by (cases c) (auto simp: allocates_def split: if_splits)
  qed
  have "unowned ?S v" if "requested c = Some n" "v \<noteq> 0" for n
    using fresh [OF that] heap_inv_owned [OF inv] by (force simp: unowned_def)
  then have "pc_inv V ?S (Leaving c v)"
    using sentinel fresh effect(2) by auto
  moreover have "locked E w"
    using heap_invD(7) [OF inv, of f] pc effect(4) by (simp add: locked_def same_lock_def)
  ultimately have lock: "lock_inv E ?S" and pcs: "pc_inv V ?S (sys_pc ?S g)" for g
    using outside by (intro lock_inv_held [where f = f], auto)
  show ?thesis
  proof (rule heap_invI)
    show "pc_inv V ?S (sys_pc ?S g)" for g by (rule pcs)
    show "block_held (blocks_of V ?S) (heap_memory (sys_world ?S)) p bs" if "sys_owned ?S g p = Some bs" for g p bs
      using block_held_keeps [OF heap_invD(4) [OF inv] effect(3) same, of g p bs g bs] that by simp
    show "g = h" if "sys_owned ?S g p = Some bs" "sys_owned ?S h p = Some cs" for g h p bs cs
      using heap_invD(5) [OF inv, of h p cs g bs] that by simp
  qed (use effect(1) heap_invD(2) [OF inv] lock in \<open>auto simp: results_inv_def\<close>)
qed

lemma leave_keeps:
  assumes ok: "heap_build_ok E" and inv: "heap_inv E V S" and pc: "sys_pc S f = Leaving c v"
    and unlock: "unlock_with E v (sys_world S) = (r, w)"
  shows "heap_inv E V (S\<lparr>sys_world := w, sys_pc := (sys_pc S)(f := Outside),
       sys_owned := (sys_owned S)(f := gained c r (heap_memory w) (sys_owned S f)), sys_results := (f, c, r) # sys_results S\<rparr>)"
    (is "heap_inv E V ?S")
proof -
  have "locked E (sys_world S)" using heap_invD(7) [OF inv, of f] pc by simp
  then obtain w' where "fs_unlock E (sys_world S) = (True, w')" "unlocked E w'" "same_heap (sys_world S) w'"
    using unlock_releases [OF ok] by blast
  then have r: "r = v" and free: "unlocked E w" and heap: "same_heap (sys_world S) w"
    using unlock by (auto simp: unlock_with_def)
  note views = same_heap_views [OF heap]
  have pcv: "pc_inv V S (Leaving c v)" using heap_invD(3) [OF inv, of f] pc by simp
  have outside: "g \<noteq> f \<Longrightarrow> sys_pc S g = Outside" for g
    using heap_invD(6) [OF inv, of f g] pc by simp
  have owned: "sys_owned S g p = Some bs \<or> g = f \<and> unowned S p \<and> block_held (blocks_of V S) (heap_memory (sys_world S)) p bs"
    if "sys_owned ?S g p = Some bs" for g p bs
    using that pcv views by (auto simp: r gained_def block_held_def split: option.splits if_splits)
  have held: "block_held (blocks_of V S) (heap_memory (sys_world S)) p bs" if "sys_owned ?S g p = Some bs" for g p bs
    using owned [OF that] heap_invD(4) [OF inv] by blast
  have excl: "g = h" if "sys_owned ?S g p = Some bs" "sys_owned ?S h p = Some cs" for g h p bs cs
    using owned [OF that(1)] owned [OF that(2)] heap_invD(5) [OF inv, of h p cs g bs] by (auto simp: unowned_def)
  show ?thesis
  proof (rule heap_invI)
    show "results_inv ?S"
      using heap_invD(2) [OF inv] pcv by (auto simp: results_inv_def r)
    show "pc_inv V ?S (sys_pc ?S g)" for g
      using outside by (cases "g = f") simp_all
    show "block_held (blocks_of V ?S) (heap_memory (sys_world ?S)) p bs" if "sys_owned ?S g p = Some bs" for g p bs
      using held [OF that] views by simp
    show "g = h" if "sys_owned ?S g p = Some bs" "sys_owned ?S h p = Some cs" for g h p bs cs
      using that by (rule excl)
    show "lock_inv E ?S"
      using outside free by (intro lock_inv_free) auto
  qed (use heap_invD(1) [OF inv] views in simp)
qed

lemma write_blocks:
  assumes ok: "tlsf_ok E V" and pool: "pool_ok V w" and b: "live_blocks V w p = Some s" and i: "i < s"
  shows "live_blocks V (w\<lparr>heap_memory := (heap_memory w)(unat p + i := x)\<rparr>) = live_blocks V w"
    "pool_ok V (w\<lparr>heap_memory := (heap_memory w)(unat p + i := x)\<rparr>)"
proof -
  obtain R B where V: "V = (R, B)" by (cases V)
  have t: "fs_tlsf w \<noteq> 0" "R (heap_memory w) (fs_tlsf w)" "B (heap_memory w) p = Some s"
    using pool b by (auto simp: V pool_ok_def live_blocks_def split: if_splits)
  have "unat p + i \<in> block_span p s" using i by (simp add: block_span_def)
  then have "outside_blocks (B (heap_memory w)) (heap_memory w) ((heap_memory w)(unat p + i := x))"
    using t(3) by (auto simp: outside_blocks_def)
  from tlsf_okD(7) [OF ok [unfolded V] t(2) this] show "live_blocks V (w\<lparr>heap_memory := (heap_memory w)(unat p + i := x)\<rparr>) = live_blocks V w"
    "pool_ok V (w\<lparr>heap_memory := (heap_memory w)(unat p + i := x)\<rparr>)"
    using t(1) by (simp_all add: V pool_ok_def live_blocks_def fun_upd_def)
qed

lemma held_apart:
  assumes "blocks_ok E b" "block_held b m p bs" "block_held b m q cs" "p \<noteq> q"
  shows "block_span p (length bs) \<inter> block_span q (length cs) = {}"
proof -
  obtain s t where "b p = Some s" "length bs \<le> s" "b q = Some t" "length cs \<le> t"
    using assms(2,3) by (auto simp: block_held_def)
  moreover from this have "block_span p s \<inter> block_span q t = {}"
    using assms(1,4) unfolding blocks_ok_def by blast
  moreover have "block_span p (length bs) \<subseteq> block_span p s" "block_span q (length cs) \<subseteq> block_span q t"
    using calculation by (auto simp: block_span_def)
  ultimately show ?thesis by blast
qed

lemma write_keeps:
  assumes ok: "tlsf_ok E V" and inv: "heap_inv E V S" and own: "sys_owned S f p = Some bs" and i: "i < length bs"
  shows "heap_inv E V (S\<lparr>sys_world := (sys_world S)\<lparr>heap_memory := (heap_memory (sys_world S))(unat p + i := x)\<rparr>,
       sys_owned := (sys_owned S)(f := (sys_owned S f)(p \<mapsto> bs[i := x]))\<rparr>)" (is "heap_inv E V ?S")
proof -
  let ?m = "heap_memory (sys_world S)"
  note held = heap_invD(4) [OF inv own]
  obtain s where s: "blocks_of V S p = Some s" "i < s" using held i by (auto simp: block_held_def)
  note same = write_blocks [OF ok heap_invD(1) [OF inv] s, of x]
  have i_span: "unat p + i \<in> block_span p (length bs)" using i by (simp add: block_span_def)
  have other: "sys_owned S g q = Some cs" if "sys_owned ?S g q = Some cs" "(g, q) \<noteq> (f, p)" for g q cs
    using that by (auto split: if_splits)
  have distinct: "q \<noteq> p" if "sys_owned S g q = Some cs" "(g, q) \<noteq> (f, p)" for g q cs
    using that heap_invD(5) [OF inv own, of g cs] by auto
  have "unowned ?S q \<longleftrightarrow> unowned S q" for q
    using own by (auto simp: unowned_def)
  then have "pc_inv V ?S pc = pc_inv V S pc" for pc
    using same by (cases pc) auto
  then have pcs: "pc_inv V ?S (sys_pc ?S g)" for g
    using heap_invD(3) [OF inv] by simp
  show ?thesis
  proof (rule heap_invI)
    show "pc_inv V ?S (sys_pc ?S g)" for g by (rule pcs)
    show "block_held (blocks_of V ?S) (heap_memory (sys_world ?S)) q cs" if q: "sys_owned ?S g q = Some cs" for g q cs
    proof (cases "(g, q) = (f, p)")
      case True
      then show ?thesis using q held same by (auto simp: block_held_def payload_write)
    next
      case False
      note qs = heap_invD(4) [OF inv other [OF q False]] and ne = distinct [OF other [OF q False] False]
      have "unat p + i \<notin> block_span q (length cs)"
        using held_apart [OF pool_blocks_ok [OF ok heap_invD(1) [OF inv]] held qs] ne i_span by auto
      then show ?thesis using qs same by (simp add: block_held_def payload_write_other)
    qed
    show "g = h" if "sys_owned ?S g q = Some cs" "sys_owned ?S h q = Some ds" for g h q cs ds
    proof -
      have "\<exists>cs. sys_owned S g q = Some cs" "\<exists>ds. sys_owned S h q = Some ds"
        using that own by (auto split: if_splits)
      then show ?thesis using heap_invD(5) [OF inv] by blast
    qed
    have "lock_inv E S" using inv by (simp add: heap_inv_def)
    then show "lock_inv E ?S" by (auto simp: lock_inv_def locked_def unlocked_def split: if_splits)
  qed (use same heap_invD(2) [OF inv] in \<open>simp_all add: results_inv_def\<close>)
qed

lemma heap_step_keeps:
  assumes ok: "heap_build_ok E" "tlsf_ok E V" and step: "heap_step E S T" and inv: "heap_inv E V S"
  shows "heap_inv E V T"
  using step
proof cases
  case (busy f c w)
  have "w = sys_world S" by (rule try_lock_busy [OF ok(1) busy(4)])
  then have T: "T = S\<lparr>sys_results := (f, c, FS_ALLOCATOR_BUSY) # sys_results S\<rparr>" using busy(1) by simp
  have "FS_ALLOCATOR_BUSY \<noteq> FS_ALLOCATOR_ERROR" by (simp add: FS_ALLOCATOR_BUSY_def FS_ALLOCATOR_ERROR_def)
  moreover have "pc_inv V T pc = pc_inv V S pc" for pc by (cases pc) (auto simp: T unowned_def)
  ultimately show ?thesis
    using inv by (auto simp: T heap_inv_def results_inv_def owned_inv_def lock_inv_def)
qed (use enter_keeps [OF ok(1) inv] work_keeps [OF ok inv] leave_keeps [OF ok(1) inv] write_keeps [OF ok(2) inv] in blast)+

lemma heap_start_inv: "heap_start E V S \<Longrightarrow> heap_inv E V S"
  by (simp add: heap_start_def heap_inv_def lock_inv_def owned_inv_def results_inv_def)

lemma heap_reachable_inv:
  assumes "heap_build_ok E" "tlsf_ok E V" "heap_start E V S" "(heap_step E)\<^sup>*\<^sup>* S T"
  shows "heap_inv E V T"
  using assms(4)
proof (induction rule: rtranclp_induct)
  case base
  show ?case by (rule heap_start_inv [OF assms(3)])
next
  case (step T U)
  show ?case by (rule heap_step_keeps [OF assms(1,2) step(2,3)])
qed

text \<open>C12: Heaps of different fibers are isolated. Start with a free lock and any well-formed or not yet created pool, and let
  fibers allocate, query and free blocks and write into their own in any interleaving, on either tier of the lock. Every
  block a fiber owns lies in the heap and holds exactly what that fiber last wrote there, no two blocks that fibers own
  overlap, no operation ever reports a corrupt lock, and what \<open>memalign\<close> returns is aligned or busy.\<close>

theorem fiber_heaps_isolated:
  assumes "heap_build_ok E" and "tlsf_ok E V" and "heap_start E V S0" and "(heap_step E)\<^sup>*\<^sup>* S0 S"
  shows "(\<forall>f p bs. sys_owned S f p = Some bs \<longrightarrow>
       payload (heap_memory (sys_world S)) p (length bs) = bs \<and>
       block_span p (length bs) \<subseteq> {unat (capsule_heap_start E)..<unat (capsule_heap_start E) + unat (capsule_heap_size E)}) \<and>
     (\<forall>f p bs g q cs. sys_owned S f p = Some bs \<longrightarrow> sys_owned S g q = Some cs \<longrightarrow> (f, p) \<noteq> (g, q) \<longrightarrow>
       block_span p (length bs) \<inter> block_span q (length cs) = {}) \<and>
     (\<forall>f c v. (f, c, v) \<in> set (sys_results S) \<longrightarrow> v \<noteq> FS_ALLOCATOR_ERROR \<and>
       (\<forall>a n. c = MemalignCall a n \<longrightarrow> v = FS_ALLOCATOR_BUSY \<or> v mod a = 0))"
proof (intro conjI allI impI)
  have inv: "heap_inv E V S" by (rule heap_reachable_inv [OF assms])
  note blocks = pool_blocks_ok [OF assms(2) heap_invD(1) [OF inv]]
  show "payload (heap_memory (sys_world S)) p (length bs) = bs" if "sys_owned S f p = Some bs" for f p bs
    using heap_invD(4) [OF inv that] by (simp add: block_held_def)
  show "block_span p (length bs) \<subseteq> {unat (capsule_heap_start E)..<unat (capsule_heap_start E) + unat (capsule_heap_size E)}"
    if own: "sys_owned S f p = Some bs" for f p bs
  proof -
    obtain s where "blocks_of V S p = Some s" "length bs \<le> s"
      using heap_invD(4) [OF inv own] by (auto simp: block_held_def)
    then show ?thesis using blocks by (fastforce simp: block_span_def blocks_ok_def)
  qed
  show "block_span p (length bs) \<inter> block_span q (length cs) = {}"
    if "sys_owned S f p = Some bs" "sys_owned S g q = Some cs" "(f, p) \<noteq> (g, q)" for f p bs g q cs
    using held_apart [OF blocks heap_invD(4) [OF inv that(1)] heap_invD(4) [OF inv that(2)]] heap_invD(5) [OF inv, of f p bs g cs] that
    by (cases "p = q") auto
qed (use heap_invD(2) [OF heap_reachable_inv [OF assms]] in \<open>unfold results_inv_def, blast+\<close>)

text \<open>A pool with one block that a flag byte marks as used.\<close>

definition one_block :: tlsf where
  "one_block = \<lparr>tlsf_size = 8, tlsf_pool_overhead = 8, tlsf_block_size_min = 8, tlsf_block_size_max = 1024,
     tlsf_create_with_pool = (\<lambda>m start len. (start, m(unat start := 0))),
     tlsf_malloc = (\<lambda>m t n. if m (unat t) = 0 \<and> n \<le> 1024 then (t + 8, m(unat t := 1)) else (0, m)),
     tlsf_free = (\<lambda>m t p. m(unat t := 0)), tlsf_block_size = (\<lambda>m p. 1024),
     tlsf_memalign = (\<lambda>m t a n. if m (unat t) = 0 \<and> n \<le> 1024 \<and> (t + 8) mod a = 0 then (t + 8, m(unat t := 1)) else (0, m))\<rparr>"

definition one_block_build :: "bool \<Rightarrow> heap_build" where
  "one_block_build full = \<lparr>FULL_ATOMICS = full, allocator_lease_update = plain_noexist, allocator_lease_delete = plain_delete,
     capsule_heap_start = 4096, capsule_heap_size = 4096, heap_tlsf = one_block\<rparr>"

definition one_block_view :: tlsf_view where
  "one_block_view = ((\<lambda>m t. t = 4096 \<and> (m 4096 = 0 \<or> m 4096 = 1)), (\<lambda>m p. if m 4096 = 1 \<and> p = 4104 then Some 1024 else None))"

lemma one_block_build_ok: "heap_build_ok (one_block_build full)"
  using plain_noexist_ok plain_delete_ok
  by (auto simp: heap_build_ok_def one_block_build_def delete_live_def plain_delete_def split: option.splits)

lemma one_block_ok: "tlsf_ok (one_block_build full) one_block_view"
  supply word_le_nat_alt [simp]
  unfolding tlsf_ok_def tlsf_creates_def tlsf_mallocs_def tlsf_frees_def tlsf_sizes_def tlsf_memaligns_def tlsf_undisturbed_def
  by (auto simp: one_block_build_def one_block_def one_block_view_def blocks_ok_def block_span_def allocates_def keeps_payload_def
      outside_blocks_def payload_def fun_eq_iff split: if_splits)

definition empty_heap :: heap_system where
  "empty_heap = \<lparr>sys_world = \<lparr>fs_tlsf = 0, fs_allocator_lock_word = 0, fs_allocator_lease = Map.empty, heap_memory = (\<lambda>_. 0)\<rparr>,
     sys_pc = (\<lambda>_. Outside), sys_owned = (\<lambda>_. Map.empty), sys_results = []\<rparr>"

lemma empty_heap_start: "heap_start (one_block_build full) one_block_view empty_heap"
  by (simp add: heap_start_def empty_heap_def unlocked_def pool_ok_def)

text \<open>Fiber 3 allocates four bytes and writes the second.\<close>

definition one_block_run :: "bool \<Rightarrow> heap_system" where
  "one_block_run full =
     (let E = one_block_build full; S = empty_heap;
          S = S\<lparr>sys_world := snd (fs_try_lock E (sys_world S)), sys_pc := (sys_pc S)(3 := Inside (MallocCall 4)),
            sys_owned := (sys_owned S)(3 := given_up (MallocCall 4) (sys_owned S 3))\<rparr>;
          S = S\<lparr>sys_world := snd (heap_body E (MallocCall 4) (sys_world S)), sys_pc := (sys_pc S)(3 := Leaving (MallocCall 4) 4104)\<rparr>;
          w = snd (unlock_with E 4104 (sys_world S));
          S = S\<lparr>sys_world := w, sys_pc := (sys_pc S)(3 := Outside),
            sys_owned := (sys_owned S)(3 := gained (MallocCall 4) 4104 (heap_memory w) (sys_owned S 3)),
            sys_results := (3, MallocCall 4, 4104) # sys_results S\<rparr>
      in S\<lparr>sys_world := (sys_world S)\<lparr>heap_memory := (heap_memory (sys_world S))(unat (4104::u64) + 1 := 7)\<rparr>,
           sys_owned := (sys_owned S)(3 := (sys_owned S 3)(4104 \<mapsto> [0, 0, 0, 0][1 := 7]))\<rparr>)"

lemmas one_block_defs = one_block_build_def one_block_def empty_heap_def fs_try_lock_def with_pool_def fs_setup_def unlock_with_def
  fs_unlock_def plain_noexist_def plain_delete_def

lemma upt_four: "[0..<4] = [0, 1, 2, 3::nat]"
  by code_simp

lemma one_block_run_steps: "(heap_step (one_block_build full))\<^sup>*\<^sup>* empty_heap (one_block_run full)"
proof -
  let ?E = "one_block_build full"
  define S1 where "S1 = empty_heap\<lparr>sys_world := snd (fs_try_lock ?E (sys_world empty_heap)), sys_pc := (sys_pc empty_heap)(3 := Inside (MallocCall 4)),
    sys_owned := (sys_owned empty_heap)(3 := given_up (MallocCall 4) (sys_owned empty_heap 3))\<rparr>"
  define S2 where "S2 = S1\<lparr>sys_world := snd (heap_body ?E (MallocCall 4) (sys_world S1)), sys_pc := (sys_pc S1)(3 := Leaving (MallocCall 4) 4104)\<rparr>"
  define w where "w = snd (unlock_with ?E 4104 (sys_world S2))"
  define S3 where "S3 = S2\<lparr>sys_world := w, sys_pc := (sys_pc S2)(3 := Outside),
    sys_owned := (sys_owned S2)(3 := gained (MallocCall 4) 4104 (heap_memory w) (sys_owned S2 3)),
    sys_results := (3, MallocCall 4, 4104) # sys_results S2\<rparr>"
  have run: "one_block_run full = S3\<lparr>sys_world := (sys_world S3)\<lparr>heap_memory := (heap_memory (sys_world S3))(unat (4104::u64) + 1 := 7)\<rparr>,
           sys_owned := (sys_owned S3)(3 := (sys_owned S3 3)(4104 \<mapsto> [0, 0, 0, 0][1 := 7]))\<rparr>"
    by (simp only: one_block_run_def Let_def S3_def S2_def S1_def w_def)
  have "heap_step ?E empty_heap S1"
    unfolding S1_def by (rule heap_step.enter) (simp_all add: one_block_defs)
  moreover have "heap_step ?E S1 S2"
    unfolding S2_def by (rule heap_step.work) (simp_all add: S1_def one_block_defs Let_def)
  moreover have "heap_step ?E S2 S3"
    unfolding S3_def w_def by (rule heap_step.leave [where v = 4104]) (simp_all add: S2_def S1_def one_block_defs Let_def)
  moreover have "heap_step ?E S3 (one_block_run full)"
    unfolding run
    by (rule heap_step.poke)
      (simp_all add: S3_def S2_def S1_def w_def one_block_defs Let_def gained_def payload_def FS_ALLOCATOR_ERROR_def upt_four)
  ultimately show ?thesis by (meson converse_rtranclp_into_rtranclp r_into_rtranclp)
qed

theorem fiber_heaps_isolated_witness:
  "sys_owned (one_block_run False) 3 4104 = Some [0, 7, 0, 0] \<and>
     payload (heap_memory (sys_world (one_block_run False))) 4104 4 = [0, 7, 0, 0]"
proof -
  have own: "sys_owned (one_block_run False) 3 4104 = Some [0, 7, 0, 0]"
    by (simp add: one_block_run_def Let_def)
  moreover have "payload (heap_memory (sys_world (one_block_run False))) 4104 (length [0, 7, 0, 0 :: u8]) = [0, 7, 0, 0]"
    using fiber_heaps_isolated [OF one_block_build_ok one_block_ok empty_heap_start one_block_run_steps] own by blast
  ultimately show ?thesis by (simp add: numeral_eq_Suc)
qed

end
