(* ===== verification/Heap_Library.thy ===== *)
theory Heap_Library
  imports Guest_Heap
begin

text \<open>
  The C library functions of \<open>platform/allocator.c\<close> as one fiber sees them while others run: what a call returns, what it
  does to the fiber's own blocks and their contents, the error codes, and when it returns at all.
\<close>

section \<open>A call completes\<close>

text \<open>What a fiber knows of the heap: the pool is well formed and the blocks it owns hold its bytes. Other fibers may do
  anything that keeps this for the blocks it owns.\<close>

definition fiber_view :: "tlsf_view \<Rightarrow> (u64 \<rightharpoonup> u8 list) \<Rightarrow> heap_world \<Rightarrow> bool" where
  "fiber_view V own w \<longleftrightarrow> pool_ok V w \<and> (\<forall>p bs. own p = Some bs \<longrightarrow> block_held (live_blocks V w) (heap_memory w) p bs)"

definition undisturbed :: "tlsf_view \<Rightarrow> interference \<Rightarrow> (u64 \<rightharpoonup> u8 list) \<Rightarrow> nat \<Rightarrow> bool" where
  "undisturbed V env own k \<longleftrightarrow> (\<forall>j \<ge> k. \<forall>w. fiber_view V own w \<longrightarrow> fiber_view V own (env j w))"

lemma fiber_view_dom: "fiber_view V own w \<Longrightarrow> dom own \<subseteq> dom (live_blocks V w)"
  by (auto simp: fiber_view_def block_held_def)

text \<open>One attempt: it finds the lock taken and changes nothing, or completes.\<close>

lemma run_heap_call_effect:
  assumes ok: "heap_build_ok E" "tlsf_ok E V" and view: "fiber_view V own w" and allowed: "call_allowed c (dom own)"
    and run: "run_heap_call E c w = (v, w')"
  shows "if fst (fs_try_lock E w)
     then v \<noteq> FS_ALLOCATOR_BUSY \<and> v \<noteq> FS_ALLOCATOR_ERROR \<and> pool_ok V w' \<and> call_effect c (live_blocks V w) (live_blocks V w') v \<and>
       keeps_payload (live_blocks V w) (live_blocks V w') (heap_memory w) (heap_memory w')
     else v = FS_ALLOCATOR_BUSY \<and> w' = w"
proof -
  obtain taken w1 where lock: "fs_try_lock E w = (taken, w1)" by (meson surj_pair)
  show ?thesis
  proof (cases taken)
    case False
    then show ?thesis using run lock try_lock_busy [OF ok(1), of w w1] by (simp add: heap_call_island)
  next
    case True
    then have taken: "fs_try_lock E w = (True, w1)" using lock by simp
    note got = try_lock_takes [OF ok(1) taken]
    note views = same_heap_views [OF got(3)]
    obtain u w2 where body: "heap_body E c w1 = (u, w2)" by (meson surj_pair)
    have pool: "pool_ok V w1" using view views by (simp add: fiber_view_def)
    have allowed': "call_allowed c (dom (live_blocks V w1))"
      using call_allowed_mono [OF allowed fiber_view_dom [OF view]] views by simp
    have effect: "pool_ok V w2" "call_effect c (live_blocks V w1) (live_blocks V w2) u"
      "keeps_payload (live_blocks V w1) (live_blocks V w2) (heap_memory w1) (heap_memory w2)" "same_lock w1 w2"
      using heap_body_effect [OF ok(2) pool allowed' body] by auto
    note sentinel = no_sentinel [OF ok(1) pool_blocks_ok [OF ok(2) pool] pool_blocks_ok [OF ok(2) effect(1)] allowed' effect(2)]
    have "locked E w2" using got(2) effect(4) by (simp add: locked_def same_lock_def)
    then obtain w3 where out: "fs_unlock E w2 = (True, w3)" "same_heap w2 w3"
      using unlock_releases [OF ok(1)] by blast
    then have "v = u" "w' = w3"
      using run lock True body by (auto simp: heap_call_island unlock_with_def)
    then show ?thesis
      using sentinel effect views same_heap_views [OF out(2)] taken by simp
  qed
qed

definition completes :: "tlsf_view \<Rightarrow> heap_call \<Rightarrow> (u64 \<rightharpoonup> u8 list) \<Rightarrow> heap_run \<Rightarrow> u64 \<Rightarrow> heap_run \<Rightarrow> bool" where
  "completes V c own r v r' \<longleftrightarrow>
     v \<noteq> FS_ALLOCATOR_ERROR \<and> errno r' = errno r \<and> attempts r < attempts r' \<and> pool_ok V (heap r') \<and>
     (\<exists>w. fiber_view V own w \<and> call_effect c (live_blocks V w) (live_blocks V (heap r')) v \<and>
        keeps_payload (live_blocks V w) (live_blocks V (heap r')) (heap_memory w) (heap_memory (heap r')))"

lemma undisturbed_later: "undisturbed V env own k \<Longrightarrow> k \<le> j \<Longrightarrow> undisturbed V env own j"
  by (auto simp: undisturbed_def)

lemma retry_completes:
  assumes ok: "heap_build_ok E" "tlsf_ok E V" and allowed: "call_allowed c (dom own)"
    and run: "retry env (run_heap_call E c) r = Some (v, r')"
    and view: "fiber_view V own (heap r)" and others: "undisturbed V env own (attempts r)"
  shows "completes V c own r v r'"
proof -
  have "env' = env \<and> call = run_heap_call E c \<longrightarrow> fiber_view V own (heap r) \<longrightarrow> undisturbed V env own (attempts r) \<longrightarrow>
      completes V c own r (fst y) (snd y)" if "retry env' call r = Some y" for env' call r y
  proof (rule retry.raw_induct [OF _ that], goal_cases)
    case (1 retry' env' call r y)
    show ?case
    proof (intro impI, elim conjE)
      assume [simp]: "env' = env" "call = run_heap_call E c"
        and view: "fiber_view V own (heap r)" and others: "undisturbed V env own (attempts r)"
      obtain u w where call: "run_heap_call E c (env (attempts r) (heap r)) = (u, w)" by (meson surj_pair)
      have view': "fiber_view V own (env (attempts r) (heap r))" using view others by (simp add: undisturbed_def)
      note effect = run_heap_call_effect [OF ok view' allowed call]
      let ?r = "r\<lparr>attempts := Suc (attempts r), heap := w\<rparr>"
      show "completes V c own r (fst y) (snd y)"
      proof (cases "u = FS_ALLOCATOR_BUSY")
        case True
        then have "retry' env (run_heap_call E c) ?r = Some y" "w = env (attempts r) (heap r)"
          using 1(2) call effect by (auto split: if_splits)
        then have "completes V c own ?r (fst y) (snd y)"
          using 1(1) view' undisturbed_later [OF others, of "Suc (attempts r)"] by auto
        then show ?thesis by (auto simp: completes_def)
      next
        case False
        then have "y = (u, ?r)" using 1(2) call by auto
        then show ?thesis using False effect view' by (auto simp: completes_def split: if_splits)
      qed
    qed
  qed
  from this [OF run] view others show ?thesis by simp
qed

lemma completed_call:
  assumes ok: "heap_build_ok E" "tlsf_ok E V" and allowed: "call_allowed c (dom own)"
    and run: "completed env (run_heap_call E c) r = Some (res, r')"
    and view: "fiber_view V own (heap r)" and others: "undisturbed V env own (attempts r)"
  obtains v where "res = Returns v" "completes V c own r v r'"
proof -
  obtain v where v: "retry env (run_heap_call E c) r = Some (v, r')"
    "res = (if v = FS_ALLOCATOR_ERROR then Exits CAPSULE_ERROR_ALLOCATOR_CORRUPT else Returns v)"
    using run by (auto simp: completed_def split: option.splits)
  have "completes V c own r v r'" by (rule retry_completes [OF ok allowed v(1) view others])
  then show thesis using that v(2) by (simp add: completes_def)
qed

lemma run_heap_call_simps:
  "bpf_allocator_malloc E n = run_heap_call E (MallocCall n)" "bpf_allocator_free E p = run_heap_call E (FreeCall p)"
  "bpf_allocator_size E p = run_heap_call E (SizeCall p)" "bpf_allocator_memalign E a n = run_heap_call E (MemalignCall a n)"
  by auto

lemma alloc_view:
  assumes did: "completes V c own r v r'" and c: "requested c = Some n"
  shows "v = 0 \<Longrightarrow> fiber_view V own (heap r')"
    "v \<noteq> 0 \<Longrightarrow> own v = None \<and> fiber_view V (own(v \<mapsto> payload (heap_memory (heap r')) v (unat n))) (heap r')"
proof -
  obtain w where w: "fiber_view V own w" "allocates (live_blocks V w) (live_blocks V (heap r')) n v"
    "keeps_payload (live_blocks V w) (live_blocks V (heap r')) (heap_memory w) (heap_memory (heap r'))" "pool_ok V (heap r')"
    using did c by (cases c) (auto simp: completes_def)
  have held: "block_held (live_blocks V (heap r')) (heap_memory (heap r')) p bs" if own: "own p = Some bs" for p bs
  proof (rule block_held_keeps [OF _ w(3)])
    show "block_held (live_blocks V w) (heap_memory w) p bs" using w(1) own by (simp add: fiber_view_def)
    then show "live_blocks V (heap r') p = live_blocks V w p"
      using w(2) by (auto simp: allocates_def block_held_def split: if_splits)
  qed
  show "v = 0 \<Longrightarrow> fiber_view V own (heap r')"
    using held w(4) by (simp add: fiber_view_def)
  assume v: "v \<noteq> 0"
  then obtain s where s: "live_blocks V w v = None" "unat n \<le> s" "live_blocks V (heap r') = (live_blocks V w)(v \<mapsto> s)"
    using w(2) by (auto simp: allocates_def)
  then have "own v = None" using fiber_view_dom [OF w(1)] by auto
  moreover have "block_held (live_blocks V (heap r')) (heap_memory (heap r')) v (payload (heap_memory (heap r')) v (unat n))"
    using s by (simp add: block_held_def)
  ultimately show "own v = None \<and> fiber_view V (own(v \<mapsto> payload (heap_memory (heap r')) v (unat n))) (heap r')"
    using held w(4) by (auto simp: fiber_view_def)
qed

lemma free_view:
  assumes "completes V (FreeCall p) own r v r'"
  shows "fiber_view V (own(p := None)) (heap r')"
proof -
  obtain w where w: "fiber_view V own w" "live_blocks V (heap r') = (live_blocks V w)(p := None)"
    "keeps_payload (live_blocks V w) (live_blocks V (heap r')) (heap_memory w) (heap_memory (heap r'))" "pool_ok V (heap r')"
    using assms by (auto simp: completes_def)
  have "block_held (live_blocks V (heap r')) (heap_memory (heap r')) q bs" if "(own(p := None)) q = Some bs" for q bs
    using that w by (intro block_held_keeps [OF _ w(3)]) (auto simp: fiber_view_def split: if_splits)
  then show ?thesis using w(4) by (auto simp: fiber_view_def)
qed

lemma size_view:
  assumes "completes V (SizeCall p) own r v r'" "own p = Some bs" "tlsf_ok E V" "heap_build_ok E"
  shows "fiber_view V own (heap r')" "live_blocks V (heap r') p = Some (unat v)" "length bs \<le> unat v"
proof -
  obtain w where w: "fiber_view V own w" "live_blocks V (heap r') = live_blocks V w" "v = of_nat (the (live_blocks V w p))"
    "keeps_payload (live_blocks V w) (live_blocks V (heap r')) (heap_memory w) (heap_memory (heap r'))" "pool_ok V (heap r')"
    using assms(1) by (auto simp: completes_def)
  show "fiber_view V own (heap r')"
    using w block_held_keeps [OF _ w(4)] by (auto simp: fiber_view_def)
  obtain s where s: "live_blocks V w p = Some s" "length bs \<le> s"
    using w(1) assms(2) by (auto simp: fiber_view_def block_held_def)
  have "s < 18446744073709551616"
    using pool_blocks_ok [OF assms(3), of w] w(1) s(1) assms(4)
    by (fastforce simp: fiber_view_def blocks_ok_def heap_build_ok_def)
  then have "unat v = s" using w(3) s(1) by (simp add: unat_of_nat)
  then show "live_blocks V (heap r') p = Some (unat v)" "length bs \<le> unat v" using s w(2) by auto
qed

text \<open>Writing within a block a fiber owns.\<close>

lemma change_in_block:
  assumes ok: "tlsf_ok E V" and view: "fiber_view V (own(q \<mapsto> bs)) w"
    and same: "\<And>x. x \<notin> block_span q (length bs) \<Longrightarrow> m x = heap_memory w x"
  shows "fiber_view V (own(q \<mapsto> payload m q (length bs))) (w\<lparr>heap_memory := m\<rparr>)"
proof -
  obtain R B where V: "V = (R, B)" by (cases V)
  have pool: "pool_ok V w" and q: "block_held (live_blocks V w) (heap_memory w) q bs"
    using view by (auto simp: fiber_view_def)
  obtain s where s: "live_blocks V w q = Some s" "length bs \<le> s" using q by (auto simp: block_held_def)
  then have t: "fs_tlsf w \<noteq> 0" "R (heap_memory w) (fs_tlsf w)" "B (heap_memory w) q = Some s"
    using pool by (auto simp: V pool_ok_def live_blocks_def split: if_splits)
  have "outside_blocks (B (heap_memory w)) (heap_memory w) m"
    unfolding outside_blocks_def
  proof (intro allI impI)
    fix x assume "\<forall>p s. B (heap_memory w) p = Some s \<longrightarrow> x \<notin> block_span p s"
    then have "x \<notin> block_span q s" using t(3) by blast
    then show "m x = heap_memory w x" using s(2) by (intro same) (auto simp: block_span_def)
  qed
  from tlsf_okD(7) [OF ok [unfolded V] t(2) this] have live: "live_blocks V (w\<lparr>heap_memory := m\<rparr>) = live_blocks V w"
    "pool_ok V (w\<lparr>heap_memory := m\<rparr>)"
    using t(1) by (simp_all add: V pool_ok_def live_blocks_def)
  have "block_held (live_blocks V w) m p cs" if p: "own p = Some cs" "p \<noteq> q" for p cs
  proof -
    have held: "block_held (live_blocks V w) (heap_memory w) p cs" using view p by (simp add: fiber_view_def)
    then have "block_span p (length cs) \<inter> block_span q (length bs) = {}"
      using held_apart [OF pool_blocks_ok [OF ok pool] _ q p(2)] by blast
    then have "payload m p (length cs) = payload (heap_memory w) p (length cs)"
      using same by (auto simp: payload_def block_span_def)
    then show ?thesis using held by (simp add: block_held_def)
  qed
  then show ?thesis using live s by (auto simp: fiber_view_def block_held_def)
qed

lemma on_return_Returns [simp]: "on_return (Some (Returns x, r)) f = f x r"
  by (simp add: on_return_def)

lemma on_return_elim:
  assumes "on_return c f = Some (res, r')"
  obtains (exits) code where "c = Some (Exits code, r')" "res = Exits code"
    | (returns) x r where "c = Some (Returns x, r)" "f x r = Some (res, r')"
  using assms by (auto simp: on_return_def split: option.splits guest.splits)

text \<open>A fiber's run that starts from what it knows and stays undisturbed.\<close>

definition quiet_run :: "tlsf_view \<Rightarrow> interference \<Rightarrow> (u64 \<rightharpoonup> u8 list) \<Rightarrow> heap_run \<Rightarrow> bool" where
  "quiet_run V env own r \<longleftrightarrow> fiber_view V own (heap r) \<and> undisturbed V env own (attempts r)"

lemma completed_on_return:
  assumes ok: "heap_build_ok E" "tlsf_ok E V" and "call_allowed c (dom own)" "quiet_run V env own r"
    and run: "on_return (completed env (run_heap_call E c) r) f = Some (res, r')"
  obtains v r1 where "completes V c own r v r1" "f v r1 = Some (res, r')"
  using run
proof (cases rule: on_return_elim)
  case (exits code)
  then show ?thesis
    using completed_call [OF ok assms(3) exits(1)] assms(4) by (auto simp: quiet_run_def)
next
  case (returns x r1)
  then show ?thesis
    using completed_call [OF ok assms(3) returns(1)] assms(4) that by (auto simp: quiet_run_def)
qed

definition allocated :: "tlsf_view \<Rightarrow> (u64 \<rightharpoonup> u8 list) \<Rightarrow> nat \<Rightarrow> int \<Rightarrow> heap_run \<Rightarrow> u64 \<Rightarrow> heap_run \<Rightarrow> bool" where
  "allocated V own n e r p r' \<longleftrightarrow>
     (if p = 0 then errno r' = e \<and> fiber_view V own (heap r')
      else errno r' = errno r \<and> own p = None \<and> fiber_view V (own(p \<mapsto> payload (heap_memory (heap r')) p n)) (heap r'))"

lemma malloc_effect:
  assumes ok: "heap_build_ok E" "tlsf_ok E V" and quiet: "quiet_run V env own r" and run: "malloc E env n r = Some (res, r')"
  obtains p where "res = Returns p" "attempts r < attempts r'" "allocated V own (unat n) ENOMEM r p r'"
proof -
  obtain v r1 where v: "completes V (MallocCall n) own r v r1" "Some (Returns v, if v = 0 then r1\<lparr>errno := ENOMEM\<rparr> else r1) = Some (res, r')"
    using completed_on_return [OF ok _ quiet run [unfolded malloc_def run_heap_call_simps]] by auto
  show thesis
    using that [of v] v alloc_view [OF v(1)] by (auto simp: completes_def allocated_def)
qed

lemma free_effect:
  assumes ok: "heap_build_ok E" "tlsf_ok E V" and quiet: "quiet_run V env own r" and p: "own p = Some bs" "p \<noteq> 0"
    and run: "free E env p r = Some (res, r')"
  shows "res = Returns () \<and> errno r' = errno r \<and> fiber_view V (own(p := None)) (heap r')"
proof -
  obtain v r1 where v: "completes V (FreeCall p) own r v r1" "Some (Returns (), r1) = Some (res, r')"
    using completed_on_return [OF ok _ quiet run [unfolded free_def run_heap_call_simps if_not_P [OF p(2)]]] p(1) by auto
  then show ?thesis using free_view [OF v(1)] by (auto simp: completes_def)
qed

lemma size_effect:
  assumes ok: "heap_build_ok E" "tlsf_ok E V" and quiet: "quiet_run V env own r" and p: "own p = Some bs" "p \<noteq> 0"
    and run: "malloc_usable_size E env p r = Some (res, r')"
  obtains v where "res = Returns v" "errno r' = errno r" "attempts r < attempts r'" "fiber_view V own (heap r')"
    "live_blocks V (heap r') p = Some (unat v)" "length bs \<le> unat v"
proof -
  have "call_allowed (SizeCall p) (dom own)" using p by auto
  then obtain v where "res = Returns v" "completes V (SizeCall p) own r v r'"
    using completed_call [OF ok, of "SizeCall p" own env r res r'] quiet run p
    unfolding malloc_usable_size_def run_heap_call_simps quiet_run_def by auto
  note done_size = this
  show thesis using that done_size size_view [OF done_size(2) p(1) ok(2,1)] by (auto simp: completes_def)
qed

lemma owned_not_null: "tlsf_ok E V \<Longrightarrow> fiber_view V own w \<Longrightarrow> own p = Some bs \<Longrightarrow> p \<noteq> 0"
  by (frule pool_blocks_ok [of E V w]) (auto simp: fiber_view_def block_held_def blocks_ok_def)

section \<open>Contents and errors\<close>

lemma payload_nth: "i < s \<Longrightarrow> payload m p s ! i = m (unat p + i)"
  by (simp add: payload_def)

lemma copied_payload:
  assumes "k \<le> n"
  shows "take k (payload (copy_bytes m q p k) q n) = payload m p k"
  using assms by (intro nth_equalityI) (auto simp: payload_nth copy_bytes_def)

lemma filled_payload: "payload (fill_bytes m p v n) p n = replicate n v"
  by (rule nth_equalityI) (auto simp: payload_nth fill_bytes_def)

lemma fill_outside: "x \<notin> block_span p n \<Longrightarrow> fill_bytes m p v n x = m x"
  by (auto simp: fill_bytes_def block_span_def)

lemma set_heap_simps [simp]:
  "attempts (set_heap m r) = attempts r" "errno (set_heap m r) = errno r" "heap (set_heap m r) = (heap r)\<lparr>heap_memory := m\<rparr>"
  by (simp_all add: set_heap_def)

lemma copy_view:
  assumes ok: "tlsf_ok E V" and view: "fiber_view V (own(q \<mapsto> payload (heap_memory w) q n)) w" and p: "own p = Some bs" and qp: "q \<noteq> p"
    and sizes: "length bs \<le> k" "k < n"
  shows "fiber_view V (own(q \<mapsto> payload (copy_bytes (heap_memory w) q p k) q n)) (w\<lparr>heap_memory := copy_bytes (heap_memory w) q p k\<rparr>)"
    "take (length bs) (payload (copy_bytes (heap_memory w) q p k) q n) = bs"
proof -
  show "fiber_view V (own(q \<mapsto> payload (copy_bytes (heap_memory w) q p k) q n)) (w\<lparr>heap_memory := copy_bytes (heap_memory w) q p k\<rparr>)"
  proof -
    have "x \<notin> block_span q n \<Longrightarrow> copy_bytes (heap_memory w) q p k x = heap_memory w x" for x
      using sizes(2) by (auto simp: copy_bytes_def block_span_def)
    then show ?thesis using change_in_block [OF ok view, of "copy_bytes (heap_memory w) q p k"] by simp
  qed
  have "payload (heap_memory w) p (length bs) = bs"
    using view p qp by (simp add: fiber_view_def block_held_def)
  moreover have "take k (payload (copy_bytes (heap_memory w) q p k) q n) = payload (heap_memory w) p k"
    using copied_payload [of k n] sizes(2) by simp
  ultimately show "take (length bs) (payload (copy_bytes (heap_memory w) q p k) q n) = bs"
    using payload_prefix [OF sizes(1), of "heap_memory w" p] sizes(1) by (metis min.absorb1 take_take)
qed


lemma calloc_overflow: "sz \<noteq> 0 \<and> n > (-1) div sz \<longleftrightarrow> 2 ^ 64 \<le> unat n * unat (sz :: u64)"
proof (cases "sz = 0")
  case False
  then have "0 < unat sz" by (simp add: unat_gt_0)
  moreover have "unat ((-1 :: u64) div sz) = (2 ^ 64 - 1) div unat sz"
    by (simp add: unat_div unsigned_minus_1_eq_mask mask_eq_exp_minus_1)
  ultimately show ?thesis
    using False by (simp add: word_less_nat_alt div_less_iff_less_mult) linarith
qed simp

text \<open>C14: \<open>calloc\<close> clears exactly the requested bytes. While others leave the fiber's blocks alone, a call that returns gives
  a fresh block of \<open>n * sz\<close> zero bytes, the product taken without wrap-around, or fails with \<open>ENOMEM\<close> and changes nothing of
  the fiber's; a product that does not fit 64 bits always fails.\<close>

theorem calloc_clears_product:
  assumes ok: "heap_build_ok E" "tlsf_ok E V" and quiet: "quiet_run V env own r" and run: "calloc E env n sz r = Some (res, r')"
  shows "\<exists>p. res = Returns p \<and> (2 ^ 64 \<le> unat n * unat sz \<longrightarrow> p = 0) \<and>
     (if p = 0 then errno r' = ENOMEM \<and> fiber_view V own (heap r')
      else errno r' = errno r \<and> own p = None \<and> fiber_view V (own(p \<mapsto> replicate (unat n * unat sz) 0)) (heap r'))"
proof (cases "2 ^ 64 \<le> unat n * unat sz")
  case True
  then show ?thesis
    using run quiet calloc_overflow [of sz n] by (auto simp: calloc_def quiet_run_def)
next
  case False
  then have size: "unat (n * sz) = unat n * unat sz" by (simp add: unat_word_ariths)
  from run False obtain q0 r1 where malloc_run: "malloc E env (n * sz) r = Some (q0, r1)"
    using calloc_overflow [of sz n] by (auto simp: calloc_def on_return_def split: option.splits)
  obtain q where q: "q0 = Returns q" "allocated V own (unat (n * sz)) ENOMEM r q r1"
    using malloc_effect [OF ok quiet malloc_run] by blast
  let ?m = "fill_bytes (heap_memory (heap r1)) q 0 (unat (n * sz))"
  have result: "res = Returns q" "r' = (if q = 0 then r1 else set_heap ?m r1)"
    using run False calloc_overflow [of sz n] malloc_run q(1) by (auto simp: calloc_def)
  have "fiber_view V (own(q \<mapsto> payload ?m q (unat (n * sz)))) ((heap r1)\<lparr>heap_memory := ?m\<rparr>)" if "q \<noteq> 0"
    using change_in_block [OF ok(2), of own q "payload (heap_memory (heap r1)) q (unat (n * sz))" "heap r1" ?m] q(2) that
    by (simp add: allocated_def fill_outside)
  then show ?thesis
    using result q size False by (auto simp: allocated_def filled_payload)
qed

text \<open>\<open>posix_memalign\<close> reports through its result and leaves \<open>errno\<close> alone.\<close>

lemma memalign_effect:
  assumes ok: "heap_build_ok E" "tlsf_ok E V" and quiet: "quiet_run V env own r" and run: "memalign E env a n r = Some (res, r')"
  obtains p where "res = Returns p" "p \<noteq> 0 \<Longrightarrow> p mod a = 0"
    "allocated V own (unat n) (if a = 0 \<or> a AND (a - 1) \<noteq> 0 then EINVAL else ENOMEM) r p r'"
proof (cases "a = 0 \<or> a AND (a - 1) \<noteq> 0 \<or> a > tlsf_block_size_max (heap_tlsf E)")
  case True
  then show thesis
    using that [of 0] run quiet by (auto simp: memalign_def quiet_run_def allocated_def split: if_splits)
next
  case False
  then have a: "call_allowed (MemalignCall a n) (dom own)" by simp
  have "on_return (completed env (run_heap_call E (MemalignCall a n)) r)
     (\<lambda>result r. Some (Returns result, if result = 0 then r\<lparr>errno := ENOMEM\<rparr> else r)) = Some (res, r')"
    using run False unfolding memalign_def run_heap_call_simps by (simp only: if_False de_Morgan_disj not_not simp_thms)
  from completed_on_return [OF ok a quiet this] obtain v r1 where v: "completes V (MemalignCall a n) own r v r1"
    "Some (Returns v, if v = 0 then r1\<lparr>errno := ENOMEM\<rparr> else r1) = Some (res, r')"
    by blast
  have "v mod a = 0" using v(1) by (auto simp: completes_def)
  then show thesis
    using that [of v] v alloc_view [OF v(1)] a by (auto simp: completes_def allocated_def)
qed

lemma posix_memalign_effect:
  assumes ok: "heap_build_ok E" "tlsf_ok E V" and quiet: "quiet_run V env own r" and run: "posix_memalign E env a n r = Some (res, r')"
  shows "\<exists>e q. res = Returns (e, q) \<and> errno r' = errno r \<and>
     (case q of
        None \<Rightarrow> e = (if a = 0 \<or> a AND (a - 1) \<noteq> 0 \<or> a mod 8 \<noteq> 0 then EINVAL else ENOMEM) \<and> fiber_view V own (heap r')
      | Some p \<Rightarrow> e = 0 \<and> p \<noteq> 0 \<and> p mod a = 0 \<and> own p = None \<and>
          fiber_view V (own(p \<mapsto> payload (heap_memory (heap r')) p (unat n))) (heap r'))"
proof (cases "a = 0 \<or> a AND (a - 1) \<noteq> 0 \<or> a mod 8 \<noteq> 0")
  case True
  then have "res = Returns (EINVAL, None)" "r' = r" using run by (auto simp: posix_memalign_def)
  then show ?thesis using quiet True by (simp add: quiet_run_def)
next
  case False
  with run obtain m0 r1 where aligned: "memalign E env a n r = Some (m0, r1)"
    by (auto simp: posix_memalign_def on_return_def split: option.splits)
  obtain p where p: "m0 = Returns p" "p \<noteq> 0 \<Longrightarrow> p mod a = 0"
    "allocated V own (unat n) (if a = 0 \<or> a AND (a - 1) \<noteq> 0 then EINVAL else ENOMEM) r p r1"
    using memalign_effect [OF ok quiet aligned] by blast
  then show ?thesis
    using run False aligned by (cases "p = 0") (auto simp: posix_memalign_def allocated_def Let_def ENOMEM_def EINVAL_def, metis p(2))
qed

section \<open>When a call returns\<close>

text \<open>The world each attempt meets as long as all before it were refused.\<close>

fun attempt_world :: "interference \<Rightarrow> heap_run \<Rightarrow> nat \<Rightarrow> heap_world" where
  "attempt_world env r 0 = env (attempts r) (heap r)"
| "attempt_world env r (Suc k) = env (attempts r + Suc k) (attempt_world env r k)"

lemma attempt_world_shift:
  "attempt_world env (r\<lparr>attempts := Suc (attempts r), heap := env (attempts r) (heap r)\<rparr>) k = attempt_world env r (Suc k)"
  by (induction k) auto

lemma retry_once:
  assumes ok: "heap_build_ok E" "tlsf_ok E V" and allowed: "call_allowed c (dom own)" and quiet: "quiet_run V env own r"
  shows "fst (fs_try_lock E (env (attempts r) (heap r))) \<Longrightarrow> retry env (run_heap_call E c) r \<noteq> None"
    "\<not> fst (fs_try_lock E (env (attempts r) (heap r))) \<Longrightarrow> retry env (run_heap_call E c) r =
       retry env (run_heap_call E c) (r\<lparr>attempts := Suc (attempts r), heap := env (attempts r) (heap r)\<rparr>)"
proof -
  obtain v w where call: "run_heap_call E c (env (attempts r) (heap r)) = (v, w)" by (meson surj_pair)
  have "fiber_view V own (env (attempts r) (heap r))" using quiet by (simp add: quiet_run_def undisturbed_def)
  note effect = run_heap_call_effect [OF ok this allowed call]
  show "fst (fs_try_lock E (env (attempts r) (heap r))) \<Longrightarrow> retry env (run_heap_call E c) r \<noteq> None"
    "\<not> fst (fs_try_lock E (env (attempts r) (heap r))) \<Longrightarrow> retry env (run_heap_call E c) r =
       retry env (run_heap_call E c) (r\<lparr>attempts := Suc (attempts r), heap := env (attempts r) (heap r)\<rparr>)"
    using effect call by (simp_all add: retry.simps [of env "run_heap_call E c" r])
qed

lemma quiet_next: "quiet_run V env own r \<Longrightarrow> quiet_run V env own (r\<lparr>attempts := Suc (attempts r), heap := env (attempts r) (heap r)\<rparr>)"
  by (auto simp: quiet_run_def undisturbed_def)

lemma retry_returns_iff:
  assumes ok: "heap_build_ok E" "tlsf_ok E V" and allowed: "call_allowed c (dom own)" and quiet: "quiet_run V env own r"
  shows "retry env (run_heap_call E c) r \<noteq> None \<longleftrightarrow> (\<exists>k. fst (fs_try_lock E (attempt_world env r k)))"
proof
  assume "\<exists>k. fst (fs_try_lock E (attempt_world env r k))"
  then obtain k where "fst (fs_try_lock E (attempt_world env r k))" ..
  then show "retry env (run_heap_call E c) r \<noteq> None"
    using quiet
  proof (induction k arbitrary: r)
    case 0
    then show ?case using retry_once(1) [OF ok allowed] by simp
  next
    case (Suc k)
    then show ?case
      using retry_once [OF ok allowed Suc.prems(2)] Suc.IH [OF _ quiet_next [OF Suc.prems(2)]] attempt_world_shift [of env r k] by metis
  qed
next
  have "env' = env \<and> call = run_heap_call E c \<longrightarrow> quiet_run V env own r \<longrightarrow> (\<exists>k. fst (fs_try_lock E (attempt_world env r k)))"
    if "retry env' call r = Some y" for env' call r y
  proof (rule retry.raw_induct [OF _ that], goal_cases)
    case (1 retry' env' call r y)
    show ?case
    proof (intro impI, elim conjE)
      assume [simp]: "env' = env" "call = run_heap_call E c" and quiet: "quiet_run V env own r"
      obtain v w where call: "run_heap_call E c (env (attempts r) (heap r)) = (v, w)" by (meson surj_pair)
      have "fiber_view V own (env (attempts r) (heap r))" using quiet by (simp add: quiet_run_def undisturbed_def)
      note effect = run_heap_call_effect [OF ok this allowed call]
      show "\<exists>k. fst (fs_try_lock E (attempt_world env r k))"
      proof (cases "fst (fs_try_lock E (env (attempts r) (heap r)))")
        case True
        then show ?thesis by (intro exI [of _ 0]) simp
      next
        case False
        then have "retry' env (run_heap_call E c) (r\<lparr>attempts := Suc (attempts r), heap := env (attempts r) (heap r)\<rparr>) = Some y"
          using 1(2) call effect by auto
        then obtain k where "fst (fs_try_lock E (attempt_world env (r\<lparr>attempts := Suc (attempts r), heap := env (attempts r) (heap r)\<rparr>) k))"
          using 1(1) quiet_next [OF quiet] by blast
        then show ?thesis unfolding attempt_world_shift by blast
      qed
    qed
  qed
  moreover assume "retry env (run_heap_call E c) r \<noteq> None"
  ultimately show "\<exists>k. fst (fs_try_lock E (attempt_world env r k))" using quiet by blast
qed

text \<open>C15: A library call returns exactly when one of its attempts can take the lock. While others leave the fiber's blocks
  alone, \<open>malloc\<close> returns if and only if some attempt of its retry loop meets a lock that can be taken; and when it
  returns it does not end the capsule.\<close>

theorem malloc_returns_iff:
  assumes ok: "heap_build_ok E" "tlsf_ok E V" and quiet: "quiet_run V env own r"
  shows "(\<exists>p r'. malloc E env n r = Some (Returns p, r')) \<longleftrightarrow> (\<exists>k. fst (fs_try_lock E (attempt_world env r k)))"
proof -
  have "(\<exists>v r'. malloc E env n r = Some (Returns v, r')) \<longleftrightarrow> retry env (run_heap_call E (MallocCall n)) r \<noteq> None"
  proof (cases "retry env (run_heap_call E (MallocCall n)) r")
    case (Some y)
    then have "completed env (run_heap_call E (MallocCall n)) r \<noteq> None" by (auto simp: completed_def split: prod.splits)
    then have "malloc E env n r \<noteq> None"
      unfolding malloc_def run_heap_call_simps by (auto simp: on_return_def split: guest.splits)
    then show ?thesis using malloc_effect [OF ok quiet] Some by fastforce
  qed (unfold malloc_def run_heap_call_simps, simp add: completed_def on_return_def)
  then show ?thesis
    using retry_returns_iff [OF ok _ quiet, of "MallocCall n"] by simp
qed

section \<open>An instance\<close>

text \<open>A fiber alone, with the one-block pool and a lock that is busy at its first attempt.\<close>

definition busy_once :: interference where
  "busy_once k w = w\<lparr>fs_allocator_lock_word := (if k = 0 then 1 else 0)\<rparr>"

definition first_run :: heap_run where
  "first_run = \<lparr>attempts = 0, errno = 0, heap = sys_world empty_heap\<rparr>"

lemma busy_once_undisturbed: "undisturbed one_block_view busy_once own k"
  by (auto simp: undisturbed_def fiber_view_def busy_once_def pool_ok_def live_blocks_def)

lemma first_run_quiet: "quiet_run one_block_view busy_once Map.empty first_run"
  by (simp add: quiet_run_def busy_once_undisturbed fiber_view_def pool_ok_def first_run_def empty_heap_def)

lemmas heap_library_eval = one_block_defs first_run_def busy_once_def malloc_def calloc_def free_def realloc_def malloc_usable_size_def
  bpf_allocator_malloc_def bpf_allocator_free_def bpf_allocator_size_def on_return_def completed_def retry.simps
  FS_ALLOCATOR_BUSY_def FS_ALLOCATOR_ERROR_def

lemma first_malloc: "malloc (one_block_build True) busy_once 16 first_run = Some (Returns 4104,
     \<lparr>attempts = 2, errno = 0, heap = \<lparr>fs_tlsf = 4096, fs_allocator_lock_word = 0, fs_allocator_lease = Map.empty,
       heap_memory = (\<lambda>_. 0)(4096 := 1)\<rparr>\<rparr>)"
  by (simp add: heap_library_eval Let_def fun_upd_def)

theorem malloc_returns_iff_witness: "\<exists>k. fst (fs_try_lock (one_block_build True) (attempt_world busy_once first_run k))"
  using malloc_returns_iff [OF one_block_build_ok one_block_ok first_run_quiet, of True 16] first_malloc by blast

lemma first_calloc: "calloc (one_block_build True) busy_once 4 4 first_run = Some (Returns 4104,
     \<lparr>attempts = 2, errno = 0, heap = \<lparr>fs_tlsf = 4096, fs_allocator_lock_word = 0, fs_allocator_lease = Map.empty,
       heap_memory = fill_bytes ((\<lambda>_. 0)(4096 := 1)) 4104 0 16\<rparr>\<rparr>)"
  by (simp add: heap_library_eval Let_def set_heap_def fun_upd_def)

theorem calloc_clears_product_witness:
  "fiber_view one_block_view [4104 \<mapsto> replicate 16 0] \<lparr>fs_tlsf = 4096, fs_allocator_lock_word = 0, fs_allocator_lease = Map.empty,
     heap_memory = fill_bytes ((\<lambda>_. 0)(4096 := 1)) 4104 0 16\<rparr>"
  using calloc_clears_product [OF one_block_build_ok one_block_ok first_run_quiet first_calloc] by simp

definition second_run :: heap_run where
  "second_run = \<lparr>attempts = 2, errno = 0, heap = \<lparr>fs_tlsf = 4096, fs_allocator_lock_word = 0, fs_allocator_lease = Map.empty,
     heap_memory = fill_bytes ((\<lambda>_. 0)(4096 := 1)) 4104 0 16\<rparr>\<rparr>"

lemma second_realloc: "realloc (one_block_build True) busy_once 4104 100 second_run = Some (Returns 4104, second_run\<lparr>attempts := 3\<rparr>)"
  by (simp add: heap_library_eval second_run_def Let_def fun_upd_def fill_bytes_def)


end
