(* ===== verification/Region_Ids.thy ===== *)
theory Region_Ids
  imports Capsule_Abi
begin

text \<open>
  Packed region IDs: how \<open>PackRegionIds\<close> of \<open>src/src/pass/stackify.cpp\<close> replaces the provisional ID
  of every continuation state by a physical step in the low byte and a region index in the next
  sixteen bits, and how the balanced comparison trees of the generated dispatch code find the unit
  and the state an ID names.
\<close>

datatype state_kind = Entry | Backedge | Call | Yield | Setjmp

record 'r region_state =
  st_id :: u32
  st_root :: 'r
  st_kind :: state_kind

record 'r allocation_unit =
  au_states :: "'r region_state list"
  au_borrowed :: bool
  au_output_root :: nat

datatype pack_error = StepCount | LocalCount | DuplicateId

section \<open>Packing\<close>

text \<open>The comparison of the stable sort: entries first, then by provisional ID.\<close>

definition state_order :: "'r region_state \<Rightarrow> nat" where
  "state_order state = (if st_kind state = Entry then 0 else 2 ^ 32) + unat (st_id state)"

definition step_for_unit :: "nat \<Rightarrow> nat \<Rightarrow> nat \<Rightarrow> nat \<Rightarrow> 'r allocation_unit \<Rightarrow> nat \<Rightarrow> nat" where
  "step_for_unit scalar_step_count scalar_roots borrowed_roots scalar_units unit index =
     (if index < scalar_units then (if scalar_roots \<noteq> 0 then au_output_root unit else 0)
      else scalar_step_count + (if borrowed_roots \<noteq> 0 then au_output_root unit else 0))"

definition packed_id :: "nat \<Rightarrow> nat \<Rightarrow> u32" where
  "packed_id local step =
     push_bit BPF_CAPSULE_REGION_ID_STEP_BITS (word_of_nat local) OR word_of_nat step"

text \<open>One unit's loop over its sorted states. The first state of the result is the counter.\<close>

fun pack_states ::
  "nat \<Rightarrow> nat \<Rightarrow> (u32 \<rightharpoonup> u32) \<Rightarrow> 'r region_state list \<Rightarrow> pack_error + nat \<times> (u32 \<rightharpoonup> u32)" where
  "pack_states step local packed [] = Inr (local, packed)"
| "pack_states step local packed (state # states) =
     (if local \<ge> 2 ^ 16 then Inl LocalCount
      else if packed (st_id state) \<noteq> None then Inl DuplicateId
      else pack_states step (local + 1) (packed(st_id state \<mapsto> packed_id local step)) states)"

fun pack_units ::
  "(nat \<Rightarrow> 'r allocation_unit \<Rightarrow> nat) \<Rightarrow> nat \<Rightarrow> (nat \<Rightarrow> nat) \<Rightarrow> (u32 \<rightharpoonup> u32) \<Rightarrow> 'r allocation_unit list \<Rightarrow>
     pack_error + (u32 \<rightharpoonup> u32)" where
  "pack_units step_of index next packed [] = Inr packed"
| "pack_units step_of index next packed (unit # units) =
     (let step = step_of index unit
      in case pack_states step (next step) packed (sort_key state_order (au_states unit)) of
           Inl e \<Rightarrow> Inl e
         | Inr (local, packed') \<Rightarrow>
             pack_units step_of (index + 1) (next(step := local)) packed' units)"

text \<open>The step of a unit, with the member \<open>ScalarStepCount_\<close> as \<open>PackRegionIds\<close> sets it.\<close>

definition unit_step :: "nat \<Rightarrow> nat \<Rightarrow> nat \<Rightarrow> nat \<Rightarrow> 'r allocation_unit \<Rightarrow> nat" where
  "unit_step scalar_roots borrowed_roots scalar_units index unit =
     step_for_unit (if scalar_units \<noteq> 0 then max 1 scalar_roots else 0) scalar_roots borrowed_roots
       scalar_units unit index"

definition PackRegionIds ::
  "nat \<Rightarrow> nat \<Rightarrow> nat \<Rightarrow> 'r allocation_unit list \<Rightarrow> pack_error + (u32 \<rightharpoonup> u32)" where
  "PackRegionIds scalar_roots borrowed_roots scalar_units units =
     (let borrowed_units = length units - scalar_units;
          scalar_step_count = (if scalar_units \<noteq> 0 then max 1 scalar_roots else 0);
          borrowed_step_count = (if borrowed_units \<noteq> 0 then max 1 borrowed_roots else 0);
          step_count = scalar_step_count + borrowed_step_count
      in if step_count = 0 \<or> step_count > unat BPF_CAPSULE_REGION_ID_STEP_MASK + 1 then Inl StepCount
         else pack_units (unit_step scalar_roots borrowed_roots scalar_units) 0 (\<lambda>_. 1) Map.empty
                units)"

section \<open>The fields of an ID\<close>

text \<open>What the generated step extracts: the low byte, and the masked region key.\<close>

definition step_index :: "u32 \<Rightarrow> u32" where
  "step_index rid = rid AND BPF_CAPSULE_REGION_ID_STEP_MASK"

definition DispatchRegionKey :: "bool \<Rightarrow> u32 \<Rightarrow> u32" where
  "DispatchRegionKey indirect rid =
     (let index = rid AND BPF_CAPSULE_REGION_ID_INDEX_MASK
      in if indirect then drop_bit BPF_CAPSULE_REGION_ID_STEP_BITS index else index)"

text \<open>The instructions emitted for the same key: the indirect form shifts without masking.\<close>

definition emitted_region_key :: "bool \<Rightarrow> u32 \<Rightarrow> u32" where
  "emitted_region_key indirect rid =
     (if indirect then drop_bit BPF_CAPSULE_REGION_ID_STEP_BITS rid
      else rid AND BPF_CAPSULE_REGION_ID_INDEX_MASK)"

lemma step_mask: "BPF_CAPSULE_REGION_ID_STEP_MASK = mask 8"
  by (simp add: BPF_CAPSULE_REGION_ID_STEP_MASK_def BPF_CAPSULE_REGION_ID_STEP_BITS_def
      mask_eq_exp_minus_1)

lemma index_mask: "BPF_CAPSULE_REGION_ID_INDEX_MASK = push_bit 8 (mask 16)"
  by (simp add: BPF_CAPSULE_REGION_ID_INDEX_MASK_def mask_eq_exp_minus_1 push_bit_eq_mult)

lemma bit_small_natD: "bit (m :: nat) k \<Longrightarrow> m < 2 ^ n \<Longrightarrow> k < n"
  by (metis bit_take_bit_iff take_bit_nat_eq_self)

lemma bit_packed_id:
  assumes "local < 2 ^ 16" and "step < 2 ^ 8"
  shows "bit (packed_id local step) n \<longleftrightarrow>
    (if n < 8 then bit step n else n < 24 \<and> bit local (n - 8))"
proof -
  have "bit local (n - 8) \<Longrightarrow> n < 24" and "bit step n \<Longrightarrow> n < 8"
    using bit_small_natD [OF _ assms(1), of "n - 8"] bit_small_natD [OF _ assms(2), of n] by auto
  then show ?thesis
    by (auto simp: packed_id_def BPF_CAPSULE_REGION_ID_STEP_BITS_def bit_simps)
qed

lemma step_index_packed:
  assumes "local < 2 ^ 16" and "step < 2 ^ 8"
  shows "step_index (packed_id local step) = word_of_nat step"
proof (rule bit_word_eqI)
  fix n assume "n < LENGTH(32)"
  then show "bit (step_index (packed_id local step)) n = bit (word_of_nat step :: u32) n"
    using bit_small_natD [OF _ assms(2), of n]
    by (auto simp: step_index_def step_mask bit_simps bit_packed_id [OF assms])
qed

lemma region_key_packed:
  assumes "local < 2 ^ 16" and "step < 2 ^ 8"
  shows "DispatchRegionKey indirect (packed_id local step) =
    (if indirect then word_of_nat local else push_bit 8 (word_of_nat local))"
proof (rule bit_word_eqI)
  fix n assume "n < LENGTH(32)"
  then show "bit (DispatchRegionKey indirect (packed_id local step)) n =
      bit (if indirect then word_of_nat local else push_bit 8 (word_of_nat local) :: u32) n"
    using bit_small_natD [OF _ assms(1), of n] bit_small_natD [OF _ assms(1), of "n - 8"]
    by (auto simp: DispatchRegionKey_def index_mask BPF_CAPSULE_REGION_ID_STEP_BITS_def bit_simps
        bit_packed_id [OF assms] Let_def)
qed

lemma emitted_key_packed:
  assumes "local < 2 ^ 16" and "step < 2 ^ 8"
  shows "emitted_region_key indirect (packed_id local step) =
    DispatchRegionKey indirect (packed_id local step)"
  by (rule bit_word_eqI)
    (auto simp: DispatchRegionKey_def emitted_region_key_def index_mask
      BPF_CAPSULE_REGION_ID_STEP_BITS_def bit_simps bit_packed_id [OF assms] Let_def)

lemma unat_packed_id:
  assumes "local < 2 ^ 16" and "step < 2 ^ 8"
  shows "unat (packed_id local step) = local * 256 + step"
proof -
  have "push_bit 8 (word_of_nat local :: u32) AND word_of_nat step = 0"
  proof (rule bit_word_eqI)
    fix n
    show "bit (push_bit 8 (word_of_nat local :: u32) AND word_of_nat step) n = bit (0 :: u32) n"
      using bit_small_natD [OF _ assms(2), of n] by (auto simp: bit_simps)
  qed
  then have "packed_id local step = push_bit 8 (word_of_nat local) + word_of_nat step"
    by (simp add: packed_id_def BPF_CAPSULE_REGION_ID_STEP_BITS_def disjunctive_add_eq_or)
  also have "\<dots> = word_of_nat (local * 256 + step)" by (simp add: push_bit_eq_mult mult.commute)
  finally show ?thesis using assms by (simp only: unat_of_nat) simp
qed

lemma packed_id_inject:
  assumes "l < 2 ^ 16" "s < 2 ^ 8" "l' < 2 ^ 16" "s' < 2 ^ 8"
    and "packed_id l s = packed_id l' s'"
  shows "l = l' \<and> s = s'"
proof -
  have eq: "l * 256 + s = l' * 256 + s'"
    using unat_packed_id [OF assms(1,2)] unat_packed_id [OF assms(3,4)] assms(5) by simp
  have "(k * 256 + t) div 256 = k \<and> (k * 256 + t) mod 256 = t" if "t < 2 ^ 8" for k t :: nat
    using that by simp
  from this [OF assms(2), of l] this [OF assms(4), of l'] show ?thesis unfolding eq by simp
qed

section \<open>What packing assigns\<close>

text \<open>The states of one physical step, in the order the packing loop reaches them.\<close>

fun step_states ::
  "(nat \<Rightarrow> 'r allocation_unit \<Rightarrow> nat) \<Rightarrow> nat \<Rightarrow> nat \<Rightarrow> 'r allocation_unit list \<Rightarrow> 'r region_state list" where
  "step_states step_of index step [] = []"
| "step_states step_of index step (unit # units) =
     (if step_of index unit = step then sort_key state_order (au_states unit) else []) @
     step_states step_of (index + 1) step units"

definition states_packed ::
  "nat \<Rightarrow> nat \<Rightarrow> 'r region_state list \<Rightarrow> (u32 \<rightharpoonup> u32) \<Rightarrow> (u32 \<rightharpoonup> u32) \<Rightarrow> bool" where
  "states_packed step l states packed packed' \<longleftrightarrow>
     (\<forall>n<length states. packed' (st_id (states ! n)) = Some (packed_id (l + n) step)) \<and>
     (\<forall>k. k \<notin> st_id ` set states \<longrightarrow> packed' k = packed k) \<and>
     (\<forall>k. k \<in> st_id ` set states \<longrightarrow> packed k = None) \<and>
     (states = [] \<or> l + length states \<le> 2 ^ 16)"

lemma states_packedD:
  assumes "states_packed step l states packed packed'"
  shows "n < length states \<Longrightarrow> packed' (st_id (states ! n)) = Some (packed_id (l + n) step)"
    and "k \<notin> st_id ` set states \<Longrightarrow> packed' k = packed k"
    and "k \<in> st_id ` set states \<Longrightarrow> packed k = None"
    and "states = [] \<or> l + length states \<le> 2 ^ 16"
  using assms unfolding states_packed_def by simp_all

lemma pack_states_result:
  "pack_states step l packed states = Inr (l', packed') \<Longrightarrow>
     l' = l + length states \<and> states_packed step l states packed packed'"
proof (induction states arbitrary: l packed)
  case (Cons state states)
  let ?p = "packed(st_id state \<mapsto> packed_id l step)"
  have l: "l < 2 ^ 16" and new: "packed (st_id state) = None"
    and rec: "pack_states step (l + 1) ?p states = Inr (l', packed')"
    using Cons.prems by (simp_all split: if_splits)
  have l': "l' = l + 1 + length states" and IH: "states_packed step (l + 1) states ?p packed'"
    using Cons.IH [OF rec] by blast+
  note IH = states_packedD [OF IH]
  have notin: "st_id state \<notin> st_id ` set states"
  proof
    assume "st_id state \<in> st_id ` set states"
    from IH(3) [OF this] show False by simp
  qed
  have "packed' (st_id ((state # states) ! n)) = Some (packed_id (l + n) step)"
    if "n < length (state # states)" for n
    using that IH(1) [of "n - 1"] IH(2) [OF notin] by (cases n) simp_all
  moreover have "packed' k = packed k" if "k \<notin> st_id ` set (state # states)" for k
    using that IH(2) [of k] by simp
  moreover have "packed k = None" if "k \<in> st_id ` set (state # states)" for k
    using that IH(3) [of k] new by (cases "k = st_id state") simp_all
  moreover have "l + length (state # states) \<le> 2 ^ 16"
    using IH(4) l by (cases states) simp_all
  ultimately show ?case using l' unfolding states_packed_def by simp
qed (simp add: states_packed_def)

text \<open>After packing, the \<open>n\<close>-th state of a step has region index \<open>next + n\<close> and that step.\<close>

definition units_packed ::
  "(nat \<Rightarrow> 'r allocation_unit \<Rightarrow> nat) \<Rightarrow> nat \<Rightarrow> (nat \<Rightarrow> nat) \<Rightarrow> 'r allocation_unit list \<Rightarrow>
     (u32 \<rightharpoonup> u32) \<Rightarrow> (u32 \<rightharpoonup> u32) \<Rightarrow> bool" where
  "units_packed step_of index nxt units packed packed' \<longleftrightarrow>
     (\<forall>step n. n < length (step_states step_of index step units) \<longrightarrow>
        packed' (st_id (step_states step_of index step units ! n)) = Some (packed_id (nxt step + n) step)) \<and>
     (\<forall>k v. packed k = Some v \<longrightarrow> packed' k = Some v) \<and>
     (\<forall>k v. packed' k = Some v \<longrightarrow> packed k = Some v \<or>
        (\<exists>step. k \<in> st_id ` set (step_states step_of index step units))) \<and>
     (\<forall>step. step_states step_of index step units = [] \<or>
        nxt step + length (step_states step_of index step units) \<le> 2 ^ 16)"

lemma units_packedD:
  assumes "units_packed step_of index nxt units packed packed'"
  shows "n < length (step_states step_of index step units) \<Longrightarrow>
      packed' (st_id (step_states step_of index step units ! n)) = Some (packed_id (nxt step + n) step)"
    and "packed k = Some v \<Longrightarrow> packed' k = Some v"
    and "packed' k = Some v \<Longrightarrow> packed k = None \<Longrightarrow>
      \<exists>step. k \<in> st_id ` set (step_states step_of index step units)"
    and "step_states step_of index step units = [] \<or>
      nxt step + length (step_states step_of index step units) \<le> 2 ^ 16"
  using assms unfolding units_packed_def by (simp_all, metis option.distinct(1))

lemma pack_units_result:
  "pack_units step_of index nxt packed units = Inr packed' \<Longrightarrow>
     units_packed step_of index nxt units packed packed'"
proof (induction units arbitrary: index nxt packed)
  case Nil
  then show ?case by (simp add: units_packed_def)
next
  case (Cons unit units)
  let ?s = "step_of index unit" and ?states = "sort_key state_order (au_states unit)"
  let ?all = "\<lambda>step. step_states step_of index step (unit # units)"
  obtain l q where q: "pack_states ?s (nxt ?s) packed ?states = Inr (l, q)"
    and rec: "pack_units step_of (index + 1) (nxt(?s := l)) q units = Inr packed'"
    using Cons.prems by (auto simp: Let_def split: sum.splits prod.splits)
  have l: "l = nxt ?s + length ?states" and head: "states_packed ?s (nxt ?s) ?states packed q"
    using pack_states_result [OF q] by blast+
  note head = states_packedD [OF head]
  note tail = units_packedD [OF Cons.IH [OF rec]]
  have id: "packed' (st_id (?all step ! n)) = Some (packed_id (nxt step + n) step)"
    if n: "n < length (?all step)" for step n
  proof (cases "step = ?s")
    case False
    then show ?thesis using n tail(1) [of n step] by simp
  next
    case True
    show ?thesis
    proof (cases "n < length ?states")
      case small: True
      then show ?thesis using tail(2) [OF head(1) [OF small]] True by (simp add: nth_append)
    next
      case False
      then show ?thesis
        using tail(1) [of "n - length ?states" step] n True l by (simp add: nth_append)
    qed
  qed
  have keep: "packed' k = Some v" if "packed k = Some v" for k v
  proof -
    have "k \<notin> st_id ` set ?states" using head(3) [of k] that by auto
    then show ?thesis using head(2) [of k] tail(2) that by metis
  qed
  have new: "packed k = Some v \<or> (\<exists>step. k \<in> st_id ` set (?all step))" if "packed' k = Some v" for k v
  proof (cases "q k")
    case None
    then show ?thesis using tail(3) [OF that None] by auto
  next
    case (Some w)
    then show ?thesis
      using head(2) [of k] tail(2) [OF Some] that by (cases "k \<in> st_id ` set ?states") auto
  qed
  have room: "?all step = [] \<or> nxt step + length (?all step) \<le> 2 ^ 16" for step
    using tail(4) [of step] head(4) l by (cases "step = ?s") auto
  show ?case unfolding units_packed_def using id keep new room by blast
qed

lemma step_states_step:
  "step_states step_of index step units \<noteq> [] \<Longrightarrow>
     \<exists>i<length units. step_of (index + i) (units ! i) = step"
proof (induction units arbitrary: index)
  case (Cons unit units)
  show ?case
  proof (cases "step_of index unit = step")
    case True
    then show ?thesis by (intro exI [of _ 0]) simp
  next
    case False
    then obtain i where "i < length units" "step_of (index + 1 + i) (units ! i) = step"
      using Cons.IH [of "index + 1"] Cons.prems by auto
    then show ?thesis by (intro exI [of _ "i + 1"]) simp
  qed
qed simp

text \<open>Every unit's output root exists: \<open>OutputRoot\<close> indexes the physical roots of its kind.\<close>

definition roots_ok :: "nat \<Rightarrow> nat \<Rightarrow> nat \<Rightarrow> 'r allocation_unit list \<Rightarrow> bool" where
  "roots_ok scalar_roots borrowed_roots scalar_units units \<longleftrightarrow> scalar_units \<le> length units \<and>
     (\<forall>i<length units. au_output_root (units ! i) <
        max 1 (if i < scalar_units then scalar_roots else borrowed_roots))"

lemma PackRegionIds_units:
  assumes ok: "roots_ok sr br su units" and pack: "PackRegionIds sr br su units = Inr packed"
  shows "units_packed (unit_step sr br su) 0 (\<lambda>_. 1) units Map.empty packed"
    and "step_states (unit_step sr br su) 0 step units \<noteq> [] \<Longrightarrow> step < 2 ^ 8"
proof -
  show "units_packed (unit_step sr br su) 0 (\<lambda>_. 1) units Map.empty packed"
    using pack pack_units_result [of "unit_step sr br su" 0 "\<lambda>_. 1" Map.empty units packed]
    by (simp add: PackRegionIds_def Let_def split: if_splits)
  assume "step_states (unit_step sr br su) 0 step units \<noteq> []"
  then obtain i where i: "i < length units" "unit_step sr br su i (units ! i) = step"
    using step_states_step [of "unit_step sr br su" 0 step units] by auto
  have root: "au_output_root (units ! i) < max 1 (if i < su then sr else br)"
    using ok i(1) by (simp add: roots_ok_def)
  have "(if su \<noteq> 0 then max 1 sr else 0) + (if length units - su \<noteq> 0 then max 1 br else 0) \<le> 256"
    using pack
    by (auto simp: PackRegionIds_def Let_def step_mask mask_eq_exp_minus_1 not_less
        split: if_splits)
  then show "step < 2 ^ 8"
    using i root ok by (cases "i < su")
      (auto simp: unit_step_def step_for_unit_def roots_ok_def split: if_splits)
qed

text \<open>The ID of a state of a packed program, with its two fields in range.\<close>

lemma packed_value:
  assumes ok: "roots_ok sr br su units" and pack: "PackRegionIds sr br su units = Inr packed"
    and k: "packed k = Some v"
  obtains step n where "n < length (step_states (unit_step sr br su) 0 step units)"
    and "k = st_id (step_states (unit_step sr br su) 0 step units ! n)"
    and "v = packed_id (1 + n) step" and "1 + n < 2 ^ 16" and "step < 2 ^ 8"
proof -
  note units = units_packedD [OF PackRegionIds_units(1) [OF ok pack]]
  obtain step where "k \<in> st_id ` set (step_states (unit_step sr br su) 0 step units)"
    using units(3) [OF k] by auto
  then obtain n where n: "n < length (step_states (unit_step sr br su) 0 step units)"
    "k = st_id (step_states (unit_step sr br su) 0 step units ! n)"
    by (auto simp: in_set_conv_nth)
  have "v = packed_id (1 + n) step" using units(1) [OF n(1)] n(2) k by simp
  moreover have "1 + n < 2 ^ 16" using units(4) [of step] n(1) by auto
  moreover have "step < 2 ^ 8" using PackRegionIds_units(2) [OF ok pack] n(1) by force
  ultimately show ?thesis using n that by blast
qed

text \<open>C16: when packing succeeds, distinct provisional IDs get distinct packed IDs, and every packed ID
  is a live region: neither the idle word 0 nor the completion word, with a nonzero 16-bit region
  index and nothing above it. The step is the low byte and the index is what both the compile-time
  and the emitted key extraction read.\<close>

theorem packed_region_ids_wellformed:
  assumes "roots_ok sr br su units" and "PackRegionIds sr br su units = Inr packed"
  shows "inj_on packed (dom packed) \<and>
    (\<forall>k v. packed k = Some v \<longrightarrow> v \<noteq> 0 \<and> v \<noteq> BPF_CAPSULE_REGION_ID_DONE \<and>
      256 \<le> unat v \<and> unat v < 2 ^ 24 \<and>
      emitted_region_key indirect v = DispatchRegionKey indirect v \<and>
      unat v = unat (DispatchRegionKey False v) + unat (step_index v))"
proof (intro conjI allI impI)
  show "inj_on packed (dom packed)"
  proof (rule inj_onI)
    fix j k assume "j \<in> dom packed" "k \<in> dom packed" and eq: "packed j = packed k"
    then obtain v where v: "packed j = Some v" "packed k = Some v" by auto
    obtain s n where j: "j = st_id (step_states (unit_step sr br su) 0 s units ! n)"
        "v = packed_id (1 + n) s" "1 + n < 2 ^ 16" "s < 2 ^ 8"
      by (rule packed_value [OF assms v(1)])
    obtain t m where k: "k = st_id (step_states (unit_step sr br su) 0 t units ! m)"
        "v = packed_id (1 + m) t" "1 + m < 2 ^ 16" "t < 2 ^ 8"
      by (rule packed_value [OF assms v(2)])
    show "j = k" using packed_id_inject [OF j(3,4) k(3,4)] j k by auto
  qed
next
  fix k v assume "packed k = Some v"
  then obtain s n where v: "v = packed_id (1 + n) s" "1 + n < 2 ^ 16" "s < 2 ^ 8"
    by (rule packed_value [OF assms])
  have val: "unat v = (1 + n) * 256 + s" using v unat_packed_id by simp
  have small: "(1 + n) * 256 + s < 2 ^ 24" using v(2,3) by simp
  show "256 \<le> unat v" "unat v < 2 ^ 24" using val small by simp_all
  then show "v \<noteq> 0" "v \<noteq> BPF_CAPSULE_REGION_ID_DONE"
    by (auto simp: BPF_CAPSULE_REGION_ID_DONE_def)
  show "emitted_region_key indirect v = DispatchRegionKey indirect v"
    using v emitted_key_packed by simp
  have "unat (DispatchRegionKey False v) = (1 + n) * 256"
    using v region_key_packed [OF v(2,3), of False] unat_packed_id [OF v(2), of 0]
    by (simp add: packed_id_def BPF_CAPSULE_REGION_ID_STEP_BITS_def)
  moreover have "unat (step_index v) = s"
    using v step_index_packed [OF v(2,3)] by (simp add: unat_of_nat)
  ultimately show "unat v = unat (DispatchRegionKey False v) + unat (step_index v)"
    using val by simp
qed

definition sample_units :: "(nat \<Rightarrow> 'r) \<Rightarrow> 'r allocation_unit list" where
  "sample_units code =
     [\<lparr>au_states = [\<lparr>st_id = 9, st_root = code 0, st_kind = Call\<rparr>, \<lparr>st_id = 4, st_root = code 1, st_kind = Entry\<rparr>],
        au_borrowed = False, au_output_root = 0\<rparr>,
      \<lparr>au_states = [\<lparr>st_id = 7, st_root = code 2, st_kind = Entry\<rparr>], au_borrowed = False,
        au_output_root = 1\<rparr>,
      \<lparr>au_states = [\<lparr>st_id = 12, st_root = code 3, st_kind = Entry\<rparr>, \<lparr>st_id = 13, st_root = code 4, st_kind = Yield\<rparr>],
        au_borrowed = False, au_output_root = 0\<rparr>]"

definition sample_packed :: "u32 \<rightharpoonup> u32" where
  "sample_packed = [4 \<mapsto> 0x100, 9 \<mapsto> 0x200, 7 \<mapsto> 0x101, 12 \<mapsto> 0x300, 13 \<mapsto> 0x400]"

lemma sample_pack: "PackRegionIds 2 0 3 (sample_units code) = Inr sample_packed"
  by (simp add: PackRegionIds_def sample_units_def sample_packed_def unit_step_def step_for_unit_def
      state_order_def step_mask mask_eq_exp_minus_1 packed_id_def BPF_CAPSULE_REGION_ID_STEP_BITS_def)

lemma sample_roots: "roots_ok 2 0 3 (sample_units code)"
  by (simp add: roots_ok_def sample_units_def less_Suc_eq numeral_3_eq_3)

theorem packed_region_ids_wellformed_witness:
  "inj_on sample_packed (dom sample_packed) \<and> sample_packed 9 = Some 0x200"
  using packed_region_ids_wellformed [OF sample_roots sample_pack] by (simp add: sample_packed_def)

end
