(* ===== verification/Fiber_Pool.thy ===== *)
theory Fiber_Pool
  imports Kernel_Maps
begin

text \<open>
  The fiber pool of \<open>src/src/runtime/guest/bpf_capsule.c\<close>: leasing a fiber, releasing it, and
  consuming a continuation token, on both memory tiers. The tier and the compiled fiber ceiling are
  build options of the source and a parameter of every operation. The state holds the fiber control
  table, the frozen configuration, the contents of the runtime's maps, the readiness word and, as an
  opaque component, the rest of the program's memory.
\<close>

record build =
  b_arena :: bool
  b_max_fibers :: u32

text \<open>The preprocessor checks on \<open>BPF_CAPSULE_MAX_FIBERS\<close> in \<open>bpf_capsule.h\<close>.\<close>

definition build_ok :: "build \<Rightarrow> bool" where
  "build_ok B \<longleftrightarrow> 1 \<le> b_max_fibers B \<and> b_max_fibers B \<le> BPF_CAPSULE_MAX_FIBERS_LIMIT"

record 'w machine =
  m_fibers :: "u32 \<Rightarrow> fiber_control"
  m_config :: object_config
  m_issued :: "u32 \<rightharpoonup> u32"
  m_free :: "u32 list"
  m_leases :: "u32 \<rightharpoonup> u64"
  m_claims :: "u64 \<rightharpoonup> u32"
  m_heap_entries :: u32
  m_host_ready :: u32
  m_world :: 'w

section \<open>Accessors\<close>

definition bpf_capsule_fiber_count :: "build \<Rightarrow> 'w machine \<Rightarrow> u32" where
  "bpf_capsule_fiber_count B s =
     (let count = cfg_fiber_count (m_config s)
      in if 1 \<le> count \<and> count \<le> b_max_fibers B then count else 0)"

text \<open>\<open>__bpf_capsule_fiber_control\<close>: the index is normalized arithmetically.\<close>

definition fiber_index :: "build \<Rightarrow> u32 \<Rightarrow> u32" where
  "fiber_index B fiber = fiber mod b_max_fibers B"

definition get_control :: "build \<Rightarrow> 'w machine \<Rightarrow> u32 \<Rightarrow> fiber_control" where
  "get_control B s fiber = m_fibers s (fiber_index B fiber)"

definition put_control :: "u32 \<Rightarrow> fiber_control \<Rightarrow> 'w machine \<Rightarrow> 'w machine" where
  "put_control i control s = s\<lparr>m_fibers := (m_fibers s)(i := control)\<rparr>"

definition bpf_capsule_make_continuation :: "build \<Rightarrow> 'w machine \<Rightarrow> u32 \<Rightarrow> u64" where
  "bpf_capsule_make_continuation B s fiber =
     (if fiber \<ge> bpf_capsule_fiber_count B s then BPF_CAPSULE_NO_CONTINUATION
      else continuation_value fiber (fc_generation (get_control B s fiber)))"

section \<open>Leasing a fiber\<close>

text \<open>One attempt of the scan: claim this fiber with \<open>BPF_NOEXIST\<close>. The fixed tier stores the next
  generation in the lease and, once the lease is taken, in the control record.\<close>

definition try_fiber :: "build \<Rightarrow> kernel \<Rightarrow> u32 \<Rightarrow> 'w machine \<Rightarrow> bool \<times> 'w machine" where
  "try_fiber B K fiber s =
     (if b_arena B then
        (case k_issued_update K (m_issued s) fiber 1 of (rc, issued) \<Rightarrow>
           (rc = 0, s\<lparr>m_issued := issued\<rparr>))
      else
        (let generation = next_generation (fc_generation (m_fibers s fiber))
         in case k_lease_update K (m_leases s) fiber generation of (rc, leases) \<Rightarrow>
              if rc = 0
              then (True, put_control fiber ((m_fibers s fiber)\<lparr>fc_generation := generation\<rparr>)
                            (s\<lparr>m_leases := leases\<rparr>))
              else (False, s\<lparr>m_leases := leases\<rparr>)))"

definition BPF_CAPSULE_FIBER_SCAN_CHUNK :: u32 where "BPF_CAPSULE_FIBER_SCAN_CHUNK = 16"
definition BPF_CAPSULE_FIBER_SCAN_PAGE :: u32 where
  "BPF_CAPSULE_FIBER_SCAN_PAGE = BPF_CAPSULE_FIBER_SCAN_CHUNK * BPF_CAPSULE_FIBER_SCAN_CHUNK"

text \<open>The loop of \<open>__bpf_capsule_fiber_acquire_chunk\<close>; the first argument is the trips left.\<close>

fun acquire_chunk_loop ::
  "nat \<Rightarrow> build \<Rightarrow> kernel \<Rightarrow> u32 \<Rightarrow> u32 \<Rightarrow> u32 \<Rightarrow> u32 \<Rightarrow> 'w machine \<Rightarrow> u32 \<times> 'w machine" where
  "acquire_chunk_loop 0 B K count start first local s = (BPF_CAPSULE_NO_FIBER, s)"
| "acquire_chunk_loop (Suc n) B K count start first local s =
     (let attempt = first + local
      in if attempt \<ge> count then (BPF_CAPSULE_NO_FIBER, s)
         else let fiber = start + attempt;
                  fiber = (if fiber \<ge> count then fiber - count else fiber)
              in case try_fiber B K fiber s of (taken, s') \<Rightarrow>
                   if taken then (fiber, s')
                   else acquire_chunk_loop n B K count start first (local + 1) s')"

definition bpf_capsule_fiber_acquire_chunk ::
  "build \<Rightarrow> kernel \<Rightarrow> u32 \<Rightarrow> u32 \<Rightarrow> 'w machine \<Rightarrow> u32 \<times> 'w machine" where
  "bpf_capsule_fiber_acquire_chunk B K start first s =
     (let count = bpf_capsule_fiber_count B s
      in if start \<ge> count \<or> first \<ge> count then (BPF_CAPSULE_NO_FIBER, s)
         else acquire_chunk_loop (unat BPF_CAPSULE_FIBER_SCAN_CHUNK) B K count start first 0 s)"

fun acquire_page_loop ::
  "nat \<Rightarrow> build \<Rightarrow> kernel \<Rightarrow> u32 \<Rightarrow> u32 \<Rightarrow> u32 \<Rightarrow> u32 \<Rightarrow> 'w machine \<Rightarrow> u32 \<times> 'w machine" where
  "acquire_page_loop 0 B K count start first chunk s = (BPF_CAPSULE_NO_FIBER, s)"
| "acquire_page_loop (Suc n) B K count start first chunk s =
     (let offset = first + chunk * BPF_CAPSULE_FIBER_SCAN_CHUNK
      in if offset \<ge> count then (BPF_CAPSULE_NO_FIBER, s)
         else case bpf_capsule_fiber_acquire_chunk B K start offset s of (fiber, s') \<Rightarrow>
                if fiber < count then (fiber, s')
                else acquire_page_loop n B K count start first (chunk + 1) s')"

definition bpf_capsule_fiber_acquire_page ::
  "build \<Rightarrow> kernel \<Rightarrow> u32 \<Rightarrow> u32 \<Rightarrow> 'w machine \<Rightarrow> u32 \<times> 'w machine" where
  "bpf_capsule_fiber_acquire_page B K start first s =
     (let count = bpf_capsule_fiber_count B s
      in if first \<ge> count then (BPF_CAPSULE_NO_FIBER, s)
         else acquire_page_loop (unat BPF_CAPSULE_FIBER_SCAN_CHUNK) B K count start first 0 s)"

definition bpf_capsule_clear_fiber :: "fiber_control \<Rightarrow> fiber_control" where
  [capsule_defs]: "bpf_capsule_clear_fiber control =
     control\<lparr>fc_status := CAPSULE_OK, fc_code := 0, fc_resume_region_id := 0, fc_sp := 0,
       fc_fp := 0, fc_return_size := 0\<rparr>"

definition bpf_capsule_prepare_fiber :: "build \<Rightarrow> u32 \<Rightarrow> 'w machine \<Rightarrow> 'w machine" where
  "bpf_capsule_prepare_fiber B fiber s =
     (let control = m_fibers s fiber;
          control = (if b_arena B
                     then control\<lparr>fc_generation := next_generation (fc_generation control)\<rparr>
                     else control)
      in put_control fiber (bpf_capsule_clear_fiber control) s)"

fun acquire_scan_loop ::
  "nat \<Rightarrow> build \<Rightarrow> kernel \<Rightarrow> u32 \<Rightarrow> u32 \<Rightarrow> u32 \<Rightarrow> 'w machine \<Rightarrow> u32 \<times> 'w machine" where
  "acquire_scan_loop 0 B K count start page s = (BPF_CAPSULE_NO_FIBER, s)"
| "acquire_scan_loop (Suc n) B K count start page s =
     (case bpf_capsule_fiber_acquire_page B K start (page * BPF_CAPSULE_FIBER_SCAN_PAGE) s of
        (fiber, s') \<Rightarrow>
          if fiber < count then (fiber, bpf_capsule_prepare_fiber B fiber s')
          else acquire_scan_loop n B K count start (page + 1) s')"

definition scan_pages :: "build \<Rightarrow> nat" where
  "scan_pages B = unat ((b_max_fibers B + BPF_CAPSULE_FIBER_SCAN_PAGE - 1) div
                          BPF_CAPSULE_FIBER_SCAN_PAGE)"

definition bpf_capsule_fiber_acquire ::
  "build \<Rightarrow> kernel \<Rightarrow> 'w machine \<Rightarrow> u32 \<times> 'w machine" where
  "bpf_capsule_fiber_acquire B K s =
     (let count = bpf_capsule_fiber_count B s
      in if count = 0 then (BPF_CAPSULE_NO_FIBER, s)
         else (let scan = acquire_scan_loop (scan_pages B) B K count (k_cpu K mod count) 0
               in if b_arena B then
                    (case k_free_pop K (m_free s) of (rc, fiber, free) \<Rightarrow>
                       (let s' = s\<lparr>m_free := free\<rparr>
                        in if rc = 0 then
                             (if fiber \<ge> count then (BPF_CAPSULE_NO_FIBER, s')
                              else (fiber, bpf_capsule_prepare_fiber B fiber s'))
                           else scan s'))
                  else scan s))"

section \<open>Consuming a continuation, releasing and cancelling a fiber\<close>

datatype claim_result = CLAIM_MAP_CORRUPT | CLAIM_INVALID | CLAIM_STALE | CLAIM_CONSUMED

text \<open>The generation check between the two claim-map operations: whether the token's owner is
  consumed, and the state with the next generation installed.\<close>

definition consume_owner :: "build \<Rightarrow> u32 \<Rightarrow> u64 \<Rightarrow> 'w machine \<Rightarrow> bool \<times> 'w machine" where
  "consume_owner B fiber generation s =
     (let next = next_generation generation; control = m_fibers s fiber
      in if b_arena B then
           (if (fc_resume_region_id control \<noteq> 0 \<or> fc_status control = CAPSULE_EXITED)
               \<and> fc_generation control = generation
            then (True, put_control fiber (control\<lparr>fc_generation := next\<rparr>) s)
            else (False, s))
         else
           (if m_leases s fiber = Some generation
            then (True, put_control fiber (control\<lparr>fc_generation := next\<rparr>)
                          (s\<lparr>m_leases := (m_leases s)(fiber \<mapsto> next)\<rparr>))
            else (False, s)))"

text \<open>\<open>__bpf_capsule_consume_continuation\<close>. The \<open>fiber_out\<close> parameter becomes a component of the
  result that is present exactly when the source has stored to it.\<close>

definition bpf_capsule_consume_continuation ::
  "build \<Rightarrow> kernel \<Rightarrow> u64 \<Rightarrow> 'w machine \<Rightarrow> claim_result \<times> u32 option \<times> 'w machine" where
  "bpf_capsule_consume_continuation B K continuation s =
     (let fiber = continuation_fiber continuation; generation = continuation_generation continuation
      in if generation = 0 \<or> fiber \<ge> bpf_capsule_fiber_count B s then (CLAIM_INVALID, None, s)
         else case k_claim_update K (m_claims s) continuation 1 of (claim_error, claims) \<Rightarrow>
           (let s1 = s\<lparr>m_claims := claims\<rparr>
            in if claim_error \<noteq> 0
               then (if claim_error = - EEXIST then CLAIM_STALE else CLAIM_MAP_CORRUPT, None, s1)
               else case consume_owner B fiber generation s1 of (consumed, s2) \<Rightarrow>
                 (let fiber_out = (if consumed then Some fiber else None)
                  in case k_claim_delete K (m_claims s2) continuation of (rc, claims') \<Rightarrow>
                    (let s3 = s2\<lparr>m_claims := claims'\<rparr>
                     in if rc \<noteq> 0
                        then (if consumed
                              then (CLAIM_CONSUMED, fiber_out,
                                    put_control (fiber_index B fiber)
                                      (bpf_capsule_stop (get_control B s3 fiber)
                                         CAPSULE_ERROR_POOL_CORRUPT) s3)
                              else (CLAIM_MAP_CORRUPT, fiber_out, s3))
                        else (if consumed then CLAIM_CONSUMED else CLAIM_STALE, fiber_out, s3)))))"

definition bpf_capsule_fiber_release :: "build \<Rightarrow> kernel \<Rightarrow> u32 \<Rightarrow> 'w machine \<Rightarrow> int \<times> 'w machine" where
  "bpf_capsule_fiber_release B K fiber s =
     (if fiber \<ge> bpf_capsule_fiber_count B s then (-1, s)
      else if b_arena B then
        (case k_free_push K (m_free s) fiber of (rc, free) \<Rightarrow>
           (let s' = s\<lparr>m_free := free\<rparr>
            in if rc \<noteq> 0
               then (-1, put_control fiber
                           (bpf_capsule_stop (m_fibers s' fiber) CAPSULE_ERROR_POOL_CORRUPT) s')
               else (0, s')))
      else
        (case k_lease_delete K (m_leases s) fiber of (rc, leases) \<Rightarrow>
           (let s' = s\<lparr>m_leases := leases\<rparr>
            in if rc \<noteq> 0
               then (-1, put_control fiber
                           (bpf_capsule_stop (m_fibers s' fiber) CAPSULE_ERROR_POOL_CORRUPT) s')
               else (0, s'))))"

definition bpf_capsule_fiber_cancel :: "build \<Rightarrow> kernel \<Rightarrow> u32 \<Rightarrow> 'w machine \<Rightarrow> int \<times> 'w machine" where
  "bpf_capsule_fiber_cancel B K fiber s =
     bpf_capsule_fiber_release B K fiber
       (put_control (fiber_index B fiber) (bpf_capsule_clear_fiber (get_control B s fiber)) s)"

section \<open>The scan visits the pool once\<close>

text \<open>The reference for the factored scan: try the fibers of a list in order.\<close>

fun scan_fibers :: "build \<Rightarrow> kernel \<Rightarrow> u32 list \<Rightarrow> 'w machine \<Rightarrow> u32 \<times> 'w machine" where
  "scan_fibers B K [] s = (BPF_CAPSULE_NO_FIBER, s)"
| "scan_fibers B K (f # fs) s =
     (case try_fiber B K f s of (taken, s') \<Rightarrow> if taken then (f, s') else scan_fibers B K fs s')"

definition scan_fiber :: "u32 \<Rightarrow> u32 \<Rightarrow> nat \<Rightarrow> u32" where
  "scan_fiber count start attempt = word_of_nat ((unat start + attempt) mod unat count)"

definition scan_range :: "u32 \<Rightarrow> u32 \<Rightarrow> nat \<Rightarrow> nat \<Rightarrow> u32 list" where
  "scan_range count start a b = map (scan_fiber count start) [a..<min b (unat count)]"

lemma fiber_count_frame [simp]:
  "bpf_capsule_fiber_count B (s\<lparr>m_issued := x\<rparr>) = bpf_capsule_fiber_count B s"
  "bpf_capsule_fiber_count B (s\<lparr>m_free := fr\<rparr>) = bpf_capsule_fiber_count B s"
  "bpf_capsule_fiber_count B (s\<lparr>m_leases := y\<rparr>) = bpf_capsule_fiber_count B s"
  "bpf_capsule_fiber_count B (s\<lparr>m_claims := z\<rparr>) = bpf_capsule_fiber_count B s"
  "bpf_capsule_fiber_count B (put_control i c s) = bpf_capsule_fiber_count B s"
  "bpf_capsule_fiber_count B (bpf_capsule_prepare_fiber B' f s) = bpf_capsule_fiber_count B s"
  by (simp_all add: bpf_capsule_fiber_count_def put_control_def bpf_capsule_prepare_fiber_def Let_def)

lemma fiber_count_le: "build_ok B \<Longrightarrow> unat (bpf_capsule_fiber_count B s) \<le> 65535"
  by (auto simp: bpf_capsule_fiber_count_def build_ok_def BPF_CAPSULE_MAX_FIBERS_LIMIT_def Let_def
      word_le_nat_alt)

lemma fiber_count_le_max: "unat (bpf_capsule_fiber_count B s) \<le> unat (b_max_fibers B)"
  by (auto simp: bpf_capsule_fiber_count_def Let_def word_le_nat_alt)

lemma try_fiber_count [simp]:
  "bpf_capsule_fiber_count B (snd (try_fiber B K f s)) = bpf_capsule_fiber_count B s"
  by (simp add: try_fiber_def Let_def split: prod.splits)

lemma scan_fibers_count [simp]:
  "bpf_capsule_fiber_count B (snd (scan_fibers B K fs s)) = bpf_capsule_fiber_count B s"
proof (induction fs arbitrary: s)
  case (Cons f fs)
  obtain taken s' where t: "try_fiber B K f s = (taken, s')" by (cases "try_fiber B K f s")
  then have "bpf_capsule_fiber_count B s' = bpf_capsule_fiber_count B s"
    using try_fiber_count [of B K f s] by simp
  then show ?case using t Cons.IH by simp
qed simp

lemma scan_fibers_result:
  "fst (scan_fibers B K fs s) \<in> insert BPF_CAPSULE_NO_FIBER (set fs)"
  by (induction fs arbitrary: s) (auto split: prod.splits)

lemma scan_fibers_append:
  assumes "BPF_CAPSULE_NO_FIBER \<notin> set fs"
  shows "scan_fibers B K (fs @ gs) s =
    (case scan_fibers B K fs s of (f, s') \<Rightarrow>
       if f \<noteq> BPF_CAPSULE_NO_FIBER then (f, s') else scan_fibers B K gs s')"
  using assms by (induction fs arbitrary: s) (auto split: prod.splits)

lemma unat_scan_fiber:
  assumes "0 < unat count"
  shows "unat (scan_fiber count start a) = (unat start + a) mod unat count"
proof -
  have "(unat start + a) mod unat count < 4294967296"
    using mod_less_divisor [OF assms, of "unat start + a"] u32_less_4G [of count] by linarith
  then show ?thesis by (simp add: scan_fiber_def unat_of_nat)
qed

lemma scan_fiber_less: "0 < unat count \<Longrightarrow> scan_fiber count start a < count"
  by (simp add: unat_scan_fiber word_less_nat_alt)

lemma no_fiber_ge: "build_ok B \<Longrightarrow> bpf_capsule_fiber_count B s \<le> BPF_CAPSULE_NO_FIBER"
  using fiber_count_le [of B s] by (simp add: BPF_CAPSULE_NO_FIBER_def word_le_nat_alt)

lemma scan_fiber_word:
  assumes "unat count \<le> 65535" and "start < count" and "attempt < count"
  shows "(let fiber = start + attempt in if fiber \<ge> count then fiber - count else fiber) =
    scan_fiber count start (unat attempt)"
proof -
  have lt: "unat start < unat count" "unat attempt < unat count"
    using assms by (simp_all add: word_less_nat_alt)
  have sum: "unat (start + attempt) = unat start + unat attempt"
    using lt assms(1) by (subst unat_add_lem [THEN iffD1]) simp_all
  show ?thesis
  proof (cases "count \<le> start + attempt")
    case True
    then have ge: "unat count \<le> unat start + unat attempt"
      using sum by (simp add: word_le_nat_alt)
    have "unat (start + attempt - count) = unat start + unat attempt - unat count"
      using True sum by (simp add: unat_sub)
    also have "\<dots> = (unat start + unat attempt) mod unat count"
      using ge lt by (simp add: mod_if)
    finally show ?thesis
      using True lt by (simp add: unat_scan_fiber word_unat_eq_iff)
  next
    case False
    then have "unat start + unat attempt < unat count"
      using sum by (simp add: word_le_nat_alt)
    then show ?thesis
      using False sum lt by (simp add: unat_scan_fiber word_unat_eq_iff)
  qed
qed

lemma scan_range_empty: "unat count \<le> a \<Longrightarrow> scan_range count start a b = []"
  by (simp add: scan_range_def)

lemma scan_range_Cons:
  "a < unat count \<Longrightarrow> a < b \<Longrightarrow>
     scan_range count start a b = scan_fiber count start a # scan_range count start (Suc a) b"
  by (simp add: scan_range_def upt_conv_Cons)

lemma scan_range_append:
  assumes "a \<le> b" and "b \<le> c"
  shows "scan_range count start a c = scan_range count start a b @ scan_range count start b c"
proof (cases "b \<le> unat count")
  case True
  then have "[a..<min c (unat count)] = [a..<b] @ [b..<min c (unat count)]"
    using assms upt_add_eq_append [of a b "min c (unat count) - b"] by simp
  then show ?thesis using True by (simp add: scan_range_def min_def)
next
  case False
  then show ?thesis using assms by (simp add: scan_range_def min_def)
qed

lemma scan_range_less: "f \<in> set (scan_range count start a b) \<Longrightarrow> f < count"
  by (cases "0 < unat count") (auto simp: scan_range_def scan_fiber_less)

lemma no_fiber_notin_range:
  "unat count \<le> 65535 \<Longrightarrow> BPF_CAPSULE_NO_FIBER \<notin> set (scan_range count start a b)"
  using scan_range_less [of BPF_CAPSULE_NO_FIBER count start a b]
  by (auto simp: BPF_CAPSULE_NO_FIBER_def word_less_nat_alt)

lemma acquire_chunk_loop_scan:
  fixes s :: "'w machine"
  assumes "unat count \<le> 65535" and "start < count"
    and "unat (first + local) = a" and "a \<le> 65535" and "n \<le> 65536"
  shows "acquire_chunk_loop n B K count start first local s =
    scan_fibers B K (scan_range count start a (a + n)) s"
  using assms(3-)
proof (induction n arbitrary: local a s)
  case 0
  then show ?case by (simp add: scan_range_def)
next
  case (Suc n)
  show ?case
  proof (cases "first + local \<ge> count")
    case True
    then have "unat count \<le> a" using Suc.prems(1) by (simp add: word_le_nat_alt)
    then show ?thesis using True by (simp add: scan_range_empty Let_def)
  next
    case False
    then have a: "a < unat count" and lt: "first + local < count"
      using Suc.prems(1) by (simp_all add: word_le_nat_alt word_less_nat_alt)
    have word: "(if start + (first + local) \<ge> count then start + (first + local) - count
        else start + (first + local)) = scan_fiber count start a"
      using scan_fiber_word [OF assms(1,2) lt] Suc.prems(1) by (simp add: Let_def)
    have next_a: "unat (first + (local + 1)) = Suc a"
      using Suc.prems(1) a assms(1)
      by (subst add.assoc [symmetric], subst unat_add_lem [THEN iffD1]) simp_all
    have tail: "acquire_chunk_loop n B K count start first (local + 1) t =
        scan_fibers B K (scan_range count start (Suc a) (Suc a + n)) t" for t :: "'w machine"
      using Suc.IH [OF next_a] a assms(1) Suc.prems(3) by simp
    have head: "scan_range count start a (a + Suc n) =
        scan_fiber count start a # scan_range count start (Suc a) (Suc a + n)"
      using a by (simp add: scan_range_Cons)
    show ?thesis
      unfolding head acquire_chunk_loop.simps Let_def word
      using False tail by (simp split: prod.split)
  qed
qed

lemma scan_found_iff:
  assumes "unat count \<le> 65535" and "scan_fibers B K (scan_range count start a b) s = (f, s')"
  shows "f < count \<longleftrightarrow> f \<noteq> BPF_CAPSULE_NO_FIBER"
proof -
  have "f = BPF_CAPSULE_NO_FIBER \<or> f \<in> set (scan_range count start a b)"
    using scan_fibers_result [of B K "scan_range count start a b" s] assms(2) by auto
  then show ?thesis
    using scan_range_less [of f count start a b] assms(1)
    by (auto simp: BPF_CAPSULE_NO_FIBER_def word_less_nat_alt)
qed

lemma acquire_chunk_scan:
  fixes s :: "'w machine"
  assumes "unat (bpf_capsule_fiber_count B s) \<le> 65535" and "start < bpf_capsule_fiber_count B s"
  shows "bpf_capsule_fiber_acquire_chunk B K start first s =
    scan_fibers B K (scan_range (bpf_capsule_fiber_count B s) start (unat first) (unat first + 16)) s"
proof (cases "first \<ge> bpf_capsule_fiber_count B s")
  case True
  then show ?thesis
    by (simp add: bpf_capsule_fiber_acquire_chunk_def Let_def scan_range_empty word_le_nat_alt)
next
  case False
  then have "unat first \<le> 65535" using assms(1) by (simp add: word_le_nat_alt)
  then show ?thesis
    using False assms acquire_chunk_loop_scan [OF assms, of first 0 "unat first" 16 B K s]
      assms(2) [THEN not_le [THEN iffD2]]
    by (simp add: bpf_capsule_fiber_acquire_chunk_def Let_def BPF_CAPSULE_FIBER_SCAN_CHUNK_def)
qed

lemma acquire_page_loop_scan:
  fixes s :: "'w machine"
  assumes "unat (bpf_capsule_fiber_count B s) \<le> 65535" and "start < bpf_capsule_fiber_count B s"
    and "bpf_capsule_fiber_count B s = count"
    and "unat (first + chunk * 16) = a" and "a \<le> 131072"
  shows "acquire_page_loop n B K count start first chunk s =
    scan_fibers B K (scan_range count start a (a + 16 * n)) s"
  using assms
proof (induction n arbitrary: chunk a s)
  case 0
  then show ?case by (simp add: scan_range_def)
next
  case (Suc n)
  let ?offset = "first + chunk * BPF_CAPSULE_FIBER_SCAN_CHUNK"
  have off: "unat ?offset = a"
    using Suc.prems(4) by (simp add: BPF_CAPSULE_FIBER_SCAN_CHUNK_def)
  show ?case
  proof (cases "?offset \<ge> count")
    case True
    then have "unat count \<le> a" using off by (simp add: word_le_nat_alt)
    then show ?thesis using True by (simp add: scan_range_empty Let_def)
  next
    case False
    then have a: "a < unat count" using off by (simp add: word_le_nat_alt)
    obtain f s' where chunk_eq: "bpf_capsule_fiber_acquire_chunk B K start ?offset s = (f, s')"
      by (cases "bpf_capsule_fiber_acquire_chunk B K start ?offset s")
    then have scan: "scan_fibers B K (scan_range count start a (a + 16)) s = (f, s')"
      using acquire_chunk_scan [OF Suc.prems(1,2), of K ?offset] Suc.prems(3) off by simp
    have count': "bpf_capsule_fiber_count B s' = count"
      using scan_fibers_count [of B K "scan_range count start a (a + 16)" s] scan Suc.prems(3) by simp
    have c65: "unat count \<le> 65535" using Suc.prems(1,3) by simp
    have next_a: "unat (first + (chunk + 1) * 16) = a + 16"
    proof -
      have "unat ((first + chunk * 16) + 16) = unat (first + chunk * 16) + unat (16 :: u32)"
        by (rule unat_add_lem [THEN iffD1]) (use Suc.prems(4) a c65 in simp)
      moreover have "(first + chunk * 16) + 16 = first + (chunk + 1) * 16"
        by (simp add: algebra_simps)
      ultimately show ?thesis using Suc.prems(4) by (simp only:) simp
    qed
    have tail: "acquire_page_loop n B K count start first (chunk + 1) s' =
        scan_fibers B K (scan_range count start (a + 16) (a + 16 + 16 * n)) s'"
      using Suc.IH [OF _ _ count' next_a] count' Suc.prems(2,3) a c65 by simp
    have split: "scan_range count start a (a + 16 * Suc n) =
        scan_range count start a (a + 16) @ scan_range count start (a + 16) (a + 16 + 16 * n)"
      using scan_range_append [of a "a + 16" "a + 16 + 16 * n" count start] by (simp add: add.assoc)
    show ?thesis
      unfolding split
      using False chunk_eq tail scan scan_found_iff [OF c65 scan]
      by (simp add: scan_fibers_append [OF no_fiber_notin_range [OF c65]] Let_def)
  qed
qed

lemma acquire_page_scan:
  fixes s :: "'w machine"
  assumes "unat (bpf_capsule_fiber_count B s) \<le> 65535" and "start < bpf_capsule_fiber_count B s"
  shows "bpf_capsule_fiber_acquire_page B K start first s =
    scan_fibers B K (scan_range (bpf_capsule_fiber_count B s) start (unat first) (unat first + 256)) s"
proof (cases "first \<ge> bpf_capsule_fiber_count B s")
  case True
  then show ?thesis
    by (simp add: bpf_capsule_fiber_acquire_page_def Let_def scan_range_empty word_le_nat_alt)
next
  case False
  then have "unat first \<le> 131072" using assms(1) by (simp add: word_le_nat_alt)
  then show ?thesis
    using False assms acquire_page_loop_scan [OF assms refl, of first 0 "unat first" 16 K]
    by (simp add: bpf_capsule_fiber_acquire_page_def Let_def BPF_CAPSULE_FIBER_SCAN_CHUNK_def)
qed

lemma acquire_scan_loop_scan:
  fixes s :: "'w machine"
  assumes "unat (bpf_capsule_fiber_count B s) \<le> 65535" and "start < bpf_capsule_fiber_count B s"
    and "bpf_capsule_fiber_count B s = count"
    and "unat (page * 256) = a" and "a + 256 * n < 2 ^ 32"
  shows "acquire_scan_loop n B K count start page s =
    (case scan_fibers B K (scan_range count start a (a + 256 * n)) s of (f, s') \<Rightarrow>
       if f < count then (f, bpf_capsule_prepare_fiber B f s') else (BPF_CAPSULE_NO_FIBER, s'))"
  using assms
proof (induction n arbitrary: page a s)
  case 0
  then show ?case by (simp add: scan_range_def BPF_CAPSULE_NO_FIBER_def word_less_nat_alt)
next
  case (Suc n)
  have c65: "unat count \<le> 65535" using Suc.prems(1,3) by simp
  obtain f s' where page_eq:
    "bpf_capsule_fiber_acquire_page B K start (page * BPF_CAPSULE_FIBER_SCAN_PAGE) s = (f, s')"
    by (cases "bpf_capsule_fiber_acquire_page B K start (page * BPF_CAPSULE_FIBER_SCAN_PAGE) s")
  have p: "page * BPF_CAPSULE_FIBER_SCAN_PAGE = page * 256"
    by (simp add: BPF_CAPSULE_FIBER_SCAN_PAGE_def BPF_CAPSULE_FIBER_SCAN_CHUNK_def)
  have scan: "scan_fibers B K (scan_range count start a (a + 256)) s = (f, s')"
    using acquire_page_scan [OF Suc.prems(1,2), of K "page * 256"] page_eq Suc.prems(3,4)
    unfolding p by simp
  have count': "bpf_capsule_fiber_count B s' = count"
    using scan_fibers_count [of B K "scan_range count start a (a + 256)" s] scan Suc.prems(3) by simp
  have next_a: "unat ((page + 1) * 256) = a + 256"
  proof -
    have "(page + 1) * 256 = page * 256 + 256" by (simp add: algebra_simps)
    moreover have "unat (page * 256 + 256) = unat (page * 256) + unat (256 :: u32)"
      by (rule unat_add_lem [THEN iffD1]) (use Suc.prems(4,5) in simp)
    ultimately have "unat ((page + 1) * 256) = unat (page * 256) + unat (256 :: u32)" by (rule ssubst)
    then show ?thesis unfolding Suc.prems(4) by (rule trans) simp
  qed
  have tail: "acquire_scan_loop n B K count start (page + 1) s' =
    (case scan_fibers B K (scan_range count start (a + 256) (a + 256 + 256 * n)) s' of (f, s') \<Rightarrow>
       if f < count then (f, bpf_capsule_prepare_fiber B f s') else (BPF_CAPSULE_NO_FIBER, s'))"
    using Suc.IH [OF _ _ count' next_a] count' Suc.prems(2,3,5) c65 by simp
  have split: "scan_range count start a (a + 256 * Suc n) =
      scan_range count start a (a + 256) @ scan_range count start (a + 256) (a + 256 + 256 * n)"
    using scan_range_append [of a "a + 256" "a + 256 + 256 * n" count start] by (simp add: add.assoc)
  show ?case
    unfolding split
    using page_eq tail scan scan_found_iff [OF c65 scan]
    by (simp add: scan_fibers_append [OF no_fiber_notin_range [OF c65]])
qed

lemma scan_pages_cover:
  assumes "build_ok B"
  shows "unat (b_max_fibers B) \<le> 256 * scan_pages B" and "256 * scan_pages B < 2 ^ 32"
proof -
  let ?m = "unat (b_max_fibers B)"
  have m: "1 \<le> ?m" "?m \<le> 65535"
    using assms by (auto simp: build_ok_def BPF_CAPSULE_MAX_FIBERS_LIMIT_def word_le_nat_alt)
  have p: "BPF_CAPSULE_FIBER_SCAN_PAGE = 256"
    by (simp add: BPF_CAPSULE_FIBER_SCAN_PAGE_def BPF_CAPSULE_FIBER_SCAN_CHUNK_def)
  have "b_max_fibers B + BPF_CAPSULE_FIBER_SCAN_PAGE - 1 = b_max_fibers B + 255"
    by (simp add: p)
  moreover have "unat (b_max_fibers B + 255) = ?m + 255"
    using m by (subst unat_add_lem [THEN iffD1]) simp_all
  ultimately have "scan_pages B = (?m + 255) div 256"
    unfolding scan_pages_def p by (simp only: unat_div) simp
  then show "?m \<le> 256 * scan_pages B" "256 * scan_pages B < 2 ^ 32"
    using m by auto
qed

definition scan_order :: "u32 \<Rightarrow> u32 \<Rightarrow> u32 list" where
  "scan_order count start = map (scan_fiber count start) [0..<unat count]"

lemma acquire_scan_all:
  fixes s :: "'w machine"
  assumes B: "build_ok B" and count: "bpf_capsule_fiber_count B s = count" and "count \<noteq> 0"
  shows "acquire_scan_loop (scan_pages B) B K count (cpu mod count) 0 s =
    (case scan_fibers B K (scan_order count (cpu mod count)) s of (f, s') \<Rightarrow>
       if f < count then (f, bpf_capsule_prepare_fiber B f s') else (BPF_CAPSULE_NO_FIBER, s'))"
proof -
  have start: "cpu mod count < bpf_capsule_fiber_count B s"
    unfolding count using assms(3) by (simp add: word_less_nat_alt unat_mod unat_gt_0)
  have "unat count \<le> 256 * scan_pages B"
    using le_trans [OF fiber_count_le_max [of B s] scan_pages_cover(1) [OF B]] by (simp only: count)
  then have range: "scan_range count (cpu mod count) 0 (0 + 256 * scan_pages B) =
      scan_order count (cpu mod count)"
    by (simp only: scan_range_def scan_order_def min_absorb2 add_0)
  have zero: "unat ((0 :: u32) * 256) = 0" and top: "0 + 256 * scan_pages B < 2 ^ 32"
    using scan_pages_cover(2) [OF B] by simp_all
  show ?thesis
    unfolding acquire_scan_loop_scan [OF fiber_count_le [OF B] start count zero top] range ..
qed

text \<open>The scan order is a permutation of the whole pool.\<close>

lemma set_scan_order:
  assumes "count \<noteq> 0"
  shows "set (scan_order count start) = {f. f < count}"
proof -
  have c: "0 < unat count" using assms by (simp add: unat_gt_0)
  have "f \<in> set (scan_order count start)" if "f < count" for f
  proof -
    have f: "unat f < unat count" using that by (simp add: word_less_nat_alt)
    let ?s = "unat start mod unat count"
    let ?a = "(unat f + unat count - ?s) mod unat count"
    have "(unat start + ?a) mod unat count = (?s + (unat f + unat count - ?s)) mod unat count"
      by (simp only: mod_add_left_eq mod_add_right_eq)
    also have "?s + (unat f + unat count - ?s) = unat f + unat count"
      using mod_less_divisor [OF c, of "unat start"] by linarith
    also have "(unat f + unat count) mod unat count = unat f" using f by simp
    finally have "scan_fiber count start ?a = f"
      by (simp add: unat_scan_fiber [OF c] word_unat_eq_iff)
    moreover have "?a \<in> {0..<unat count}" using c by simp
    ultimately show ?thesis
      unfolding scan_order_def set_map set_upt by (metis image_eqI)
  qed
  then show ?thesis using scan_fiber_less [OF c] by (auto simp: scan_order_def)
qed

section \<open>A loaded object\<close>

text \<open>The state of an object that has just been loaded and has run nothing: empty runtime maps and a
  zero-filled control table.\<close>

definition loaded_machine :: "object_config \<Rightarrow> 'w \<Rightarrow> 'w machine" where
  "loaded_machine config w = \<lparr>m_fibers = (\<lambda>_. zero_control), m_config = config,
     m_issued = Map.empty, m_free = [], m_leases = Map.empty, m_claims = Map.empty,
     m_heap_entries = 0, m_host_ready = 1, m_world = w\<rparr>"

definition sample_config :: "bool \<Rightarrow> u32 \<Rightarrow> object_config" where
  "sample_config arena count = \<lparr>cfg_heap_base = 0x400000, cfg_heap_bytes = 0x100000,
     cfg_stack_base = 0x800000, cfg_memory_end = 0x800000 + 0x10000 * count,
     cfg_fiber_count = count, cfg_stack_bytes_per_fiber = 0x10000, cfg_max_fibers = 4,
     cfg_arena_image_pages = 0, cfg_memory_backend = (if arena then 1 else 0),
     cfg_direct_memory_regions = 3, cfg_abi_magic = BPF_CAPSULE_ABI_MAGIC,
     cfg_abi_version = BPF_CAPSULE_ABI_VERSION, cfg_memory_view_base = 0x100000000\<rparr>"

definition sample_build :: "bool \<Rightarrow> build" where
  "sample_build arena = \<lparr>b_arena = arena, b_max_fibers = 4\<rparr>"

definition sample_machine :: "bool \<Rightarrow> u32 \<Rightarrow> unit machine" where
  "sample_machine arena count = loaded_machine (sample_config arena count) ()"

lemmas sample_defs = sample_machine_def sample_build_def sample_config_def loaded_machine_def

lemma sample_build_ok [simp]: "build_ok (sample_build arena)"
  by (simp add: build_ok_def sample_build_def BPF_CAPSULE_MAX_FIBERS_LIMIT_def word_le_nat_alt)

lemma sample_count: "bpf_capsule_fiber_count (sample_build arena) (sample_machine arena 3) = 3"
  by (simp add: sample_defs bpf_capsule_fiber_count_def)

section \<open>Equivalence of the two scans\<close>

text \<open>C4: the scan factored into pages of sixteen chunks of sixteen attempts is the plain scan that
  tries every fiber of the pool once, in ascending order and wrapping round, from the current CPU's
  slot; the order visits each active fiber. The factoring changes neither the fiber chosen nor the
  resulting state, for any behaviour of the map helpers.\<close>

theorem factored_scan_eq_plain_scan:
  fixes s :: "'w machine"
  assumes "build_ok B" and "bpf_capsule_fiber_count B s = count" and "count \<noteq> 0"
  shows "acquire_scan_loop (scan_pages B) B K count (k_cpu K mod count) 0 s =
      (case scan_fibers B K (scan_order count (k_cpu K mod count)) s of (f, s') \<Rightarrow>
         if f < count then (f, bpf_capsule_prepare_fiber B f s') else (BPF_CAPSULE_NO_FIBER, s'))
    \<and> set (scan_order count (k_cpu K mod count)) = {f. f < count}
    \<and> length (scan_order count (k_cpu K mod count)) = unat count"
  using acquire_scan_all [OF assms] set_scan_order [OF assms(3)] by (simp add: scan_order_def)

theorem factored_scan_eq_plain_scan_witness:
  "fst (acquire_scan_loop (scan_pages (sample_build True)) (sample_build True) (plain_kernel 4 5) 3
      (5 mod 3) 0 (sample_machine True 3)) = 2
    \<and> fst (scan_fibers (sample_build True) (plain_kernel 4 5) (scan_order 3 (5 mod 3))
      (sample_machine True 3)) = 2"
proof -
  have "fst (acquire_scan_loop (scan_pages (sample_build True)) (sample_build True) (plain_kernel 4 5)
      3 (5 mod 3) 0 (sample_machine True 3)) = 2"
    by code_simp
  moreover have cpu: "k_cpu (plain_kernel 4 5) = 5" by (simp add: plain_kernel_def)
  ultimately show ?thesis
    using factored_scan_eq_plain_scan [OF sample_build_ok sample_count, of True "plain_kernel 4 5"]
    unfolding cpu by (auto simp: BPF_CAPSULE_NO_FIBER_def split: prod.splits if_splits)
qed

end
