(* ===== verification/Step_Dispatch.thy ===== *)
theory Step_Dispatch
  imports Region_Ids Fiber_Pool
begin

text \<open>
  The dispatch code that \<open>src/src/pass/stackify.cpp\<close> generates: the comparison tree of every
  allocation unit (\<open>FinishAllocationUnits\<close>), the router of every physical root and the step
  function itself (\<open>BuildStepFunction\<close>). The definitions give the meaning of the emitted code; the
  body of a region is a parameter, the root of its continuation state.
\<close>

section \<open>Balanced comparison trees\<close>

text \<open>The tree the work lists build over the range \<open>[b, e)\<close> of sorted entries: a leaf at one entry,
  otherwise one unsigned comparison with the middle entry's key.\<close>

function select_tree :: "(nat \<Rightarrow> u32) \<Rightarrow> nat \<Rightarrow> nat \<Rightarrow> u32 \<Rightarrow> nat" where
  "select_tree key b e k =
     (if e - b \<le> 1 then b
      else let middle = b + (e - b) div 2
           in if k < key middle then select_tree key b middle k else select_tree key middle e k)"

  by pat_completeness auto

termination select_tree
  by (relation "measure (\<lambda>(key, b, e, k). e - b)") auto

declare select_tree.simps [simp del]

text \<open>The number of comparisons on the way to a leaf.\<close>

function select_tests :: "(nat \<Rightarrow> u32) \<Rightarrow> nat \<Rightarrow> nat \<Rightarrow> u32 \<Rightarrow> nat" where
  "select_tests key b e k =
     (if e - b \<le> 1 then 0
      else let middle = b + (e - b) div 2
           in 1 + (if k < key middle then select_tests key b middle k
                   else select_tests key middle e k))"

  by pat_completeness auto

termination select_tests
  by (relation "measure (\<lambda>(key, b, e, k). e - b)") auto

declare select_tests.simps [simp del]

lemma select_tree_unique:
  assumes "b \<le> i" and "i < e" and "i = b \<or> key i \<le> k" and "i + 1 < e \<Longrightarrow> k < key (i + 1)"
    and "\<And>x y. b \<le> x \<Longrightarrow> x < y \<Longrightarrow> y < e \<Longrightarrow> key x < key y"
  shows "select_tree key b e k = i"
  using assms
proof (induction key b e k rule: select_tree.induct)
  case (1 key b e k)
  let ?m = "b + (e - b) div 2"
  show ?case
  proof (cases "e - b \<le> 1")
    case True
    then have "i = b" using 1(3,4) by linarith
    then show ?thesis using True by (simp add: select_tree.simps)
  next
    case False
    then have m: "b < ?m" "?m < e" by auto
    show ?thesis
    proof (cases "k < key ?m")
      case True
      have "i < ?m"
      proof (rule ccontr)
        assume "\<not> i < ?m"
        then have "key ?m \<le> key i" using 1(7) [of ?m i] m 1(4) by (cases "i = ?m") auto
        moreover have "key i \<le> k" using 1(5) \<open>\<not> i < ?m\<close> m by auto
        ultimately show False using True by simp
      qed
      then have "select_tree key b ?m k = i"
        using 1(1) [OF False refl True] 1(3,5,6,7) m by auto
      then show ?thesis using False True by (simp add: select_tree.simps [of key b e])
    next
      case k: False
      have "?m \<le> i"
      proof (rule ccontr)
        assume lt: "\<not> ?m \<le> i"
        then have "key (i + 1) \<le> key ?m" using 1(7) [of "i + 1" ?m] m 1(3) by (cases "i + 1 = ?m") auto
        then show False using 1(6) lt m k by auto
      qed
      moreover have "i = ?m \<or> key i \<le> k" using 1(5) m calculation by auto
      ultimately have "select_tree key ?m e k = i"
        using 1(2) [OF False refl k] 1(4,6,7) m by auto
      then show ?thesis using False k by (simp add: select_tree.simps [of key b e])
    qed
  qed
qed

lemma select_tests_bound: "e - b \<le> 2 ^ n \<Longrightarrow> select_tests key b e k \<le> n"
proof (induction n arbitrary: b e)
  case 0
  then show ?case by (simp add: select_tests.simps)
next
  case (Suc n)
  let ?m = "b + (e - b) div 2"
  have "?m - b \<le> 2 ^ n" "e - ?m \<le> 2 ^ n" using Suc.prems by auto
  then show ?case using Suc.IH by (simp add: select_tests.simps [of key b e] Let_def)
qed

section \<open>Selecting a region\<close>

text \<open>\<open>FinishAllocationUnits\<close>: the region of a unit that a key selects.\<close>

definition state_key :: "bool \<Rightarrow> 'r region_state list \<Rightarrow> nat \<Rightarrow> u32" where
  "state_key indirect states i = DispatchRegionKey indirect (st_id (states ! i))"

definition unit_select :: "bool \<Rightarrow> 'r allocation_unit \<Rightarrow> u32 \<Rightarrow> 'r" where
  "unit_select indirect unit key =
     (let states = sort_key (\<lambda>st. DispatchRegionKey indirect (st_id st)) (au_states unit)
      in st_root (states ! select_tree (state_key indirect states) 0 (length states) key))"

text \<open>The first key of a unit's range, by the minimum loop of \<open>BuildStepFunction\<close>.\<close>

definition route_begin :: "bool \<Rightarrow> 'r allocation_unit \<Rightarrow> u32" where
  "route_begin indirect unit =
     fold (\<lambda>st begin. min begin (DispatchRegionKey indirect (st_id st))) (au_states unit) 0xFFFFFFFF"

text \<open>The router of one physical root over the units it owns. An instruction-array target has one
  case per region and traps on every other key; otherwise a tree over the units' first keys selects
  the unit, and a root without units traps.\<close>

definition root_select :: "bool \<Rightarrow> 'r allocation_unit list \<Rightarrow> u32 \<Rightarrow> 'r option" where
  "root_select indirect units key =
     (if indirect then
        map_option (\<lambda>unit. unit_select indirect unit key)
          (find (\<lambda>unit. key \<in> (\<lambda>st. DispatchRegionKey indirect (st_id st)) ` set (au_states unit)) units)
      else if units = [] then None
      else (let routes = sort_key (route_begin indirect) units
            in Some (unit_select indirect
                 (routes ! select_tree (\<lambda>i. route_begin indirect (routes ! i)) 0 (length routes) key)
                 key)))"

section \<open>Selection finds the region an ID names\<close>

lemma unat_region_key:
  assumes "n < 2 ^ 16" and "step < 2 ^ 8"
  shows "unat (DispatchRegionKey indirect (packed_id n step)) = (if indirect then n else n * 256)"
proof -
  have "unat (push_bit 8 (word_of_nat n) :: u32) = n * 256"
    using unat_packed_id [OF assms(1), of 0] by (simp add: packed_id_def BPF_CAPSULE_REGION_ID_STEP_BITS_def)
  then show ?thesis using assms(1) by (simp add: region_key_packed [OF assms] unat_of_nat)
qed

lemma region_key_mono:
  assumes "m < n" and "n < 2 ^ 16" and "step < 2 ^ 8"
  shows "DispatchRegionKey indirect (packed_id m step) < DispatchRegionKey indirect (packed_id n step)"
  using assms unat_region_key [of m step indirect] unat_region_key [of n step indirect]
  by (simp add: word_less_nat_alt)

text \<open>Units laid out densely from \<open>base\<close> on one step, as packing leaves them.\<close>

definition unit_offset :: "'r allocation_unit list \<Rightarrow> nat \<Rightarrow> nat" where
  "unit_offset units i = length (concat (map au_states (take i units)))"

definition dense_units :: "nat \<Rightarrow> nat \<Rightarrow> 'r allocation_unit list \<Rightarrow> bool" where
  "dense_units base step units \<longleftrightarrow> step < 2 ^ 8 \<and>
     (\<forall>i<length units. au_states (units ! i) \<noteq> [] \<and>
        base + unit_offset units i + length (au_states (units ! i)) \<le> 2 ^ 16 \<and>
        (\<forall>j<length (au_states (units ! i)).
           st_id (au_states (units ! i) ! j) = packed_id (base + unit_offset units i + j) step))"

lemma dense_unitsD:
  assumes "dense_units base step units" and "i < length units"
  shows "step < 2 ^ 8" and "au_states (units ! i) \<noteq> []"
    and "base + unit_offset units i + length (au_states (units ! i)) \<le> 2 ^ 16"
    and "j < length (au_states (units ! i)) \<Longrightarrow>
      st_id (au_states (units ! i) ! j) = packed_id (base + unit_offset units i + j) step"
  using assms unfolding dense_units_def by auto

lemma unit_offset_Suc:
  "i < length units \<Longrightarrow> unit_offset units (Suc i) = unit_offset units i + length (au_states (units ! i))"
  by (simp add: unit_offset_def take_Suc_conv_app_nth)

lemma unit_offset_mono: "i \<le> k \<Longrightarrow> unit_offset units i \<le> unit_offset units k"
  unfolding unit_offset_def
  by (metis concat_append le_add1 le_add_diff_inverse length_append map_append take_add)

lemma unit_offset_less:
  assumes "dense_units base step units" and "i < k" and "k < length units"
  shows "unit_offset units i + length (au_states (units ! i)) \<le> unit_offset units k"
  using unit_offset_mono [of "Suc i" k units] unit_offset_Suc [of i units] assms by simp

lemma unit_key:
  assumes "dense_units base step units" and "i < length units" and "j < length (au_states (units ! i))"
  shows "DispatchRegionKey indirect (st_id (au_states (units ! i) ! j)) =
      DispatchRegionKey indirect (packed_id (base + unit_offset units i + j) step)"
    and "base + unit_offset units i + j < 2 ^ 16"
  using dense_unitsD [OF assms(1,2)] assms(3) by auto

lemma unit_key_less:
  assumes dense: "dense_units base step units" and i: "i < length units"
    and "m < n" and n: "n < length (au_states (units ! i))"
  shows "DispatchRegionKey indirect (st_id (au_states (units ! i) ! m)) <
    DispatchRegionKey indirect (st_id (au_states (units ! i) ! n))"
proof -
  have m: "m < length (au_states (units ! i))" using assms by simp
  show ?thesis
    unfolding unit_key(1) [OF dense i n] unit_key(1) [OF dense i m]
    by (rule region_key_mono)
      (use assms unit_key(2) [OF dense i n] dense_unitsD(1) [OF dense i] in auto)
qed

lemma unit_keys_sorted:
  assumes dense: "dense_units base step units" and i: "i < length units"
  shows "sorted (map (\<lambda>st. DispatchRegionKey indirect (st_id st)) (au_states (units ! i)))"
  using unit_key_less [OF dense i] by (force simp: sorted_iff_nth_mono_less less_imp_le)

lemma unit_select_hit:
  assumes dense: "dense_units base step units" and i: "i < length units"
    and j: "j < length (au_states (units ! i))"
  shows "unit_select indirect (units ! i)
      (DispatchRegionKey indirect (st_id (au_states (units ! i) ! j))) =
    st_root (au_states (units ! i) ! j)"
proof -
  let ?states = "au_states (units ! i)"
  let ?key = "state_key indirect ?states"
  have sort: "sort_key (\<lambda>st. DispatchRegionKey indirect (st_id st)) ?states = ?states"
    by (rule sort_key_id_if_sorted [OF unit_keys_sorted [OF dense i]])
  have "select_tree ?key 0 (length ?states) (?key j) = j"
    by (rule select_tree_unique) (use j unit_key_less [OF dense i] in \<open>auto simp: state_key_def\<close>)
  then show ?thesis by (simp add: unit_select_def sort state_key_def)
qed

lemma fold_min_first:
  assumes "\<And>n. n < length xs \<Longrightarrow> x \<le> f (xs ! n)"
  shows "fold (\<lambda>y m. min m (f y)) xs (x :: u32) = x"
  using assms
proof (induction xs)
  case (Cons y ys)
  have "x \<le> f y" using Cons.prems [of 0] by simp
  moreover have "x \<le> f (ys ! n)" if "n < length ys" for n using Cons.prems [of "Suc n"] that by simp
  ultimately show ?case using Cons.IH by (simp add: min_def)
qed simp

lemma route_begin_dense:
  assumes dense: "dense_units base step units" and i: "i < length units"
  shows "route_begin indirect (units ! i) =
    DispatchRegionKey indirect (packed_id (base + unit_offset units i) step)"
proof -
  let ?f = "\<lambda>st. DispatchRegionKey indirect (st_id st)"
  obtain st sts where st: "au_states (units ! i) = st # sts"
    using dense_unitsD(2) [OF dense i] by (cases "au_states (units ! i)") auto
  have "?f st \<le> ?f (sts ! n)" if "n < length sts" for n
    using unit_key_less [OF dense i, of 0 "Suc n" indirect] that st by (simp add: less_imp_le)
  then have "fold (\<lambda>y m. min m (?f y)) sts (?f st) = ?f st" by (rule fold_min_first)
  moreover have "min 0xFFFFFFFF (?f st) = ?f st"
    by (rule min_absorb2 [OF u32_le_max])
  ultimately have "route_begin indirect (units ! i) = ?f st"
    by (simp add: route_begin_def st)
  then show ?thesis using unit_key(1) [OF dense i, of 0 indirect] st by simp
qed

lemma routes_sorted:
  assumes dense: "dense_units base step units" and "i < k" and k: "k < length units"
  shows "route_begin indirect (units ! i) < route_begin indirect (units ! k)"
proof -
  have i: "i < length units" using assms by simp
  have "unit_offset units i < unit_offset units k"
    using unit_offset_less [OF dense assms(2) k] dense_unitsD(2) [OF dense i] by (cases "au_states (units ! i)") auto
  moreover have "base + unit_offset units k < 2 ^ 16"
    using dense_unitsD(2,3) [OF dense k] by (cases "au_states (units ! k)") auto
  ultimately show ?thesis
    unfolding route_begin_dense [OF dense i] route_begin_dense [OF dense k]
    by (intro region_key_mono) (use dense_unitsD(1) [OF dense k] in auto)
qed

text \<open>An ID finds its region, whichever form of routing the target uses.\<close>

lemma root_select_hit:
  assumes dense: "dense_units base step units" and i: "i < length units"
    and j: "j < length (au_states (units ! i))"
  shows "root_select indirect units
      (DispatchRegionKey indirect (st_id (au_states (units ! i) ! j))) =
    Some (st_root (au_states (units ! i) ! j))"
proof -
  let ?key = "\<lambda>i j. DispatchRegionKey indirect (st_id (au_states (units ! i) ! j))"
  have hit: "unit_select indirect (units ! i) (?key i j) = st_root (au_states (units ! i) ! j)"
    by (rule unit_select_hit [OF dense i j])
  have other: "k = i" if k: "k < length units" and n: "n < length (au_states (units ! k))"
    and eq: "?key k n = ?key i j" for k n
  proof (rule ccontr)
    assume "k \<noteq> i"
    have "base + unit_offset units k + n \<noteq> base + unit_offset units i + j"
      using \<open>k \<noteq> i\<close> unit_offset_less [OF dense _ i, of k] unit_offset_less [OF dense _ k, of i] j n
      by (cases "k < i") auto
    then show False
      using region_key_mono [OF _ unit_key(2) [OF dense i j], of "base + unit_offset units k + n" step indirect]
        region_key_mono [OF _ unit_key(2) [OF dense k n], of "base + unit_offset units i + j" step indirect]
        eq dense_unitsD(1) [OF dense i]
      unfolding unit_key(1) [OF dense i j] unit_key(1) [OF dense k n] by force
  qed
  show ?thesis
  proof (cases indirect)
    case False
    have sort: "sort_key (route_begin indirect) units = units"
      using routes_sorted [OF dense, of _ _ indirect]
      by (intro sort_key_id_if_sorted) (force simp: sorted_iff_nth_mono_less less_imp_le)
    have begin_i: "route_begin indirect (units ! i) \<le> ?key i j"
      using unit_key_less [OF dense i, of 0 j indirect] j dense_unitsD(2,4) [OF dense i]
      by (cases j) (auto simp: route_begin_dense [OF dense i] unit_key(1) [OF dense i] less_imp_le)
    have begin_k: "?key i j < route_begin indirect (units ! (i + 1))" if k: "i + 1 < length units"
    proof -
      have "base + unit_offset units (i + 1) < 2 ^ 16"
        using dense_unitsD(2,3) [OF dense k] by (cases "au_states (units ! (i + 1))") auto
      then show ?thesis
        unfolding route_begin_dense [OF dense k] unit_key(1) [OF dense i j]
        by (intro region_key_mono) (use unit_offset_less [OF dense _ k, of i] j
            dense_unitsD(1) [OF dense i] in auto)
    qed
    have "select_tree (\<lambda>k. route_begin indirect (units ! k)) 0 (length units) (?key i j) = i"
      by (rule select_tree_unique) (use i begin_i begin_k routes_sorted [OF dense] in auto)
    then show ?thesis using False hit sort i by (auto simp: root_select_def)
  next
    case True
    let ?P = "\<lambda>unit. ?key i j \<in> (\<lambda>st. DispatchRegionKey indirect (st_id st)) ` set (au_states unit)"
    have "?P (units ! i)" using j by auto
    then obtain u where u: "find ?P units = Some u"
      using i by (cases "find ?P units") (auto simp: find_None_iff)
    then obtain k where k: "k < length units" "u = units ! k" "?P u"
      by (auto simp: find_Some_iff)
    then obtain n where "n < length (au_states (units ! k))" "?key k n = ?key i j"
      by (auto simp: in_set_conv_nth)
    then have "u = units ! i" using other k by auto
    then show ?thesis using True u hit by (simp add: root_select_def)
  qed
qed

section \<open>The step function\<close>

text \<open>A program as the compiler leaves it. The body of a region takes the borrowed context, the fiber
  and the stack base, and returns its action and the state; context and base are 0 where the
  generated signature has no such parameter.\<close>

record 'r program =
  pg_units :: "'r allocation_unit list"
  pg_scalar_roots :: nat
  pg_borrowed_roots :: nat
  pg_scalar_step_count :: nat
  pg_indirect :: bool

type_synonym 'w region_code = "u64 \<Rightarrow> u32 \<Rightarrow> u64 \<Rightarrow> 'w machine \<Rightarrow> int \<times> 'w machine"

definition ActionContinue :: int where "ActionContinue = 0"
definition ActionStop :: int where "ActionStop = 1"

text \<open>\<open>PublishExit\<close>: one store of the outcome word through the normalized fiber index.\<close>

definition PublishExit :: "build \<Rightarrow> u32 \<Rightarrow> i32 \<Rightarrow> 'w machine \<Rightarrow> 'w machine" where
  "PublishExit B fiber code s =
     put_control (fiber_index B fiber) (store_outcome (OutcomeValue code) (get_control B s fiber)) s"

definition root_units :: "'r program \<Rightarrow> bool \<Rightarrow> nat \<Rightarrow> 'r allocation_unit list" where
  "root_units P borrowed root =
     filter (\<lambda>unit. au_borrowed unit = borrowed \<and> au_output_root unit = root) (pg_units P)"

text \<open>The cases of the step switch that lead to a root: its own roots, and for a context step the
  scalar roots below them. \<open>None\<close> is the trap, in the switch or in the root.\<close>

definition region_select :: "'r program \<Rightarrow> bool \<Rightarrow> u32 \<Rightarrow> 'r option" where
  "region_select P borrowed rid =
     (let step_key = unat (step_index rid); region_key = emitted_region_key (pg_indirect P) rid;
          scalar = pg_scalar_step_count P
      in if borrowed then
           (if scalar \<le> step_key \<and> step_key < scalar + pg_borrowed_roots P
            then root_select (pg_indirect P) (root_units P True (step_key - scalar)) region_key
            else if step_key < scalar
            then root_select (pg_indirect P) (root_units P False step_key) region_key
            else None)
         else if step_key < pg_scalar_roots P
         then root_select (pg_indirect P) (root_units P False step_key) region_key
         else None)"

text \<open>Whether the two lifecycle tests are folded into the step switch, in 32-bit arithmetic.\<close>

definition foldLifecycle :: "'r program \<Rightarrow> bool \<Rightarrow> bool" where
  "foldLifecycle P borrowed \<longleftrightarrow>
     (if borrowed then word_of_nat (pg_scalar_step_count P) else 0) +
       word_of_nat (if borrowed then pg_borrowed_roots P else pg_scalar_roots P) - 1
     < BPF_CAPSULE_REGION_ID_DONE AND BPF_CAPSULE_REGION_ID_STEP_MASK"

definition set_resume :: "build \<Rightarrow> u32 \<Rightarrow> u32 \<Rightarrow> 'w machine \<Rightarrow> 'w machine" where
  "set_resume B fiber rid s =
     put_control (fiber_index B fiber) ((get_control B s fiber)\<lparr>fc_resume_region_id := rid\<rparr>) s"

text \<open>A root's null check on the stack base precedes its routing on the fixed tier.\<close>

definition dispatch_region ::
  "build \<Rightarrow> 'w region_code program \<Rightarrow> bool \<Rightarrow> u64 \<Rightarrow> u32 \<Rightarrow> u64 \<Rightarrow> u32 \<Rightarrow> 'w machine \<Rightarrow> int \<times> 'w machine" where
  "dispatch_region B P borrowed ctx fiber stack rid s =
     (case region_select P borrowed rid of
        None \<Rightarrow> (1, PublishExit B fiber CAPSULE_ERROR_INVALID_DISPATCH s)
      | Some code \<Rightarrow>
          if \<not> b_arena B \<and> stack = 0
          then (1, PublishExit B fiber CAPSULE_ERROR_INVALID_DISPATCH s)
          else code ctx fiber stack s)"

text \<open>One trip: the lifecycle words, then the region the resume word names.\<close>

definition step_trip ::
  "build \<Rightarrow> 'w region_code program \<Rightarrow> bool \<Rightarrow> u64 \<Rightarrow> u32 \<Rightarrow> u64 \<Rightarrow> 'w machine \<Rightarrow> int \<times> 'w machine" where
  "step_trip B P borrowed ctx fiber stack s =
     (let rid = fc_resume_region_id (get_control B s fiber);
          completed = (1, set_resume B fiber 0 s); done = (1, s);
          dispatch = dispatch_region B P borrowed ctx fiber stack rid s
      in if foldLifecycle P borrowed then
           (if step_index rid = BPF_CAPSULE_REGION_ID_DONE AND BPF_CAPSULE_REGION_ID_STEP_MASK
            then completed
            else if step_index rid = 0 \<and> rid = 0 then done
            else dispatch)
         else if rid = BPF_CAPSULE_REGION_ID_DONE then completed
         else if rid = 0 then done
         else dispatch)"

definition step_trips :: "'r program \<Rightarrow> nat" where
  "step_trips P = (if pg_indirect P then 1 else BPF_CAPSULE_STEP_TRIPS)"

definition trampoline_step ::
  "build \<Rightarrow> 'w region_code program \<Rightarrow> bool \<Rightarrow> u64 \<Rightarrow> u32 \<Rightarrow> u64 \<Rightarrow> 'w machine \<Rightarrow> int \<times> 'w machine" where
  "trampoline_step B P borrowed ctx fiber stack s =
     (if \<not> b_arena B \<and> stack = 0
      then (1, PublishExit B fiber CAPSULE_ERROR_MEMORY_FAULT s)
      else drive_loop (step_trips P) (step_trip B P borrowed ctx fiber stack) s)"

section \<open>A packed program dispatches every region\<close>

text \<open>The in-place sort and the rewriting of provisional IDs at the end of \<open>PackRegionIds\<close>.\<close>

definition rewrite_unit :: "(u32 \<rightharpoonup> u32) \<Rightarrow> 'r allocation_unit \<Rightarrow> 'r allocation_unit" where
  "rewrite_unit packed unit = unit\<lparr>au_states :=
     map (\<lambda>st. st\<lparr>st_id := the (packed (st_id st))\<rparr>) (sort_key state_order (au_states unit))\<rparr>"

definition packed_program ::
  "nat \<Rightarrow> nat \<Rightarrow> nat \<Rightarrow> 'r allocation_unit list \<Rightarrow> (u32 \<rightharpoonup> u32) \<Rightarrow> bool \<Rightarrow> 'r program" where
  "packed_program sr br su units packed indirect = \<lparr>pg_units = map (rewrite_unit packed) units,
     pg_scalar_roots = sr, pg_borrowed_roots = br,
     pg_scalar_step_count = (if su \<noteq> 0 then max 1 sr else 0), pg_indirect = indirect\<rparr>"

text \<open>What \<open>CreateAllocationUnits\<close> and placement establish: scalar units come first, no unit is empty,
  and a kind of unit that occurs has a root.\<close>

definition units_ok :: "nat \<Rightarrow> nat \<Rightarrow> nat \<Rightarrow> 'r allocation_unit list \<Rightarrow> bool" where
  "units_ok sr br su units \<longleftrightarrow> roots_ok sr br su units \<and>
     (su \<noteq> 0 \<longrightarrow> sr \<noteq> 0) \<and> (su < length units \<longrightarrow> br \<noteq> 0) \<and>
     (\<forall>i<length units. au_borrowed (units ! i) = (su \<le> i) \<and> au_states (units ! i) \<noteq> [])"

fun step_units ::
  "(nat \<Rightarrow> 'r allocation_unit \<Rightarrow> nat) \<Rightarrow> nat \<Rightarrow> nat \<Rightarrow> 'r allocation_unit list \<Rightarrow> 'r allocation_unit list" where
  "step_units step_of index step [] = []"
| "step_units step_of index step (unit # units) =
     (if step_of index unit = step then [unit] else []) @ step_units step_of (index + 1) step units"

lemma sort_key_Nil: "sort_key f xs = [] \<longleftrightarrow> xs = []"
  by (metis length_0_conv length_sort)

lemma step_states_concat:
  "step_states step_of index step units =
     concat (map (\<lambda>u. sort_key state_order (au_states u)) (step_units step_of index step units))"
  by (induction units arbitrary: index) auto

lemma nth_concat:
  assumes "i < length xss" and "j < length (xss ! i)"
  shows "concat xss ! (length (concat (take i xss)) + j) = xss ! i ! j"
    and "length (concat (take i xss)) + j < length (concat xss)"
proof -
  have "concat xss = concat (take i xss) @ (xss ! i) @ concat (drop (Suc i) xss)"
    using id_take_nth_drop [OF assms(1)] by (metis concat.simps(2) concat_append)
  then show "concat xss ! (length (concat (take i xss)) + j) = xss ! i ! j"
    "length (concat (take i xss)) + j < length (concat xss)"
    using assms(2) by (simp_all add: nth_append)
qed

lemma unit_offset_rewrite:
  "unit_offset (map (rewrite_unit packed) us) i =
     length (concat (take i (map (\<lambda>u. sort_key state_order (au_states u)) us)))"
  by (simp add: unit_offset_def take_map length_concat rewrite_unit_def comp_def)

lemma set_step_units: "set (step_units step_of index step units) \<subseteq> set units"
  by (induction units arbitrary: index) auto

lemma packed_dense:
  assumes ok: "units_ok sr br su units" and pack: "PackRegionIds sr br su units = Inr packed"
    and ne: "step_units (unit_step sr br su) 0 step units \<noteq> []"
  shows "dense_units 1 step (map (rewrite_unit packed) (step_units (unit_step sr br su) 0 step units))"
proof -
  let ?us = "step_units (unit_step sr br su) 0 step units"
  let ?xss = "map (\<lambda>u. sort_key state_order (au_states u)) ?us"
  have roots: "roots_ok sr br su units" using ok by (simp add: units_ok_def)
  note packed = units_packedD [OF PackRegionIds_units(1) [OF roots pack]]
  have nonempty: "au_states u \<noteq> []" if "u \<in> set ?us" for u
    using set_step_units [of "unit_step sr br su" 0 step units] that ok
    by (metis in_set_conv_nth subsetD units_ok_def)
  have concat: "step_states (unit_step sr br su) 0 step units = concat ?xss"
    by (rule step_states_concat)
  have "concat ?xss \<noteq> []"
    using ne nonempty [of "hd ?us"] by (cases ?us) (auto simp: sort_key_Nil)
  then have step: "step < 2 ^ 8" and room: "1 + length (concat ?xss) \<le> 2 ^ 16"
    using PackRegionIds_units(2) [OF roots pack, of step] packed(4) [of step] concat by auto
  have entry: "st_id (au_states (rewrite_unit packed (?us ! i)) ! j) =
        packed_id (1 + unit_offset (map (rewrite_unit packed) ?us) i + j) step"
      "1 + unit_offset (map (rewrite_unit packed) ?us) i + j < 2 ^ 16"
    if i: "i < length ?us" and j: "j < length (au_states (?us ! i))" for i j
  proof -
    have "i < length ?xss" "j < length (?xss ! i)" using i j by simp_all
    note nth = nth_concat [OF this]
    have "packed (st_id (?xss ! i ! j)) = Some (packed_id (1 + (length (concat (take i ?xss)) + j)) step)"
      using packed(1) [of "length (concat (take i ?xss)) + j" step] nth concat by simp
    then show "st_id (au_states (rewrite_unit packed (?us ! i)) ! j) =
        packed_id (1 + unit_offset (map (rewrite_unit packed) ?us) i + j) step"
      using i j unfolding unit_offset_rewrite by (simp add: rewrite_unit_def)
    show "1 + unit_offset (map (rewrite_unit packed) ?us) i + j < 2 ^ 16"
      using nth(2) room unfolding unit_offset_rewrite by linarith
  qed
  have states: "au_states (rewrite_unit packed (?us ! i)) \<noteq> []"
    "length (au_states (rewrite_unit packed (?us ! i))) = length (au_states (?us ! i))"
    if "i < length ?us" for i
    using nonempty [OF nth_mem [OF that]] by (simp_all add: rewrite_unit_def sort_key_Nil)
  have "1 + unit_offset (map (rewrite_unit packed) ?us) i + length (au_states (?us ! i)) \<le> 2 ^ 16"
    if "i < length ?us" for i
    using entry(2) [OF that, of "length (au_states (?us ! i)) - 1"]
      nonempty [OF nth_mem [OF that]] by (cases "au_states (?us ! i)") simp_all
  then show ?thesis
    unfolding dense_units_def using step entry(1) states by simp
qed

text \<open>The units a root owns are those of its step.\<close>

lemma root_units_step:
  assumes "\<forall>i<length units. au_borrowed (units ! i) = (su \<le> index + i) \<and>
      au_output_root (units ! i) < max 1 (if index + i < su then sr else br)"
    and "su \<noteq> 0 \<longrightarrow> sr \<noteq> 0" and "\<not> borrowed \<longrightarrow> su \<noteq> 0 \<and> root < sr"
    and "borrowed \<longrightarrow> br \<noteq> 0"
    and "step = (if borrowed then (if su \<noteq> 0 then max 1 sr else 0) + root else root)"
  shows "filter (\<lambda>unit. au_borrowed unit = borrowed \<and> au_output_root unit = root)
      (map (rewrite_unit packed) units) =
    map (rewrite_unit packed) (step_units (unit_step sr br su) index step units)"
  using assms(1)
proof (induction units arbitrary: index)
  case (Cons unit units)
  have tail: "\<forall>i<length units. au_borrowed (units ! i) = (su \<le> index + 1 + i) \<and>
      au_output_root (units ! i) < max 1 (if index + 1 + i < su then sr else br)"
    using Cons.prems by auto
  have head: "au_borrowed unit = (su \<le> index)"
    "au_output_root unit < max 1 (if index < su then sr else br)"
    using Cons.prems [rule_format, of 0] by simp_all
  have "unit_step sr br su index unit = step \<longleftrightarrow>
      au_borrowed unit = borrowed \<and> au_output_root unit = root"
    using head assms(2-) by (auto simp: unit_step_def step_for_unit_def split: if_splits)
  then show ?case using Cons.IH [OF tail] by (simp add: rewrite_unit_def)
qed simp

lemma step_units_member:
  assumes "i < length units" and "step_of (index + i) (units ! i) = step"
  shows "units ! i \<in> set (step_units step_of index step units)"
  using assms
proof (induction units arbitrary: index i)
  case (Cons unit units)
  then show ?case using Cons.IH [of "i - 1" "index + 1"] by (cases i) auto
qed simp

text \<open>The step switch and the routers find the region of every state, from either step.\<close>

lemma region_select_hit:
  assumes ok: "units_ok sr br su units" and pack: "PackRegionIds sr br su units = Inr packed"
    and i: "i < length units" and st: "st \<in> set (au_states (units ! i))"
    and ctx: "su \<le> i \<longrightarrow> borrowed"
    and v: "packed (st_id st) = Some v"
  shows "region_select (packed_program sr br su units packed indirect) borrowed v = Some (st_root st)"
proof -
  let ?P = "packed_program sr br su units packed indirect"
  define kind where "kind = au_borrowed (units ! i)"
  define root where "root = au_output_root (units ! i)"
  define step where "step = unit_step sr br su i (units ! i)"
  have roots: "roots_ok sr br su units" using ok by (simp add: units_ok_def)
  have kind: "kind = (su \<le> i)" and root: "root < max 1 (if i < su then sr else br)"
    using ok roots i by (simp_all add: units_ok_def roots_ok_def kind_def root_def)
  have nz: "su \<noteq> 0 \<longrightarrow> sr \<noteq> 0" "kind \<longrightarrow> br \<noteq> 0" using ok i kind by (auto simp: units_ok_def)
  have step: "step = (if kind then (if su \<noteq> 0 then max 1 sr else 0) + root else root)"
    using kind nz by (auto simp: step_def unit_step_def step_for_unit_def root_def)
  let ?us = "step_units (unit_step sr br su) 0 step units"
  have us: "root_units ?P kind root = map (rewrite_unit packed) ?us"
    unfolding root_units_def packed_program_def
    using root_units_step [of units su 0 sr br kind root step packed] ok roots kind root nz step
    by (auto simp: units_ok_def roots_ok_def)
  have mem: "units ! i \<in> set ?us"
    using step_units_member [OF i, of "unit_step sr br su" 0 step] by (simp add: step_def)
  then have dense: "dense_units 1 step (map (rewrite_unit packed) ?us)"
    by (intro packed_dense [OF ok pack]) auto
  obtain m where m: "m < length ?us" "?us ! m = units ! i" using mem by (auto simp: in_set_conv_nth)
  have "st \<in> set (sort_key state_order (au_states (units ! i)))" using st by simp
  then obtain j where j: "j < length (sort_key state_order (au_states (units ! i)))"
    "sort_key state_order (au_states (units ! i)) ! j = st"
    unfolding in_set_conv_nth by blast
  let ?us' = "map (rewrite_unit packed) ?us"
  have state: "au_states (?us' ! m) ! j = st\<lparr>st_id := v\<rparr>" "j < length (au_states (?us' ! m))"
    using m j v by (simp_all add: rewrite_unit_def)
  have m': "m < length ?us'" using m(1) by simp
  define n where "n = 1 + unit_offset ?us' m + j"
  have fields: "v = packed_id n step" "n < 2 ^ 16" "step < 2 ^ 8"
    using dense_unitsD(1) [OF dense m'] dense_unitsD(3) [OF dense m']
      dense_unitsD(4) [OF dense m' state(2)] state by (simp_all add: n_def)
  have sel: "root_select indirect ?us' (emitted_region_key indirect v) = Some (st_root st)"
    using root_select_hit [OF dense, of m j indirect] m(1) state emitted_key_packed [OF fields(2,3)]
      fields(1) by simp
  have key: "unat (step_index v) = step"
    using step_index_packed [OF fields(2,3)] fields(1,3) by (simp add: unat_of_nat)
  show ?thesis
    using sel us key step kind root nz ctx i
    by (auto simp: region_select_def packed_program_def Let_def split: if_splits)
qed

section \<open>Properties of the step\<close>

lemma done_step_key: "BPF_CAPSULE_REGION_ID_DONE AND BPF_CAPSULE_REGION_ID_STEP_MASK = 255"
  by (simp add: BPF_CAPSULE_REGION_ID_DONE_def step_mask mask_eq_exp_minus_1)

lemma region_select_key:
  "region_select P borrowed rid = Some code \<Longrightarrow> unat (step_index rid) <
     (if borrowed then pg_scalar_step_count P + pg_borrowed_roots P else pg_scalar_roots P)"
  by (auto simp: region_select_def Let_def split: if_splits)

lemma foldLifecycle_keys:
  assumes "foldLifecycle P borrowed"
    and "n = (if borrowed then pg_scalar_step_count P + pg_borrowed_roots P else pg_scalar_roots P)"
    and "n \<le> 256"
  shows "n \<le> 255"
proof (rule ccontr)
  assume "\<not> n \<le> 255"
  then have "n = 256" using assms(3) by simp
  moreover have "(word_of_nat n :: u32) - 1 < 255"
    using assms(1,2) by (cases borrowed) (simp_all add: foldLifecycle_def done_step_key)
  ultimately show False by simp
qed

text \<open>with the lifecycle tests folded into the step switch or not, an idle resume word stops the
  step with nothing changed, and the completion word stops it after sweeping the word to idle; on
  the fixed tier a missing stack publishes a memory fault.\<close>

lemma step_lifecycle_words:
  "(fc_resume_region_id (get_control B s fiber) = 0 \<longrightarrow>
      step_trip B P borrowed ctx fiber stack s = (1, s)) \<and>
   (fc_resume_region_id (get_control B s fiber) = BPF_CAPSULE_REGION_ID_DONE \<longrightarrow>
      step_trip B P borrowed ctx fiber stack s = (1, set_resume B fiber 0 s)) \<and>
   (\<not> b_arena B \<and> stack = 0 \<longrightarrow> trampoline_step B P borrowed ctx fiber stack s =
      (1, put_control (fiber_index B fiber)
        (bpf_capsule_stop (get_control B s fiber) CAPSULE_ERROR_MEMORY_FAULT) s))"
  by (simp add: step_trip_def Let_def step_index_def done_step_key trampoline_step_def PublishExit_def
      store_outcome_def ucast_OutcomeValue_low ucast_OutcomeValue_high bpf_capsule_stop_def
      BPF_CAPSULE_REGION_ID_DONE_def step_mask mask_eq_exp_minus_1)

lemma step_lifecycle_words_witness:
  "step_trip (sample_build True) \<lparr>pg_units = [], pg_scalar_roots = 1, pg_borrowed_roots = 0,
      pg_scalar_step_count = 1, pg_indirect = False\<rparr> False 0 1 0 (sample_machine True 3) =
    (1, sample_machine True 3)"
  using step_lifecycle_words [of "sample_build True" "sample_machine True 3" 1]
  by (simp add: sample_defs get_control_def zero_control_def)

lemma packed_step_counts:
  assumes "PackRegionIds sr br su units = Inr packed"
  shows "(if su \<noteq> 0 then max 1 sr else 0) + (if length units - su \<noteq> 0 then max 1 br else 0) \<le> 256"
  using assms
  by (auto simp: PackRegionIds_def Let_def step_mask mask_eq_exp_minus_1 not_less split: if_splits)

lemma step_trip_named:
  assumes "units_ok sr br su units" and "PackRegionIds sr br su units = Inr packed"
    and "i < length units" and "st \<in> set (au_states (units ! i))" and "su \<le> i \<longrightarrow> borrowed"
    and "borrowed \<longrightarrow> su < length units" and "\<not> borrowed \<longrightarrow> su \<noteq> 0"
    and "b_arena B \<or> stack \<noteq> 0"
    and "packed (st_id st) = Some (fc_resume_region_id (get_control B s fiber))"
  shows "step_trip B (packed_program sr br su units packed indirect) borrowed ctx fiber stack s =
    st_root st ctx fiber stack s"
proof -
  let ?P = "packed_program sr br su units packed indirect"
  define v where "v = fc_resume_region_id (get_control B s fiber)"
  have roots: "roots_ok sr br su units" using assms(1) by (simp add: units_ok_def)
  have sel: "region_select ?P borrowed v = Some (st_root st)"
    by (rule region_select_hit [OF assms(1-5)]) (simp add: assms(9) v_def)
  have v: "packed (st_id st) = Some v" using assms(9) by (simp add: v_def)
  obtain step n where id: "v = packed_id (1 + n) step" "1 + n < 2 ^ 16" "step < 2 ^ 8"
    by (rule packed_value [OF roots assms(2) v])
  have "unat v = (1 + n) * 256 + step" using unat_packed_id [OF id(2,3)] id(1) by simp
  moreover have "(1 + n) * 256 + step < 2 ^ 24" using id(2,3) by simp
  ultimately have live: "v \<noteq> 0" "v \<noteq> BPF_CAPSULE_REGION_ID_DONE"
    by (auto simp: BPF_CAPSULE_REGION_ID_DONE_def)
  let ?n = "if borrowed then pg_scalar_step_count ?P + pg_borrowed_roots ?P else pg_scalar_roots ?P"
  have "?n \<le> 256"
    using packed_step_counts [OF assms(2)] assms(6,7)
    by (auto simp: packed_program_def split: if_splits)
  then have key: "step_index v \<noteq> 255" if "foldLifecycle ?P borrowed"
    using foldLifecycle_keys [OF that refl] region_select_key [OF sel] by auto
  show ?thesis
    using sel live key assms(8) unfolding v_def
    by (auto simp: step_trip_def Let_def dispatch_region_def done_step_key)
qed

text \<open>C10: in a packed program the step runs exactly the region the resume word names. For every
  continuation state of every unit, when the fiber's resume word holds that state's packed ID, one
  trip of the step is the body of that region: on either tier, for direct and instruction-array
  routing, and from the context step also for the regions of scalar units.\<close>

theorem dispatch_runs_named_region:
  assumes "units_ok sr br su units" and "PackRegionIds sr br su units = Inr packed"
    and "i < length units" and "st \<in> set (au_states (units ! i))" and "su \<le> i \<longrightarrow> borrowed"
    and "borrowed \<longrightarrow> su < length units" and "\<not> borrowed \<longrightarrow> su \<noteq> 0"
    and "b_arena B \<or> stack \<noteq> 0"
    and "packed (st_id st) = Some (fc_resume_region_id (get_control B s fiber))"
  shows "step_trip B (packed_program sr br su units packed indirect) borrowed ctx fiber stack s =
    st_root st ctx fiber stack s"
  by (rule step_trip_named [OF assms])

lemma sample_units_ok: "units_ok 2 0 3 (sample_units code)"
  by (simp add: units_ok_def sample_roots) (simp add: sample_units_def less_Suc_eq numeral_3_eq_3)

theorem dispatch_runs_named_region_witness:
  "step_trip (sample_build True)
      (packed_program 2 0 3 (sample_units (\<lambda>n ctx fiber stack s. (int n, s))) sample_packed False)
      False 0 1 0 (put_control 1 (zero_control\<lparr>fc_resume_region_id := 0x200\<rparr>) (sample_machine True 3)) =
    (0, put_control 1 (zero_control\<lparr>fc_resume_region_id := 0x200\<rparr>) (sample_machine True 3))"
proof -
  let ?code = "\<lambda>n (ctx :: u64) (fiber :: u32) (stack :: u64) (s :: unit machine). (int n, s)"
  have "units_ok 2 0 3 (sample_units ?code)"
    by (rule sample_units_ok)
  from dispatch_runs_named_region [OF this sample_pack, where i = 0 and borrowed = False and stack = 0
      and B = "sample_build True" and fiber = 1 and ctx = 0 and indirect = False
      and st = "\<lparr>st_id = 9, st_root = ?code 0, st_kind = Call\<rparr>"
      and s = "put_control 1 (zero_control\<lparr>fc_resume_region_id := 0x200\<rparr>) (sample_machine True 3)"]
  show ?thesis
    by (simp add: sample_units_def sample_packed_def sample_build_def get_control_def fiber_index_def
        put_control_def)
qed

text \<open>the comparison tree of a unit with at most \<open>2 ^ n\<close> states makes at most \<open>n\<close> comparisons for
  any key, and reaches the state whose key it is given wherever the sorted keys are distinct.\<close>

lemma unit_tree_depth_and_hit:
  assumes "length states \<le> 2 ^ n"
    and "\<And>x y. x < y \<Longrightarrow> y < length states \<Longrightarrow>
      state_key indirect states x < state_key indirect states y"
    and "j < length states"
  shows "select_tests (state_key indirect states) 0 (length states) k \<le> n \<and>
    select_tree (state_key indirect states) 0 (length states) (state_key indirect states j) = j"
  using select_tests_bound [of "length states" 0 n "state_key indirect states" k] assms
  by (auto intro!: select_tree_unique)

lemma unit_tree_depth_and_hit_witness:
  "select_tree (state_key False [\<lparr>st_id = 0x100, st_root = (), st_kind = Entry\<rparr>,
      \<lparr>st_id = 0x200, st_root = (), st_kind = Call\<rparr>]) 0 (Suc (Suc 0)) 0x200 = 1"
  using unit_tree_depth_and_hit [of "[\<lparr>st_id = 0x100, st_root = (), st_kind = Entry\<rparr>,
      \<lparr>st_id = 0x200, st_root = (), st_kind = Call\<rparr>]" 1 False 1 0]
  by (simp add: state_key_def DispatchRegionKey_def BPF_CAPSULE_REGION_ID_INDEX_MASK_def less_Suc_eq)

end
