(* ===== verification/Pool_Contract.thy ===== *)
theory Pool_Contract
  imports Fiber_Pool
begin

text \<open>
  What the fiber pool promises to the entry glue. The abstract pool is the set of leased fibers; the
  operations of \<open>Fiber_Pool\<close> refine insertion of a fresh element, removal, and exchange of a
  generation, and keep the invariant that ties the maps and the control table together. The locale
  \<open>lease_pool\<close> states the promise as an interface and proves what any client may conclude from it.
\<close>

section \<open>The pool as a set of leased fibers\<close>

text \<open>The abstract state of the pool. On the arena tier a fiber is leased when it has been issued and
  is not on the free stack; on the fixed tier when it has an entry in the lease map.\<close>

definition leased :: "build \<Rightarrow> 'w machine \<Rightarrow> u32 set" where
  "leased B s = (if b_arena B then {f. m_issued s f \<noteq> None \<and> f \<notin> set (m_free s)}
     else {f. m_leases s f \<noteq> None})"

text \<open>A fiber outside the leased set has nothing to resume and no outcome to deliver.\<close>

definition quiet :: "fiber_control \<Rightarrow> bool" where
  "quiet control \<longleftrightarrow> fc_resume_region_id control = 0 \<and> fc_status control \<noteq> CAPSULE_EXITED"

definition pool_inv :: "build \<Rightarrow> 'w machine \<Rightarrow> bool" where
  "pool_inv B s \<longleftrightarrow>
     (\<forall>f\<in>leased B s. valid_generation (fc_generation (m_fibers s f))) \<and>
     (\<forall>f<bpf_capsule_fiber_count B s. f \<notin> leased B s \<longrightarrow> quiet (m_fibers s f)) \<and>
     (if b_arena B
      then (\<forall>f. m_issued s f \<noteq> None \<longrightarrow> f < bpf_capsule_fiber_count B s) \<and>
           (\<forall>f\<in>set (m_free s). m_issued s f \<noteq> None) \<and> distinct (m_free s)
      else (\<forall>f. m_leases s f \<noteq> None \<longrightarrow> f < bpf_capsule_fiber_count B s) \<and>
           (\<forall>f g. m_leases s f = Some g \<longrightarrow> fc_generation (m_fibers s f) = g))"

text \<open>The control record of a fresh lease: cleared, with the next generation.\<close>

definition fresh_control :: "fiber_control \<Rightarrow> fiber_control" where
  "fresh_control control =
     (bpf_capsule_clear_fiber control)\<lparr>fc_generation := next_generation (fc_generation control)\<rparr>"

text \<open>What a lease must not touch: the configuration, the claims and everything outside the pool.\<close>

definition world_frame :: "'w machine \<Rightarrow> 'w machine \<Rightarrow> bool" where
  "world_frame s s' \<longleftrightarrow> m_config s' = m_config s \<and> m_heap_entries s' = m_heap_entries s \<and>
     m_host_ready s' = m_host_ready s \<and> m_world s' = m_world s"

definition pool_frame :: "'w machine \<Rightarrow> 'w machine \<Rightarrow> bool" where
  "pool_frame s s' \<longleftrightarrow> world_frame s s' \<and> m_claims s' = m_claims s"

lemmas frame_defs = world_frame_def pool_frame_def

lemma pool_frame_refl [simp]: "pool_frame s s" "world_frame s s"
  by (simp_all add: frame_defs)

lemma frame_count: "world_frame s s' \<Longrightarrow> bpf_capsule_fiber_count B s' = bpf_capsule_fiber_count B s"
  by (simp add: frame_defs bpf_capsule_fiber_count_def)

lemma leased_less_count: "pool_inv B s \<Longrightarrow> f \<in> leased B s \<Longrightarrow> f < bpf_capsule_fiber_count B s"
  by (auto simp: pool_inv_def leased_def split: if_splits)

lemma count_nonzero_index:
  assumes "f < bpf_capsule_fiber_count B s"
  shows "fiber_index B f = f"
proof -
  have "unat f < unat (b_max_fibers B)"
    using assms fiber_count_le_max [of B s] by (simp add: word_less_nat_alt)
  then show ?thesis by (simp add: fiber_index_def word_unat_eq_iff unat_mod)
qed

lemma try_fiber_fail:
  assumes "kernel_ok K" and "try_fiber B K f s = (False, s')"
  shows "s' = s"
  using assms(2) noexist_okD(3) [OF kernel_okD(1) [OF assms(1)]]
    noexist_okD(3) [OF kernel_okD(4) [OF assms(1)]]
  by (auto simp: try_fiber_def Let_def split: prod.splits if_splits)

lemma try_fiber_arena:
  assumes "kernel_ok K" and "b_arena B" and "try_fiber B K f s = (True, s')"
  shows "m_issued s f = None" and "s' = s\<lparr>m_issued := (m_issued s)(f \<mapsto> 1)\<rparr>"
  using assms(2,3) noexist_okD(1,2) [OF kernel_okD(1) [OF assms(1)]]
  by (auto simp: try_fiber_def Let_def split: prod.splits if_splits)

lemma try_fiber_fixed:
  assumes "kernel_ok K" and "\<not> b_arena B" and "try_fiber B K f s = (True, s')"
  shows "m_leases s f = None"
    and "s' = put_control f ((m_fibers s f)\<lparr>fc_generation := next_generation (fc_generation (m_fibers s f))\<rparr>)
      (s\<lparr>m_leases := (m_leases s)(f \<mapsto> next_generation (fc_generation (m_fibers s f)))\<rparr>)"
  using assms(2,3) noexist_okD(1,2) [OF kernel_okD(4) [OF assms(1)]]
  by (auto simp: try_fiber_def Let_def split: prod.splits if_splits)

lemma scan_fibers_cases:
  assumes "kernel_ok K" and "BPF_CAPSULE_NO_FIBER \<notin> set fs" and "scan_fibers B K fs s = (f, s')"
  shows "if f = BPF_CAPSULE_NO_FIBER then s' = s \<and> (\<forall>g\<in>set fs. \<not> fst (try_fiber B K g s))
    else f \<in> set fs \<and> try_fiber B K f s = (True, s')"
  using assms(2,3)
proof (induction fs)
  case (Cons g fs)
  obtain taken t where t: "try_fiber B K g s = (taken, t)" by (cases "try_fiber B K g s")
  show ?case
  proof (cases taken)
    case True
    then show ?thesis using Cons.prems t by auto
  next
    case False
    then have "t = s" using try_fiber_fail [OF assms(1)] t by simp
    then show ?thesis using Cons t False by (auto split: if_splits)
  qed
qed simp

text \<open>The outcome of an acquisition, on either tier.\<close>

definition acquired :: "build \<Rightarrow> u32 \<Rightarrow> 'w machine \<Rightarrow> 'w machine \<Rightarrow> bool" where
  "acquired B f s s' \<longleftrightarrow> f < bpf_capsule_fiber_count B s \<and> f \<notin> leased B s \<and>
     leased B s' = insert f (leased B s) \<and>
     m_fibers s' = (m_fibers s)(f := fresh_control (m_fibers s f)) \<and> pool_frame s s' \<and> pool_inv B s'"

lemma fresh_control_generation [simp]:
  "fc_generation (fresh_control c) = next_generation (fc_generation c)"
  "fc_generation (bpf_capsule_clear_fiber c) = fc_generation c"
  by (simp_all add: fresh_control_def bpf_capsule_clear_fiber_def)

lemma prepare_arena:
  "b_arena B \<Longrightarrow> bpf_capsule_prepare_fiber B f s = put_control f (fresh_control (m_fibers s f)) s"
  by (cases "m_fibers s f") (simp add: bpf_capsule_prepare_fiber_def fresh_control_def
      bpf_capsule_clear_fiber_def Let_def)

lemma acquired_scan:
  assumes K: "kernel_ok K" and inv: "pool_inv B s" and f: "f < bpf_capsule_fiber_count B s"
    and "try_fiber B K f s = (True, t)"
  shows "acquired B f s (bpf_capsule_prepare_fiber B f t)"
proof (cases "b_arena B")
  case True
  have t: "m_issued s f = None" "t = s\<lparr>m_issued := (m_issued s)(f \<mapsto> 1)\<rparr>"
    using try_fiber_arena [OF K True assms(4)] by simp_all
  have "f \<notin> set (m_free s)" using inv t(1) True by (auto simp: pool_inv_def)
  then show ?thesis
    using inv t f True
    by (auto simp: acquired_def prepare_arena leased_def pool_inv_def put_control_def frame_defs
        bpf_capsule_fiber_count_def)
next
  case False
  have t: "m_leases s f = None"
    "t = put_control f ((m_fibers s f)\<lparr>fc_generation := next_generation (fc_generation (m_fibers s f))\<rparr>)
      (s\<lparr>m_leases := (m_leases s)(f \<mapsto> next_generation (fc_generation (m_fibers s f)))\<rparr>)"
    using try_fiber_fixed [OF K False assms(4)] by simp_all
  then show ?thesis
    using inv f False
    by (auto simp: acquired_def leased_def pool_inv_def put_control_def frame_defs
        bpf_capsule_fiber_count_def bpf_capsule_prepare_fiber_def fresh_control_def
        bpf_capsule_clear_fiber_def)
qed

lemma pop_acquired:
  assumes K: "kernel_ok K" and inv: "pool_inv B s" and A: "b_arena B"
    and "k_free_pop K (m_free s) = (0, f, free)"
  shows "acquired B f s (bpf_capsule_prepare_fiber B f (s\<lparr>m_free := free\<rparr>))"
proof -
  have free: "m_free s = f # free"
    using pop_okD(1) [OF kernel_okD(2) [OF K] assms(4)] by simp
  then have "m_issued s f \<noteq> None" "f \<notin> set free"
    using inv A by (auto simp: pool_inv_def)
  then show ?thesis
    using free inv A
    by (auto simp: acquired_def prepare_arena leased_def pool_inv_def put_control_def frame_defs
        bpf_capsule_fiber_count_def)
qed

lemma no_fiber_notin_order:
  "unat count \<le> 65535 \<Longrightarrow> count \<noteq> 0 \<Longrightarrow> BPF_CAPSULE_NO_FIBER \<notin> set (scan_order count start)"
  by (simp add: set_scan_order BPF_CAPSULE_NO_FIBER_def word_less_nat_alt)

text \<open>The scan alone: it fails with the state unchanged and every attempt refused, or acquires.\<close>

lemma scan_outcome:
  assumes B: "build_ok B" and K: "kernel_ok K" and inv: "pool_inv B s"
    and count: "bpf_capsule_fiber_count B s = count" and nz: "count \<noteq> 0"
    and scan: "acquire_scan_loop (scan_pages B) B K count (k_cpu K mod count) 0 s = (f, s')"
  shows "if f = BPF_CAPSULE_NO_FIBER then s' = s \<and> (\<forall>g<count. \<not> fst (try_fiber B K g s))
    else acquired B f s s'"
proof -
  let ?order = "scan_order count (k_cpu K mod count)"
  have c65: "unat count \<le> 65535" using fiber_count_le [OF B, of s] count by simp
  have notin: "BPF_CAPSULE_NO_FIBER \<notin> set ?order" by (rule no_fiber_notin_order [OF c65 nz])
  have nf: "\<not> BPF_CAPSULE_NO_FIBER < count"
    using c65 by (simp add: BPF_CAPSULE_NO_FIBER_def word_less_nat_alt)
  obtain g t where g: "scan_fibers B K ?order s = (g, t)" by (cases "scan_fibers B K ?order s")
  note cases = scan_fibers_cases [OF K notin g]
  have loop: "(f, s') = (if g < count then (g, bpf_capsule_prepare_fiber B g t)
      else (BPF_CAPSULE_NO_FIBER, t))"
    using scan acquire_scan_all [OF B count nz, of K "k_cpu K"] g by simp
  show ?thesis
  proof (cases "g = BPF_CAPSULE_NO_FIBER")
    case True
    then show ?thesis using loop cases nf by (auto simp: set_scan_order [OF nz])
  next
    case False
    then have "g < count" "try_fiber B K g s = (True, t)"
      using cases by (simp_all add: set_scan_order [OF nz])
    then show ?thesis using loop nf count acquired_scan [OF K inv] by auto
  qed
qed

lemma acquire_outcome:
  assumes B: "build_ok B" and K: "kernel_ok K" and inv: "pool_inv B s"
    and acq: "bpf_capsule_fiber_acquire B K s = (f, s')"
  shows "if f = BPF_CAPSULE_NO_FIBER
    then s' = s \<and> (b_arena B \<longrightarrow> bpf_capsule_fiber_count B s = 0 \<or> fst (k_free_pop K (m_free s)) \<noteq> 0) \<and>
      (\<forall>g<bpf_capsule_fiber_count B s. \<not> fst (try_fiber B K g s))
    else acquired B f s s'"
proof (cases "bpf_capsule_fiber_count B s = 0")
  case True
  then show ?thesis using acq by (auto simp: bpf_capsule_fiber_acquire_def)
next
  case nz: False
  note scan = scan_outcome [OF B K inv refl nz]
  show ?thesis
  proof (cases "b_arena B")
    case A: True
    obtain rc g free where pop: "k_free_pop K (m_free s) = (rc, g, free)"
      by (cases "k_free_pop K (m_free s)")
    show ?thesis
    proof (cases "rc = 0")
      case True
      have acq': "acquired B g s (bpf_capsule_prepare_fiber B g (s\<lparr>m_free := free\<rparr>))"
        using pop_acquired [OF K inv A] pop True by simp
      then have "g < bpf_capsule_fiber_count B s" by (simp add: acquired_def)
      moreover from this have "g \<noteq> BPF_CAPSULE_NO_FIBER"
        using no_fiber_ge [OF B, of s] by auto
      ultimately show ?thesis
        using acq acq' pop True nz A
        by (auto simp: bpf_capsule_fiber_acquire_def Let_def split: if_splits)
    next
      case False
      then have "s\<lparr>m_free := free\<rparr> = s"
        using pop_okD(2) [OF kernel_okD(2) [OF K] pop] by simp
      then show ?thesis
        using acq scan pop False nz A by (auto simp: bpf_capsule_fiber_acquire_def Let_def)
    qed
  next
    case False
    then show ?thesis
      using acq scan nz by (auto simp: bpf_capsule_fiber_acquire_def Let_def)
  qed
qed

section \<open>Releasing\<close>

lemma release_outcome:
  assumes K: "kernel_ok K" and inv: "pool_inv B s" and f: "f \<in> leased B s"
    and rel: "bpf_capsule_fiber_release B K f s = (rc, s')"
  shows "if rc = 0
    then leased B s' = leased B s - {f} \<and> m_fibers s' = m_fibers s \<and> pool_frame s s' \<and>
      (quiet (m_fibers s f) \<longrightarrow> pool_inv B s')
    else s' = put_control f (bpf_capsule_stop (m_fibers s f) CAPSULE_ERROR_POOL_CORRUPT) s"
proof -
  have lt: "\<not> bpf_capsule_fiber_count B s \<le> f" using leased_less_count [OF inv f] by simp
  show ?thesis
  proof (cases "b_arena B")
    case A: True
    obtain r free where push: "k_free_push K (m_free s) f = (r, free)"
      by (cases "k_free_push K (m_free s) f")
    note push' = push_okD [OF kernel_okD(3) [OF K] push]
    have "m_issued s f \<noteq> None" "f \<notin> set (m_free s)" using f A by (simp_all add: leased_def)
    then show ?thesis
      using rel push push' lt inv A
      by (cases "r = 0") (auto simp: bpf_capsule_fiber_release_def leased_def pool_inv_def
          frame_defs split: if_splits)
  next
    case A: False
    obtain r leases where del: "k_lease_delete K (m_leases s) f = (r, leases)"
      by (cases "k_lease_delete K (m_leases s) f")
    note del' = delete_okD [OF kernel_okD(5) [OF K] del]
    show ?thesis
      using rel del del' lt inv A
      by (cases "r = 0") (auto simp: bpf_capsule_fiber_release_def leased_def pool_inv_def
          frame_defs split: if_splits)
  qed
qed

lemma finite_below: "finite {f :: u32. f < n}"
  by simp

lemma card_below: "card {f :: u32. f < n} = unat n"
proof -
  have "bij_betw unat {f :: u32. f < n} {..<unat n}"
  proof (rule bij_betw_byWitness [where f' = word_of_nat])
    show "\<forall>a'\<in>{..<unat n}. unat (word_of_nat a' :: u32) = a'"
      using less_trans [OF _ u32_less_4G [of n]] by (auto simp: unat_of_nat)
    then show "word_of_nat ` {..<unat n} \<subseteq> {f :: u32. f < n}"
      by (auto simp: word_less_nat_alt)
  qed (auto simp: word_less_nat_alt)
  then show ?thesis using bij_betw_same_card by fastforce
qed

lemma card_less_max:
  assumes "X \<subseteq> {g. g < bpf_capsule_fiber_count B s}" and "f < bpf_capsule_fiber_count B s"
    and "f \<notin> X"
  shows "finite X" and "card X < unat (b_max_fibers B)"
proof -
  show "finite X" by (rule finite_subset [OF assms(1) finite_below])
  have "X \<subset> {g. g < bpf_capsule_fiber_count B s}" using assms by auto
  then have "card X < card {g. g < bpf_capsule_fiber_count B s}"
    by (rule psubset_card_mono [OF finite_below])
  then show "card X < unat (b_max_fibers B)"
    using fiber_count_le_max [of B s] by (simp add: card_below)
qed

text \<open>With preallocated maps of the compiled size, releasing a leased fiber never fails.\<close>

lemma release_live:
  assumes K: "kernel_live (unat (b_max_fibers B)) K" and inv: "pool_inv B s"
    and f: "f \<in> leased B s"
  shows "fst (bpf_capsule_fiber_release B K f s) = 0"
proof -
  have lt: "f < bpf_capsule_fiber_count B s" by (rule leased_less_count [OF inv f])
  show ?thesis
  proof (cases "b_arena B")
    case A: True
    have sub: "set (m_free s) \<subseteq> {g. g < bpf_capsule_fiber_count B s}" and "f \<notin> set (m_free s)"
      and "distinct (m_free s)"
      using inv f A by (auto simp: pool_inv_def leased_def)
    then have "length (m_free s) < unat (b_max_fibers B)"
      using card_less_max(2) [OF sub lt] by (simp add: distinct_card)
    then have "fst (k_free_push K (m_free s) f) = 0"
      using K by (simp add: kernel_live_def push_live_def)
    then show ?thesis
      using lt A by (auto simp: bpf_capsule_fiber_release_def Let_def split: prod.split)
  next
    case A: False
    then have "fst (k_lease_delete K (m_leases s) f) = 0"
      using K f by (auto simp: kernel_live_def delete_live_def leased_def)
    then show ?thesis
      using lt A by (auto simp: bpf_capsule_fiber_release_def Let_def split: prod.split)
  qed
qed

lemma acquire_live:
  assumes B: "build_ok B" and K: "kernel_ok K" and L: "kernel_live (unat (b_max_fibers B)) K"
    and inv: "pool_inv B s" and none: "fst (bpf_capsule_fiber_acquire B K s) = BPF_CAPSULE_NO_FIBER"
  shows "leased B s = {f. f < bpf_capsule_fiber_count B s}"
proof -
  let ?count = "bpf_capsule_fiber_count B s"
  obtain s' where acq: "bpf_capsule_fiber_acquire B K s = (BPF_CAPSULE_NO_FIBER, s')"
    using none by (cases "bpf_capsule_fiber_acquire B K s") simp
  have refused: "\<not> fst (try_fiber B K g s)" if "g < ?count" for g
    using acquire_outcome [OF B K inv acq] that by simp
  have all: "(if b_arena B then m_issued s g \<noteq> None else m_leases s g \<noteq> None)" if g: "g < ?count" for g
  proof (rule ccontr)
    assume out: "\<not> ?thesis"
    have sub: "(if b_arena B then dom (m_issued s) else dom (m_leases s)) \<subseteq> {g. g < ?count}"
      using inv by (simp add: pool_inv_def subset_iff domIff)
    have "g \<notin> (if b_arena B then dom (m_issued s) else dom (m_leases s))"
      using out by (auto split: if_splits)
    note card = card_less_max [OF sub g this]
    have "fst (k_issued_update K (m_issued s) g 1) = 0" if "b_arena B"
      using L out card that by (simp add: kernel_live_def noexist_live_def)
    moreover have "fst (k_lease_update K (m_leases s) g
        (next_generation (fc_generation (m_fibers s g)))) = 0" if "\<not> b_arena B"
      using L out card that by (simp add: kernel_live_def noexist_live_def)
    ultimately show False
      using refused [OF g] by (auto simp: try_fiber_def Let_def split: prod.splits if_splits)
  qed
  have free: "m_free s = []" if "b_arena B" "?count \<noteq> 0"
    using acquire_outcome [OF B K inv acq] that L by (auto simp: kernel_live_def pop_live_def)
  have "g \<in> leased B s" if "g < ?count" for g
    using all [OF that] free that by (cases "?count = 0") (auto simp: leased_def split: if_splits)
  then show ?thesis using leased_less_count [OF inv] by blast
qed

section \<open>Consuming a continuation\<close>

lemma continuation_value_parts:
  "continuation_value (continuation_fiber c) (continuation_generation c) = c"
proof (rule bit_word_eqI)
  fix n assume "n < LENGTH(64)"
  then show "bit (continuation_value (continuation_fiber c) (continuation_generation c)) n = bit c n"
    by (cases "n < 16") (auto simp: continuation_value_def continuation_fiber_def
        continuation_generation_def continuation_consts(1) fiber_mask bit_simps)
qed

text \<open>The token that names the present lease of a fiber.\<close>

definition current_token :: "'w machine \<Rightarrow> u32 \<Rightarrow> u64" where
  "current_token s f = continuation_value f (fc_generation (m_fibers s f))"

lemma token_parts:
  assumes "build_ok B" and "f < bpf_capsule_fiber_count B s" and "valid_generation g"
  shows "continuation_fiber (continuation_value f g) = f"
    and "continuation_generation (continuation_value f g) = g"
proof -
  have f: "f < 65536"
    using assms(2) fiber_count_le [OF assms(1), of s] by (simp add: word_less_nat_alt)
  show "continuation_fiber (continuation_value f g) = f"
    by (rule continuation_fiber_value [OF f])
  show "continuation_generation (continuation_value f g) = g"
    using continuation_generation_value [OF f] assms(3) by (simp add: valid_generation_def)
qed

text \<open>The owner check accepts the current generation of a leased fiber only, and installs the next.\<close>

lemma consume_owner_accepts:
  assumes inv: "pool_inv B s" and f: "f < bpf_capsule_fiber_count B s"
    and own: "consume_owner B f g s = (True, s')"
  shows "f \<in> leased B s" and "fc_generation (m_fibers s f) = g"
    and "m_fibers s' = (m_fibers s)(f := (m_fibers s f)\<lparr>fc_generation := next_generation g\<rparr>)"
    and "pool_frame s s'" and "leased B s' = leased B s" and "pool_inv B s'"
proof -
  have A: "b_arena B \<Longrightarrow> f \<in> leased B s \<and> fc_generation (m_fibers s f) = g \<and>
      s' = put_control f ((m_fibers s f)\<lparr>fc_generation := next_generation g\<rparr>) s"
    using own inv f by (auto simp: consume_owner_def Let_def pool_inv_def quiet_def split: if_splits)
  have F: "\<not> b_arena B \<Longrightarrow> m_leases s f = Some g \<and> fc_generation (m_fibers s f) = g \<and>
      s' = put_control f ((m_fibers s f)\<lparr>fc_generation := next_generation g\<rparr>)
        (s\<lparr>m_leases := (m_leases s)(f \<mapsto> next_generation g)\<rparr>)"
    using own inv by (auto simp: consume_owner_def Let_def pool_inv_def split: if_splits)
  show "f \<in> leased B s" "fc_generation (m_fibers s f) = g"
    "m_fibers s' = (m_fibers s)(f := (m_fibers s f)\<lparr>fc_generation := next_generation g\<rparr>)"
    "pool_frame s s'"
    using A F by (cases "b_arena B"; auto simp: leased_def put_control_def frame_defs)+
  show leased: "leased B s' = leased B s"
    using A F by (cases "b_arena B") (auto simp: leased_def put_control_def)
  show "pool_inv B s'"
    using A F inv
    by (cases "b_arena B") (auto simp: pool_inv_def leased_def put_control_def quiet_def
        bpf_capsule_fiber_count_def)
qed

lemma consume_owner_refuses: "consume_owner B f g s = (False, s') \<Longrightarrow> s' = s"
  by (auto simp: consume_owner_def Let_def split: if_splits)

lemma leased_frame [simp]:
  "leased B (s\<lparr>m_claims := z\<rparr>) = leased B s" "leased B (put_control i c s) = leased B s"
  "leased B (s\<lparr>m_fibers := x\<rparr>) = leased B s"
  by (simp_all add: leased_def put_control_def)

lemma pool_inv_claims [simp]: "pool_inv B (s\<lparr>m_claims := z\<rparr>) \<longleftrightarrow> pool_inv B s"
  by (simp add: pool_inv_def)

lemma pool_inv_put_control:
  assumes "pool_inv B s" and "fc_generation c = fc_generation (m_fibers s f)"
    and "f \<in> leased B s \<or> quiet c"
  shows "pool_inv B (put_control f c s)"
  using assms by (auto simp: pool_inv_def leased_def put_control_def bpf_capsule_fiber_count_def)

text \<open>What consuming a token does, by its result.\<close>

definition bumped :: "u32 \<Rightarrow> 'w machine \<Rightarrow> fiber_control" where
  "bumped f s = (m_fibers s f)\<lparr>fc_generation := next_generation (fc_generation (m_fibers s f))\<rparr>"

definition consumed_by :: "build \<Rightarrow> u64 \<Rightarrow> u32 \<Rightarrow> 'w machine \<Rightarrow> 'w machine \<Rightarrow> bool" where
  "consumed_by B c f s s' \<longleftrightarrow> f \<in> leased B s \<and> c = current_token s f \<and> m_claims s c = None \<and>
     (m_fibers s' = (m_fibers s)(f := bumped f s) \<and> m_claims s' = m_claims s \<or>
      m_fibers s' = (m_fibers s)(f := bpf_capsule_stop (bumped f s) CAPSULE_ERROR_POOL_CORRUPT))"

definition consume_post ::
  "build \<Rightarrow> u64 \<Rightarrow> 'w machine \<Rightarrow> claim_result \<times> u32 option \<times> 'w machine \<Rightarrow> bool" where
  "consume_post B c s res \<longleftrightarrow> (case res of (r, out, s') \<Rightarrow>
     leased B s' = leased B s \<and> pool_inv B s' \<and> world_frame s s' \<and>
     (if r = CLAIM_CONSUMED then (\<exists>f. out = Some f \<and> consumed_by B c f s s')
      else out = None \<and> m_fibers s' = m_fibers s))"

text \<open>The second half of \<open>__bpf_capsule_consume_continuation\<close>, after the claim is taken.\<close>

lemma consume_claimed:
  assumes K: "kernel_ok K" and inv: "pool_inv B s"
    and f: "f = continuation_fiber c" and lt: "f < bpf_capsule_fiber_count B s"
    and new: "m_claims s c = None"
    and own: "consume_owner B f (continuation_generation c) (s\<lparr>m_claims := (m_claims s)(c \<mapsto> 1)\<rparr>) = (True, t)"
    and del: "k_claim_delete K (m_claims t) c = (rc, claims)"
  shows "consume_post B c s (CLAIM_CONSUMED, Some f,
    if rc \<noteq> 0 then put_control (fiber_index B f)
      (bpf_capsule_stop (get_control B (t\<lparr>m_claims := claims\<rparr>) f) CAPSULE_ERROR_POOL_CORRUPT)
      (t\<lparr>m_claims := claims\<rparr>)
    else t\<lparr>m_claims := claims\<rparr>)"
proof -
  note acc = consume_owner_accepts [OF _ _ own]
  have acc': "f \<in> leased B s" "fc_generation (m_fibers s f) = continuation_generation c"
    "m_fibers t = (m_fibers s)(f := bumped f s)"
    "world_frame s t" "m_claims t = (m_claims s)(c \<mapsto> 1)"
    "leased B t = leased B s" "pool_inv B t"
    using acc inv lt by (simp_all add: bumped_def frame_defs)
  have tok: "c = current_token s f"
    using continuation_value_parts [of c] acc'(2) f by (simp add: current_token_def)
  have cl: "rc = 0 \<Longrightarrow> claims = m_claims s"
    using delete_okD(2) [OF kernel_okD(7) [OF K] del] acc'(5) new by auto
  have stopped: "pool_inv B (put_control f (bpf_capsule_stop (bumped f s) CAPSULE_ERROR_POOL_CORRUPT)
      (t\<lparr>m_claims := claims\<rparr>))"
    by (rule pool_inv_put_control) (use acc' in \<open>auto simp: bpf_capsule_stop_def\<close>)
  show ?thesis
    using acc' tok cl new stopped lt
    by (cases "rc = 0") (auto simp: consume_post_def consumed_by_def count_nonzero_index
        get_control_def put_control_def frame_defs)
qed

lemma consume_outcome:
  assumes K: "kernel_ok K" and inv: "pool_inv B s"
  shows "consume_post B c s (bpf_capsule_consume_continuation B K c s)"
proof (cases "continuation_generation c = 0 \<or> continuation_fiber c \<ge> bpf_capsule_fiber_count B s")
  case True
  then show ?thesis
    using inv by (auto simp: bpf_capsule_consume_continuation_def consume_post_def)
next
  case valid: False
  let ?f = "continuation_fiber c" and ?g = "continuation_generation c"
  obtain e claims where upd: "k_claim_update K (m_claims s) c 1 = (e, claims)"
    by (cases "k_claim_update K (m_claims s) c 1")
  let ?t = "s\<lparr>m_claims := claims\<rparr>"
  obtain consumed t where own: "consume_owner B ?f ?g ?t = (consumed, t)"
    by (cases "consume_owner B ?f ?g ?t")
  obtain rc claims' where del: "k_claim_delete K (m_claims t) c = (rc, claims')"
    by (cases "k_claim_delete K (m_claims t) c")
  show ?thesis
  proof (cases "e = 0 \<and> consumed")
    case True
    then have "m_claims s c = None" "claims = (m_claims s)(c \<mapsto> 1)"
      using noexist_okD(1,2) [OF kernel_okD(6) [OF K] upd] by simp_all
    then show ?thesis
      using consume_claimed [OF K inv refl _ _ _ del] own upd valid True del
      by (auto simp: bpf_capsule_consume_continuation_def Let_def)
  next
    case False
    then show ?thesis
      using own upd del valid inv consume_owner_refuses [of B ?f ?g ?t t]
      by (auto simp: bpf_capsule_consume_continuation_def Let_def consume_post_def frame_defs
          split: if_splits)
  qed
qed

section \<open>Cancelling\<close>

lemma clear_quiet [simp]: "quiet (bpf_capsule_clear_fiber c)"
  by (simp add: quiet_def bpf_capsule_clear_fiber_def)

text \<open>The fiber table after a cancellation: cleared, and stopped as well when the pool refused it.\<close>

definition cancelled :: "u32 \<Rightarrow> int \<Rightarrow> 'w machine \<Rightarrow> fiber_control" where
  "cancelled f rc s = (let c = bpf_capsule_clear_fiber (m_fibers s f)
     in if rc = 0 then c else bpf_capsule_stop c CAPSULE_ERROR_POOL_CORRUPT)"

lemma cancel_outcome:
  assumes K: "kernel_ok K" and inv: "pool_inv B s" and f: "f \<in> leased B s"
    and can: "bpf_capsule_fiber_cancel B K f s = (rc, s')"
  shows "pool_inv B s'" and "leased B s' = (if rc = 0 then leased B s - {f} else leased B s)"
    and "m_fibers s' = (m_fibers s)(f := cancelled f rc s)" and "pool_frame s s'"
proof -
  let ?c = "bpf_capsule_clear_fiber (m_fibers s f)"
  let ?t = "put_control f ?c s"
  have rel: "bpf_capsule_fiber_release B K f ?t = (rc, s')"
    using can leased_less_count [OF inv f]
    by (simp add: bpf_capsule_fiber_cancel_def get_control_def count_nonzero_index)
  have t: "pool_inv B ?t" "f \<in> leased B ?t" "m_fibers ?t f = ?c"
    using pool_inv_put_control [OF inv] f by (simp_all add: put_control_def)
  note out = release_outcome [OF K t(1,2) rel]
  have stop: "pool_inv B (put_control f (bpf_capsule_stop ?c CAPSULE_ERROR_POOL_CORRUPT) ?t)"
    by (rule pool_inv_put_control [OF t(1)]) (use t f in \<open>simp_all add: bpf_capsule_stop_def\<close>)
  show "pool_inv B s'" using out t(3) stop by (auto split: if_splits)
  show "leased B s' = (if rc = 0 then leased B s - {f} else leased B s)"
    using out by (auto split: if_splits)
  show "m_fibers s' = (m_fibers s)(f := cancelled f rc s)" "pool_frame s s'"
    using out by (auto simp: cancelled_def put_control_def frame_defs Let_def split: if_splits)
qed

lemma cancel_live:
  assumes "kernel_live (unat (b_max_fibers B)) K" and "pool_inv B s" and "f \<in> leased B s"
  shows "fst (bpf_capsule_fiber_cancel B K f s) = 0"
  using release_live [OF assms(1), of "put_control f (bpf_capsule_clear_fiber (m_fibers s f)) s" f]
    pool_inv_put_control [OF assms(2)] assms(3) leased_less_count [OF assms(2,3)]
  by (simp add: bpf_capsule_fiber_cancel_def get_control_def count_nonzero_index)

section \<open>The interface to the entry glue\<close>

text \<open>A client that leases \<open>n\<close> fibers in a row, and one that returns a list of them.\<close>

fun acquire_many :: "('s \<Rightarrow> u32 \<times> 's) \<Rightarrow> nat \<Rightarrow> 's \<Rightarrow> u32 list \<times> 's" where
  "acquire_many acquire 0 s = ([], s)"
| "acquire_many acquire (Suc n) s =
     (case acquire s of (f, s') \<Rightarrow>
        if f = BPF_CAPSULE_NO_FIBER then ([], s')
        else case acquire_many acquire n s' of (fs, s'') \<Rightarrow> (f # fs, s''))"

fun cancel_many :: "(u32 \<Rightarrow> 's \<Rightarrow> int \<times> 's) \<Rightarrow> u32 list \<Rightarrow> 's \<Rightarrow> bool \<times> 's" where
  "cancel_many cancel [] s = (True, s)"
| "cancel_many cancel (f # fs) s =
     (case cancel f s of (rc, s') \<Rightarrow> if rc \<noteq> 0 then (False, s') else cancel_many cancel fs s')"

locale lease_pool =
  fixes inv :: "'s \<Rightarrow> bool" and held :: "'s \<Rightarrow> u32 set" and capacity :: "'s \<Rightarrow> u32"
    and acquire :: "'s \<Rightarrow> u32 \<times> 's" and cancel :: "u32 \<Rightarrow> 's \<Rightarrow> int \<times> 's"
  assumes acquire_none: "inv s \<Longrightarrow> acquire s = (BPF_CAPSULE_NO_FIBER, s') \<Longrightarrow> s' = s"
    and acquire_fresh: "inv s \<Longrightarrow> acquire s = (f, s') \<Longrightarrow> f \<noteq> BPF_CAPSULE_NO_FIBER \<Longrightarrow>
      inv s' \<and> f < capacity s \<and> capacity s' = capacity s \<and> f \<notin> held s \<and> held s' = insert f (held s)"
    and cancel_held: "inv s \<Longrightarrow> f \<in> held s \<Longrightarrow> cancel f s = (rc, s') \<Longrightarrow>
      inv s' \<and> capacity s' = capacity s \<and> held s' = (if rc = 0 then held s - {f} else held s)"
begin

lemma many_distinct:
  assumes "inv s" and "acquire_many acquire n s = (fs, s')"
  shows "inv s' \<and> distinct fs \<and> set fs \<inter> held s = {} \<and> held s' = held s \<union> set fs \<and>
    (\<forall>f\<in>set fs. f < capacity s)"
  using assms
proof (induction n arbitrary: s fs s')
  case (Suc n)
  obtain f t where f: "acquire s = (f, t)" by (cases "acquire s")
  obtain gs u where g: "acquire_many acquire n t = (gs, u)" by (cases "acquire_many acquire n t")
  show ?case
  proof (cases "f = BPF_CAPSULE_NO_FIBER")
    case True
    then show ?thesis using Suc.prems f acquire_none [OF Suc.prems(1), of t] by auto
  next
    case False
    note fresh = acquire_fresh [OF Suc.prems(1) f False]
    have "inv u \<and> distinct gs \<and> set gs \<inter> held t = {} \<and> held u = held t \<union> set gs \<and>
        (\<forall>f\<in>set gs. f < capacity t)"
      using Suc.IH [OF _ g] fresh by simp
    then show ?thesis using Suc.prems(2) f g False fresh by auto
  qed
qed simp

lemma many_cancel:
  assumes "inv s" and "set fs \<subseteq> held s" and "distinct fs" and "cancel_many cancel fs s = (True, s')"
  shows "inv s' \<and> held s' = held s - set fs"
  using assms
proof (induction fs arbitrary: s)
  case (Cons f fs)
  obtain rc t where c: "cancel f s = (rc, t)" by (cases "cancel f s")
  have "f \<in> held s" using Cons.prems(2) by simp
  note held = cancel_held [OF Cons.prems(1) this c]
  have rc: "rc = 0" and rest: "cancel_many cancel fs t = (True, s')"
    using Cons.prems(4) c by (auto split: if_splits)
  have "set fs \<subseteq> held t" using held rc Cons.prems(2,3) by auto
  then have "inv s' \<and> held s' = held t - set fs"
    using Cons.IH [of t] held Cons.prems(3) rest by (metis distinct.simps(2))
  then show ?case using held rc by auto
qed simp

lemma lease_roundtrip:
  assumes "inv s" and "acquire_many acquire n s = (fs, s')" and "cancel_many cancel fs s' = (True, s'')"
  shows "inv s'' \<and> held s'' = held s"
  using many_distinct [OF assms(1,2)] many_cancel [of s' fs s''] assms(3) by auto

end

interpretation capsule_pool: lease_pool
  "\<lambda>s. build_ok B \<and> kernel_ok K \<and> pool_inv B s" "leased B" "bpf_capsule_fiber_count B"
  "bpf_capsule_fiber_acquire B K" "bpf_capsule_fiber_cancel B K" for B K
proof
  show "s' = s" if "build_ok B \<and> kernel_ok K \<and> pool_inv B s"
    "bpf_capsule_fiber_acquire B K s = (BPF_CAPSULE_NO_FIBER, s')" for s s' :: "'a machine"
    using acquire_outcome [of B K s BPF_CAPSULE_NO_FIBER s'] that by simp
next
  fix s s' :: "'a machine" and f
  assume "build_ok B \<and> kernel_ok K \<and> pool_inv B s" "bpf_capsule_fiber_acquire B K s = (f, s')"
    "f \<noteq> BPF_CAPSULE_NO_FIBER"
  then show "(build_ok B \<and> kernel_ok K \<and> pool_inv B s') \<and> f < bpf_capsule_fiber_count B s \<and>
      bpf_capsule_fiber_count B s' = bpf_capsule_fiber_count B s \<and> f \<notin> leased B s \<and>
      leased B s' = insert f (leased B s)"
    using acquire_outcome [of B K s f s'] frame_count [of s s' B]
    by (auto simp: acquired_def pool_frame_def)
next
  fix s s' :: "'a machine" and f rc
  assume "build_ok B \<and> kernel_ok K \<and> pool_inv B s" "f \<in> leased B s"
    "bpf_capsule_fiber_cancel B K f s = (rc, s')"
  then show "(build_ok B \<and> kernel_ok K \<and> pool_inv B s') \<and>
      bpf_capsule_fiber_count B s' = bpf_capsule_fiber_count B s \<and>
      leased B s' = (if rc = 0 then leased B s - {f} else leased B s)"
    using cancel_outcome [of K B s f rc s'] frame_count [of s s' B] by (simp add: pool_frame_def)
qed

lemma loaded_pool_inv [simp]: "pool_inv B (loaded_machine config w)"
  by (simp add: pool_inv_def leased_def loaded_machine_def quiet_def zero_control_def status_defs)

lemma loaded_leased [simp]: "leased B (loaded_machine config w) = {}"
  by (simp add: leased_def loaded_machine_def)

lemma sample_inv [simp]: "pool_inv B (sample_machine arena count)"
  "leased B (sample_machine arena count) = {}"
  by (simp_all add: sample_machine_def)

section \<open>Properties of the pool\<close>

text \<open>C2: acquiring a fiber either leases one that was not leased, hands it over cleared and under a
  valid generation whose token is not the fiber's previous one, and changes no other fiber; or reports that
  there is none and changes nothing. With maps preallocated to the compiled ceiling it reports none
  only when every active fiber is leased.\<close>

theorem acquire_refines_insert:
  assumes "build_ok B" and "kernel_ok K" and "pool_inv B s"
    and "bpf_capsule_fiber_acquire B K s = (f, s')"
  shows "pool_inv B s' \<and>
    (if f \<noteq> BPF_CAPSULE_NO_FIBER
     then f < bpf_capsule_fiber_count B s \<and> f \<notin> leased B s \<and>
       leased B s' = insert f (leased B s) \<and> quiet (m_fibers s' f) \<and>
       valid_generation (fc_generation (m_fibers s' f)) \<and>
       (valid_generation (fc_generation (m_fibers s f)) \<longrightarrow> current_token s' f \<noteq> current_token s f) \<and>
       (\<forall>g. g \<noteq> f \<longrightarrow> m_fibers s' g = m_fibers s g)
     else s' = s \<and> (kernel_live (unat (b_max_fibers B)) K \<longrightarrow>
       leased B s = {g. g < bpf_capsule_fiber_count B s}))"
proof (cases "f = BPF_CAPSULE_NO_FIBER")
  case True
  then show ?thesis
    using acquire_outcome [OF assms] assms(3) acquire_live [OF assms(1,2) _ assms(3)] assms(4)
    by simp
next
  case False
  then have acq: "acquired B f s s'" using acquire_outcome [OF assms] by simp
  then have f: "f < bpf_capsule_fiber_count B s"
    and fresh: "m_fibers s' f = fresh_control (m_fibers s f)" by (simp_all add: acquired_def)
  have "current_token s' f \<noteq> current_token s f"
    if "valid_generation (fc_generation (m_fibers s f))"
    using token_parts(2) [OF assms(1) f that] next_generation_neq [OF that]
      token_parts(2) [OF assms(1) f valid_next_generation [of "fc_generation (m_fibers s f)"]]
    unfolding current_token_def fresh by (metis fresh_control_generation(1))
  then show ?thesis
    using acq False by (auto simp: acquired_def fresh fresh_control_def quiet_def
        bpf_capsule_clear_fiber_def status_defs)
qed

theorem acquire_refines_insert_witness:
  "fst (bpf_capsule_fiber_acquire (sample_build False) (plain_kernel 4 1) (sample_machine False 3)) = 1
    \<and> leased (sample_build False) (snd (bpf_capsule_fiber_acquire (sample_build False)
        (plain_kernel 4 1) (sample_machine False 3))) = {1}"
proof -
  have one: "fst (bpf_capsule_fiber_acquire (sample_build False) (plain_kernel 4 1)
      (sample_machine False 3)) = 1"
    by code_simp
  then show ?thesis
    using acquire_refines_insert [of "sample_build False" "plain_kernel 4 1" "sample_machine False 3" 1
      "snd (bpf_capsule_fiber_acquire (sample_build False) (plain_kernel 4 1) (sample_machine False 3))"]
    by (simp add: prod_eq_iff BPF_CAPSULE_NO_FIBER_def)
qed

text \<open>C5: fibers leased one after the other are pairwise distinct, within the active count and disjoint
  from those already leased, however many are asked for; cancelling all of them restores the leased
  set.\<close>

theorem leases_distinct_and_returned:
  assumes "build_ok B" and "kernel_ok K" and "pool_inv B s"
    and "acquire_many (bpf_capsule_fiber_acquire B K) n s = (fs, s')"
  shows "distinct fs \<and> set fs \<inter> leased B s = {} \<and> leased B s' = leased B s \<union> set fs \<and>
    (\<forall>f\<in>set fs. f < bpf_capsule_fiber_count B s) \<and>
    (\<forall>s''. cancel_many (bpf_capsule_fiber_cancel B K) fs s' = (True, s'') \<longrightarrow>
       pool_inv B s'' \<and> leased B s'' = leased B s)"
  using capsule_pool.many_distinct [of B K s n fs s'] capsule_pool.lease_roundtrip [of B K s n fs s']
    assms by blast

theorem leases_distinct_and_returned_witness:
  "fst (acquire_many (bpf_capsule_fiber_acquire (sample_build True) (plain_kernel 4 1)) 4
      (sample_machine True 3)) = [1, 2, 0]
    \<and> leased (sample_build True) (snd (acquire_many (bpf_capsule_fiber_acquire (sample_build True)
      (plain_kernel 4 1)) 4 (sample_machine True 3))) = {0, 1, 2}"
proof -
  let ?run = "acquire_many (bpf_capsule_fiber_acquire (sample_build True) (plain_kernel 4 1)) 4
    (sample_machine True 3)"
  have fs: "fst ?run = [1, 2, 0]" by code_simp
  obtain gs t where run: "?run = (gs, t)" by (cases ?run)
  show ?thesis
    using leases_distinct_and_returned [OF sample_build_ok plain_kernel_ok sample_inv(1) run] fs
    unfolding run by (simp add: insert_commute)
qed

text \<open>Once a fiber's generation has moved on, its old token is refused.\<close>

lemma token_stale:
  assumes B: "build_ok B" and inv: "pool_inv B s" and f: "f \<in> leased B s" and c: "c = current_token s f"
    and s': "pool_inv B s'" and K: "kernel_ok K'"
    and gen: "fc_generation (m_fibers s' f) = next_generation (fc_generation (m_fibers s f))"
  shows "fst (bpf_capsule_consume_continuation B K' c s') \<noteq> CLAIM_CONSUMED"
proof
  assume again: "fst (bpf_capsule_consume_continuation B K' c s') = CLAIM_CONSUMED"
  then obtain g s'' where g: "consumed_by B c g s' s''"
    using consume_outcome [OF K s', of c]
    by (auto simp: consume_post_def split: prod.splits if_splits)
  let ?g = "fc_generation (m_fibers s f)"
  have lt: "f < bpf_capsule_fiber_count B s" and v: "valid_generation ?g"
    using f inv leased_less_count [OF inv] by (auto simp: pool_inv_def)
  have parts: "continuation_fiber c = f" "continuation_generation c = ?g"
    using token_parts [OF B lt v] c by (auto simp: current_token_def)
  have lt': "g < bpf_capsule_fiber_count B s'" "valid_generation (fc_generation (m_fibers s' g))"
    using g s' leased_less_count [OF s'] by (auto simp: consumed_by_def pool_inv_def)
  have "continuation_fiber c = g" "continuation_generation c = fc_generation (m_fibers s' g)"
    using token_parts [OF B lt'] g by (auto simp: consumed_by_def current_token_def)
  then have "fc_generation (m_fibers s' f) = ?g" using parts by simp
  then show False using gen next_generation_neq [OF v] by simp
qed

lemma consumed_generation:
  "consumed_by B c f s s' \<Longrightarrow> fc_generation (m_fibers s' f) = next_generation (fc_generation (m_fibers s f))"
  by (auto simp: consumed_by_def bumped_def bpf_capsule_stop_def)

lemma consume_again:
  assumes "build_ok B" and "pool_inv B s" and con: "consumed_by B c f s s'"
    and "pool_inv B s'" and "kernel_ok K'"
  shows "fst (bpf_capsule_consume_continuation B K' c s') \<noteq> CLAIM_CONSUMED"
  using token_stale [OF assms(1,2) _ _ assms(4,5) consumed_generation [OF con]] con
  by (simp add: consumed_by_def)


definition suspended_sample :: "unit machine" where
  "suspended_sample = put_control 1 (zero_control\<lparr>fc_generation := 7, fc_resume_region_id := 256\<rparr>)
     ((sample_machine True 3)\<lparr>m_issued := [1 \<mapsto> 1]\<rparr>)"

lemma suspended_sample_inv: "pool_inv (sample_build True) suspended_sample"
  by (auto simp: pool_inv_def leased_def suspended_sample_def put_control_def sample_defs
      bpf_capsule_fiber_count_def quiet_def zero_control_def valid_generation_def take_bit_word_self
      status_defs)


end
