(* ===== verification/Trampoline.thy ===== *)
theory Trampoline
  imports Step_Dispatch Pool_Contract
begin

text \<open>
  The driver of \<open>src/src/runtime/guest/bpf_capsule.c\<close>: nested bounded loops over the step function,
  with and without a borrowed context, and the stack base of the fixed tier. What the compiler
  generates is a parameter, a record of the functions the runtime declares \<open>extern\<close>; \<open>compiled\<close>
  builds that record from a packed program, so the driver and the dispatch code compose. The locale
  \<open>managed_step\<close> states what the driver needs of a step.
\<close>

definition BPF_CAPSULE_DRIVE_LEVEL :: nat where "BPF_CAPSULE_DRIVE_LEVEL = 2048"
definition BPF_CAPSULE_DRIVE_REPEATS :: nat where
  "BPF_CAPSULE_DRIVE_REPEATS = BPF_CAPSULE_DRIVE_LEVEL div BPF_CAPSULE_STEP_TRIPS"

lemmas drive_consts =
  BPF_CAPSULE_DRIVE_LEVEL_def BPF_CAPSULE_DRIVE_REPEATS_def BPF_CAPSULE_STEP_TRIPS_def

record 'w object_code =
  oc_step :: "u32 \<Rightarrow> u64 \<Rightarrow> 'w machine \<Rightarrow> int \<times> 'w machine"
  oc_ctx_step :: "u64 \<Rightarrow> u32 \<Rightarrow> u64 \<Rightarrow> 'w machine \<Rightarrow> int \<times> 'w machine"
  oc_stack_region :: "u32 \<Rightarrow> 'w machine \<Rightarrow> u64"
  oc_stack_offset :: "u32 \<Rightarrow> 'w machine \<Rightarrow> u32"

text \<open>\<open>__bpf_capsule_stack_base\<close>: 0 is the null pointer.\<close>

definition bpf_capsule_stack_base ::
  "build \<Rightarrow> ('w, 'z) object_code_scheme \<Rightarrow> u32 \<Rightarrow> 'w machine \<Rightarrow> u64 \<times> 'w machine" where
  "bpf_capsule_stack_base B C fiber s =
     (let region = oc_stack_region C fiber s
      in if region = 0
         then (0, put_control (fiber_index B fiber)
                    (bpf_capsule_stop (get_control B s fiber) CAPSULE_ERROR_MEMORY_FAULT) s)
         else (region + ucast (oc_stack_offset C fiber s), s))"

definition bpf_capsule_trampoline_l1 ::
  "('w, 'z) object_code_scheme \<Rightarrow> u32 \<Rightarrow> u64 \<Rightarrow> 'w machine \<Rightarrow> int \<times> 'w machine" where
  "bpf_capsule_trampoline_l1 C fiber stack = drive_loop BPF_CAPSULE_DRIVE_LEVEL (oc_step C fiber stack)"

definition bpf_capsule_trampoline ::
  "build \<Rightarrow> ('w, 'z) object_code_scheme \<Rightarrow> u32 \<Rightarrow> 'w machine \<Rightarrow> int \<times> 'w machine" where
  "bpf_capsule_trampoline B C fiber s =
     (let drive = (\<lambda>stack s.
            case drive_loop BPF_CAPSULE_DRIVE_REPEATS (bpf_capsule_trampoline_l1 C fiber stack) s of
              (status, s') \<Rightarrow> if status \<noteq> 0 then (status, s') else oc_step C fiber stack s')
      in if b_arena B then drive 0 s
         else case bpf_capsule_stack_base B C fiber s of
                (stack, s') \<Rightarrow> if stack = 0 then (1, s') else drive stack s')"

definition bpf_capsule_trampoline_ctx_l1 ::
  "('w, 'z) object_code_scheme \<Rightarrow> u64 \<Rightarrow> u32 \<Rightarrow> u64 \<Rightarrow> 'w machine \<Rightarrow> int \<times> 'w machine" where
  "bpf_capsule_trampoline_ctx_l1 C ctx fiber stack =
     drive_loop BPF_CAPSULE_DRIVE_LEVEL (oc_ctx_step C ctx fiber stack)"

definition bpf_capsule_trampoline_ctx ::
  "build \<Rightarrow> ('w, 'z) object_code_scheme \<Rightarrow> u64 \<Rightarrow> u32 \<Rightarrow> 'w machine \<Rightarrow> int \<times> 'w machine" where
  "bpf_capsule_trampoline_ctx B C ctx fiber s =
     (let drive = (\<lambda>stack s.
            case drive_loop BPF_CAPSULE_DRIVE_REPEATS
                   (bpf_capsule_trampoline_ctx_l1 C ctx fiber stack) s of
              (status, s') \<Rightarrow> if status \<noteq> 0 then (status, s') else oc_ctx_step C ctx fiber stack s')
      in if b_arena B then drive 0 s
         else case bpf_capsule_stack_base B C fiber s of
                (stack, s') \<Rightarrow> if stack = 0 then (1, s') else drive stack s')"

text \<open>The driver as one loop: the final dispatch is one more trip.\<close>

definition drive_steps :: nat where
  "drive_steps = BPF_CAPSULE_DRIVE_REPEATS * BPF_CAPSULE_DRIVE_LEVEL + 1"

lemma nested_drive:
  "(case drive_loop BPF_CAPSULE_DRIVE_REPEATS (drive_loop BPF_CAPSULE_DRIVE_LEVEL step) s of
      (status, s') \<Rightarrow> if status \<noteq> 0 then (status, s') else step s') = drive_loop drive_steps step s"
  unfolding drive_steps_def drive_loop_nested Suc_eq_plus1 [symmetric] drive_loop_snoc ..

lemma trampoline_loop:
  "bpf_capsule_trampoline B C fiber s =
     (if b_arena B then drive_loop drive_steps (oc_step C fiber 0) s
      else case bpf_capsule_stack_base B C fiber s of (stack, s') \<Rightarrow>
             if stack = 0 then (1, s') else drive_loop drive_steps (oc_step C fiber stack) s')"
  by (simp add: bpf_capsule_trampoline_def bpf_capsule_trampoline_l1_def Let_def nested_drive)

lemma trampoline_ctx_loop:
  "bpf_capsule_trampoline_ctx B C ctx fiber s =
     (if b_arena B then drive_loop drive_steps (oc_ctx_step C ctx fiber 0) s
      else case bpf_capsule_stack_base B C fiber s of (stack, s') \<Rightarrow>
             if stack = 0 then (1, s') else drive_loop drive_steps (oc_ctx_step C ctx fiber stack) s')"
  by (simp add: bpf_capsule_trampoline_ctx_def bpf_capsule_trampoline_ctx_l1_def Let_def nested_drive)

text \<open>The context driver is the scalar driver over the context step.\<close>

lemma trampoline_ctx_eq:
  "bpf_capsule_trampoline_ctx B C ctx fiber s =
     bpf_capsule_trampoline B (C\<lparr>oc_step := oc_ctx_step C ctx\<rparr>) fiber s"
  by (simp add: trampoline_ctx_loop trampoline_loop bpf_capsule_stack_base_def Let_def)

section \<open>What the driver needs of a step\<close>

text \<open>A managed step of a fiber leaves the pool alone: it changes no runtime map and no other fiber's
  record, and of its own record not the generation.\<close>

definition fiber_frame :: "u32 \<Rightarrow> 'w machine \<Rightarrow> 'w machine \<Rightarrow> bool" where
  "fiber_frame f s s' \<longleftrightarrow> m_config s' = m_config s \<and> m_issued s' = m_issued s \<and>
     m_free s' = m_free s \<and> m_leases s' = m_leases s \<and> m_claims s' = m_claims s \<and>
     m_heap_entries s' = m_heap_entries s \<and> m_host_ready s' = m_host_ready s \<and>
     (\<forall>g. g \<noteq> f \<longrightarrow> m_fibers s' g = m_fibers s g) \<and>
     fc_generation (m_fibers s' f) = fc_generation (m_fibers s f)"

lemma fiber_frame_refl [simp]: "fiber_frame f s s"
  by (simp add: fiber_frame_def)

lemma fiber_frame_trans: "fiber_frame f s t \<Longrightarrow> fiber_frame f t u \<Longrightarrow> fiber_frame f s u"
  by (simp add: fiber_frame_def)

lemma fiber_frame_count:
  "fiber_frame f s s' \<Longrightarrow> bpf_capsule_fiber_count B s' = bpf_capsule_fiber_count B s"
  by (simp add: fiber_frame_def bpf_capsule_fiber_count_def)

lemma fiber_frame_leased: "fiber_frame f s s' \<Longrightarrow> leased B s' = leased B s"
  by (simp add: fiber_frame_def leased_def)

lemma fiber_frame_inv:
  assumes "fiber_frame f s s'" and "pool_inv B s" and "f \<in> leased B s"
  shows "pool_inv B s'"
proof -
  have gen: "fc_generation (m_fibers s' g) = fc_generation (m_fibers s g)" for g
    using assms(1) by (cases "g = f") (simp_all add: fiber_frame_def)
  have quiet: "quiet (m_fibers s' g)" if "g \<notin> leased B s" "quiet (m_fibers s g)" for g
    using that assms(1,3) by (cases "g = f") (simp_all add: fiber_frame_def)
  show ?thesis
    using assms(2) gen quiet fiber_frame_leased [OF assms(1), of B] fiber_frame_count [OF assms(1), of B]
      assms(1)
    unfolding pool_inv_def by (auto simp: fiber_frame_def split: if_splits)
qed

lemma fiber_frame_put [simp]:
  "fc_generation c = fc_generation (m_fibers s f) \<Longrightarrow> fiber_frame f s (put_control f c s)"
  by (simp add: fiber_frame_def put_control_def)

locale managed_step =
  fixes B :: build and good :: bool and step :: "u32 \<Rightarrow> u64 \<Rightarrow> 'w machine \<Rightarrow> int \<times> 'w machine"
  assumes step_frame: "good \<Longrightarrow> f < bpf_capsule_fiber_count B s \<Longrightarrow> step f stack s = (a, s') \<Longrightarrow>
    fiber_frame f s s'"
begin

lemma loop_frame:
  assumes good and "f < bpf_capsule_fiber_count B s"
  shows "fiber_frame f s (snd (drive_loop n (step f stack) s))"
proof -
  have "fiber_frame f s (snd (drive_loop n (step f stack) s)) \<and>
      f < bpf_capsule_fiber_count B (snd (drive_loop n (step f stack) s))"
  proof (rule drive_loop_invariant)
    show "fiber_frame f s s \<and> f < bpf_capsule_fiber_count B s" using assms(2) by simp
    show "fiber_frame f s (snd (step f stack t)) \<and> f < bpf_capsule_fiber_count B (snd (step f stack t))"
      if "fiber_frame f s t \<and> f < bpf_capsule_fiber_count B t" for t
      using that step_frame [OF assms(1), of f t stack "fst (step f stack t)"] fiber_frame_trans
        fiber_frame_count [of f t _ B] by (metis prod.collapse)
  qed
  then show ?thesis ..
qed

end

section \<open>The generated step meets the contract\<close>

text \<open>What stackify guarantees of the body of a region: its stores to control records go to its own
  fiber and never to the generation, and it calls no runtime map operation.\<close>

definition region_keeps :: "build \<Rightarrow> 'w region_code \<Rightarrow> bool" where
  "region_keeps B code \<longleftrightarrow> (\<forall>ctx f stack s a s'. f < bpf_capsule_fiber_count B s \<longrightarrow>
     code ctx f stack s = (a, s') \<longrightarrow> fiber_frame f s s')"

definition program_keeps :: "build \<Rightarrow> 'w region_code program \<Rightarrow> bool" where
  "program_keeps B P \<longleftrightarrow> (\<forall>unit\<in>set (pg_units P). au_states unit \<noteq> [] \<and>
     (\<forall>st\<in>set (au_states unit). region_keeps B (st_root st)))"

lemma select_tree_range: "b < e \<Longrightarrow> b \<le> select_tree key b e k \<and> select_tree key b e k < e"
proof (induction key b e k rule: select_tree.induct)
  case (1 key b e k)
  show ?case
  proof (cases "e - b \<le> 1")
    case True
    then show ?thesis using 1(3) by (simp add: select_tree.simps)
  next
    case False
    then have "b < b + (e - b) div 2" "b + (e - b) div 2 < e" by auto
    then show ?thesis
      using 1(1) [OF False refl] 1(2) [OF False refl]
      by (cases "k < key (b + (e - b) div 2)") (auto simp: select_tree.simps [of key b e])
  qed
qed

lemma unit_select_member:
  assumes "au_states unit \<noteq> []"
  shows "\<exists>st\<in>set (au_states unit). unit_select indirect unit key = st_root st"
proof -
  let ?states = "sort_key (\<lambda>st. DispatchRegionKey indirect (st_id st)) (au_states unit)"
  have "select_tree (state_key indirect ?states) 0 (length ?states) key < length ?states"
    using select_tree_range [of 0 "length ?states"] assms by simp
  then have "?states ! select_tree (state_key indirect ?states) 0 (length ?states) key \<in> set ?states"
    by (rule nth_mem)
  then show ?thesis unfolding unit_select_def Let_def by (metis set_sort)
qed

lemma root_select_member:
  assumes "root_select indirect units key = Some code"
  shows "\<exists>unit\<in>set units. code = unit_select indirect unit key"
proof (cases indirect)
  case True
  then show ?thesis using assms by (auto simp: root_select_def find_Some_iff)
next
  case False
  let ?routes = "sort_key (route_begin indirect) units"
  have "units \<noteq> []" using assms False by (auto simp: root_select_def split: if_splits)
  then have "select_tree (\<lambda>i. route_begin indirect (?routes ! i)) 0 (length ?routes) key < length ?routes"
    using select_tree_range [of 0 "length ?routes"] by simp
  from nth_mem [OF this] show ?thesis
    using assms False by (auto simp: root_select_def Let_def split: if_splits)
qed

lemma region_select_keeps:
  assumes "program_keeps B P" and "region_select P borrowed rid = Some code"
  shows "region_keeps B code"
proof -
  obtain kind root key where "root_select (pg_indirect P) (root_units P kind root) key = Some code"
    using assms(2) by (auto simp: region_select_def Let_def split: if_splits)
  then obtain unit where "unit \<in> set (pg_units P)" "code = unit_select (pg_indirect P) unit key"
    using root_select_member by (fastforce simp: root_units_def)
  then show ?thesis
    using assms(1) unit_select_member [of unit "pg_indirect P" key]
    by (auto simp: program_keeps_def)
qed

lemma PublishExit_frame:
  "f < bpf_capsule_fiber_count B s \<Longrightarrow> fiber_frame f s (PublishExit B f code s)"
  by (simp add: PublishExit_def count_nonzero_index get_control_def store_outcome_def)

lemma step_trip_frame:
  assumes "program_keeps B P" and "f < bpf_capsule_fiber_count B s"
    and "step_trip B P borrowed ctx f stack s = (a, s')"
  shows "fiber_frame f s s'"
proof -
  have dispatch: "fiber_frame f s t" if "dispatch_region B P borrowed ctx f stack rid s = (b, t)" for rid b t
    using that region_select_keeps [OF assms(1)] PublishExit_frame [OF assms(2)] assms(2)
    by (auto simp: dispatch_region_def region_keeps_def split: option.splits if_splits)
  have sweep: "fiber_frame f s (set_resume B f 0 s)"
    by (simp add: set_resume_def count_nonzero_index [OF assms(2)] get_control_def)
  show ?thesis
    using assms(3) dispatch sweep by (auto simp: step_trip_def Let_def split: if_splits)
qed

interpretation trip_step: managed_step B "program_keeps B P" "step_trip B P borrowed ctx"
  for B P borrowed ctx
  by unfold_locales (rule step_trip_frame)

interpretation dispatch_step: managed_step B "program_keeps B P" "trampoline_step B P borrowed ctx"
  for B P borrowed ctx
proof unfold_locales
  fix f :: u32 and s s' :: "'a machine" and stack a
  assume "program_keeps B P" "f < bpf_capsule_fiber_count B s"
    "trampoline_step B P borrowed ctx f stack s = (a, s')"
  then show "fiber_frame f s s'"
    using trip_step.loop_frame [of B P f s "step_trips P" borrowed ctx stack]
      PublishExit_frame [of f B s CAPSULE_ERROR_MEMORY_FAULT]
    by (auto simp: trampoline_step_def split: if_splits)
qed

section \<open>A compiled object\<close>

text \<open>The generated functions of a packed program; the lookup of the stack region stays a parameter.\<close>

definition compiled ::
  "build \<Rightarrow> 'w region_code program \<Rightarrow> (u32 \<Rightarrow> 'w machine \<Rightarrow> u64) \<Rightarrow> (u32 \<Rightarrow> 'w machine \<Rightarrow> u32) \<Rightarrow>
     'w object_code" where
  "compiled B P region offset = \<lparr>oc_step = trampoline_step B P False 0,
     oc_ctx_step = trampoline_step B P True, oc_stack_region = region, oc_stack_offset = offset\<rparr>"

lemma compiled_simps [simp]:
  "oc_step (compiled B P region offset) = trampoline_step B P False 0"
  "oc_ctx_step (compiled B P region offset) = trampoline_step B P True"
  "oc_stack_region (compiled B P region offset) = region"
  "oc_stack_offset (compiled B P region offset) = offset"
  by (simp_all add: compiled_def)

text \<open>The stack base a driver call works with: none on the arena tier.\<close>

definition driver_base :: "build \<Rightarrow> ('w, 'z) object_code_scheme \<Rightarrow> u32 \<Rightarrow> 'w machine \<Rightarrow> u64" where
  "driver_base B C fiber s = (if b_arena B then 0 else fst (bpf_capsule_stack_base B C fiber s))"

lemma trampoline_base:
  assumes "b_arena B \<or> driver_base B C f s \<noteq> 0"
  shows "bpf_capsule_trampoline B C f s = drive_loop drive_steps (oc_step C f (driver_base B C f s)) s"
  using assms
  by (auto simp: trampoline_loop driver_base_def bpf_capsule_stack_base_def Let_def split: if_splits)

lemma trampoline_trips:
  assumes "C = compiled B P region offset" and "b_arena B \<or> driver_base B C f s \<noteq> 0"
  shows "bpf_capsule_trampoline B C f s =
    drive_loop (drive_steps * step_trips P) (step_trip B P False 0 f (driver_base B C f s)) s"
proof -
  have "trampoline_step B P False 0 f (driver_base B C f s) =
      drive_loop (step_trips P) (step_trip B P False 0 f (driver_base B C f s))"
    using assms(2) by (auto simp: trampoline_step_def)
  then show ?thesis
    using trampoline_base [OF assms(2)] assms(1) by (simp add: drive_loop_nested)
qed

lemma drive_steps_value: "drive_steps = 131073"
  by (simp add: drive_steps_def drive_consts)

text \<open>C17: a driver call makes at most 131073 steps of 32 dispatches (of one with instruction-array
  routing). A computation that publishes its completion word or stops with another action after
  \<open>n\<close> dispatches, for any \<open>n\<close> below that budget, is run to that point and stopped there: completion is
  reported with the resume word swept to idle. One that needs more is suspended after exactly the
  budget, with its state as it stands.\<close>

theorem trampoline_budget:
  assumes "C = compiled B P region offset" and "b_arena B \<or> driver_base B C f s \<noteq> 0"
    and "trip = step_trip B P False 0 f (driver_base B C f s)"
    and "\<forall>k<n. fst (trip (after_trips trip k s)) = 0"
  shows "(n < 131073 * step_trips P \<and> fst (trip (after_trips trip n s)) \<noteq> 0 \<longrightarrow>
      bpf_capsule_trampoline B C f s = trip (after_trips trip n s)) \<and>
    (n < 131073 * step_trips P \<and>
      fc_resume_region_id (get_control B (after_trips trip n s) f) = BPF_CAPSULE_REGION_ID_DONE \<longrightarrow>
      bpf_capsule_trampoline B C f s = (1, set_resume B f 0 (after_trips trip n s))) \<and>
    (n = 131073 * step_trips P \<longrightarrow> bpf_capsule_trampoline B C f s = (0, after_trips trip n s))"
proof -
  have run: "bpf_capsule_trampoline B C f s = drive_loop (131073 * step_trips P) trip s"
    using trampoline_trips [OF assms(1,2)] assms(3) by (simp add: drive_steps_value)
  have swept: "trip (after_trips trip n s) = (1, set_resume B f 0 (after_trips trip n s))"
    if "fc_resume_region_id (get_control B (after_trips trip n s) f) = BPF_CAPSULE_REGION_ID_DONE"
    using that unfolding assms(3)
    by (simp add: step_trip_def Let_def step_index_def done_step_key BPF_CAPSULE_REGION_ID_DONE_def
        step_mask mask_eq_exp_minus_1)
  show ?thesis
    using run drive_loop_stops [OF assms(4), of "131073 * step_trips P"] swept
      drive_loop_runs [OF assms(4)] by auto
qed

definition sample_program :: "unit region_code program" where
  "sample_program = packed_program 2 0 3 (sample_units (\<lambda>n ctx fiber stack s.
     (ActionContinue, set_resume (sample_build True) fiber BPF_CAPSULE_REGION_ID_DONE s)))
     sample_packed False"

definition sample_code :: "unit object_code" where
  "sample_code = compiled (sample_build True) sample_program (\<lambda>_ _. 0) (\<lambda>_ _. 0)"

definition resumed_sample :: "unit machine" where
  "resumed_sample = put_control 1 (zero_control\<lparr>fc_generation := 7, fc_resume_region_id := 0x200\<rparr>)
     ((sample_machine True 3)\<lparr>m_issued := [1 \<mapsto> 1]\<rparr>)"

lemma sample_trip:
  assumes "fc_resume_region_id (get_control (sample_build True) s 1) = 0x200"
  shows "step_trip (sample_build True) sample_program False 0 1 stack s =
    (0, set_resume (sample_build True) 1 BPF_CAPSULE_REGION_ID_DONE s)"
  unfolding sample_program_def
  by (subst step_trip_named [OF sample_units_ok sample_pack, where i = 0])
    (use assms in \<open>auto simp: sample_units_def sample_packed_def sample_build_def ActionContinue_def\<close>)

theorem trampoline_budget_witness:
  "fst (bpf_capsule_trampoline (sample_build True) sample_code 1 resumed_sample) = 1"
proof -
  let ?trip = "step_trip (sample_build True) sample_program False 0 1
    (driver_base (sample_build True) sample_code 1 resumed_sample)"
  have trip: "?trip resumed_sample =
      (0, set_resume (sample_build True) 1 BPF_CAPSULE_REGION_ID_DONE resumed_sample)"
    by (rule sample_trip) (simp add: resumed_sample_def get_control_def put_control_def fiber_index_def
        sample_build_def)
  then have "\<forall>k<1. fst (?trip (after_trips ?trip k resumed_sample)) = 0" by simp
  note budget = trampoline_budget [OF sample_code_def _ refl this]
  have "fc_resume_region_id (get_control (sample_build True) (after_trips ?trip 1 resumed_sample) 1) =
      BPF_CAPSULE_REGION_ID_DONE"
    using trip by (simp add: set_resume_def get_control_def put_control_def)
  moreover have "b_arena (sample_build True)" "(1 :: nat) < 131073 * step_trips sample_program"
    by (simp_all add: sample_build_def step_trips_def sample_program_def packed_program_def
        BPF_CAPSULE_STEP_TRIPS_def)
  ultimately show ?thesis using budget by auto
qed

text \<open>driving a leased fiber of a program whose regions keep to their own fiber leaves the pool
  as it was: the same fibers are leased under the same generations, the invariant holds, and no
  other fiber's record changes, whether or not a context is lent.\<close>

lemma trampoline_keeps_pool:
  assumes "program_keeps B P" and "C = compiled B P region offset" and "pool_inv B s"
    and "f \<in> leased B s" and "s' = snd (bpf_capsule_trampoline B C f s) \<or>
      s' = snd (bpf_capsule_trampoline_ctx B C ctx f s)"
  shows "pool_inv B s' \<and> leased B s' = leased B s \<and> current_token s' = current_token s \<and>
    (\<forall>g. g \<noteq> f \<longrightarrow> m_fibers s' g = m_fibers s g)"
proof -
  have lt: "f < bpf_capsule_fiber_count B s" by (rule leased_less_count [OF assms(3,4)])
  have "fiber_frame f s (snd (drive_loop drive_steps (trampoline_step B P borrowed c f stack) s))"
    for borrowed c stack
    by (rule dispatch_step.loop_frame [OF assms(1) lt])
  then have "fiber_frame f s s'"
    using assms(2,5) lt
    by (auto simp: trampoline_loop trampoline_ctx_loop bpf_capsule_stack_base_def Let_def
        count_nonzero_index get_control_def bpf_capsule_stop_def split: prod.splits if_splits)
  note frame = this
  have "current_token s' = current_token s"
  proof
    show "current_token s' g = current_token s g" for g
      using frame by (cases "g = f") (simp_all add: fiber_frame_def current_token_def)
  qed
  then show ?thesis
    using frame fiber_frame_inv [OF frame assms(3,4)] fiber_frame_leased [OF frame, of B]
    by (simp add: fiber_frame_def)
qed

lemma sample_keeps: "program_keeps (sample_build True) sample_program"
proof -
  have "region_keeps (sample_build True) (\<lambda>ctx fiber stack s.
      (ActionContinue, set_resume (sample_build True) fiber BPF_CAPSULE_REGION_ID_DONE s))"
    by (auto simp: region_keeps_def set_resume_def count_nonzero_index get_control_def)
  then show ?thesis
    by (simp add: program_keeps_def sample_program_def packed_program_def sample_units_def
        rewrite_unit_def sort_key_Nil)
qed

lemma resumed_sample_inv:
  "pool_inv (sample_build True) resumed_sample" "leased (sample_build True) resumed_sample = {1}"
  by (auto simp: pool_inv_def leased_def resumed_sample_def put_control_def sample_defs
      bpf_capsule_fiber_count_def quiet_def zero_control_def valid_generation_def take_bit_word_self
      status_defs)

lemma trampoline_keeps_pool_witness:
  "leased (sample_build True)
    (snd (bpf_capsule_trampoline (sample_build True) sample_code 1 resumed_sample)) = {1}"
  using trampoline_keeps_pool [OF sample_keeps sample_code_def resumed_sample_inv(1), of 1]
    resumed_sample_inv(2) by simp

end
