(* ===== verification/Entry_Glue.thy ===== *)
theory Entry_Glue
  imports Trampoline
begin

text \<open>
  The native boundary: the plan check, \<open>capsule_call\<close> (the macro \<open>__bpf_capsule_begin\<close> of
  \<open>bpf_capsule.h\<close> around the call that \<open>lower_capsule_call.cpp\<close> and \<open>RewriteEntryCall\<close> of
  \<open>stackify.cpp\<close> expand), \<open>capsule_continue\<close> and \<open>capsule_reset\<close> of \<open>bpf_capsule.c\<close>. A result is
  the C record; every early return is a branch.
\<close>

text \<open>The compiler-supplied bodies the glue calls besides the driver.\<close>

record 'w entry_code = "'w object_code" +
  ec_copy_return :: "u32 \<Rightarrow> u64 \<Rightarrow> u64 \<Rightarrow> u64 \<Rightarrow> 'w \<Rightarrow> 'w"
  ec_fiber_local_reset :: "u32 \<Rightarrow> 'w \<Rightarrow> 'w"

text \<open>A call site's root: its entry region and return size, the frame pointer of its fabricated frame,
  the stores of linkage and arguments into that frame, and the store of the loaded result to the
  caller's output, which a void root does not have.\<close>

record 'w root =
  rt_entry_region :: u32
  rt_return_size :: u32
  rt_fp :: "u32 \<Rightarrow> 'w machine \<Rightarrow> u64"
  rt_push :: "u32 \<Rightarrow> 'w \<Rightarrow> 'w"
  rt_store_result :: "(u32 \<Rightarrow> 'w \<Rightarrow> 'w) option"

section \<open>The plan check\<close>

definition memory_backend :: "build \<Rightarrow> u32" where
  "memory_backend B = (if b_arena B then BPF_CAPSULE_MEMORY_ARENA else BPF_CAPSULE_MEMORY_FIXED)"

text \<open>The sums are as C computes them: the heap end in 32 bits, the stack end in 64.\<close>

definition config_broken :: "build \<Rightarrow> object_config \<Rightarrow> bool" where
  "config_broken B config =
     (let heap_end = (ucast (cfg_heap_base config + cfg_heap_bytes config) :: u64);
          stack_bytes = ucast (cfg_stack_bytes_per_fiber config) * (ucast (cfg_fiber_count config) :: u64)
      in cfg_fiber_count config = 0 \<or> cfg_fiber_count config > b_max_fibers B \<or>
         cfg_max_fibers config \<noteq> b_max_fibers B \<or> cfg_memory_backend config \<noteq> memory_backend B \<or>
         cfg_stack_bytes_per_fiber config = 0 \<or> heap_end < ucast (cfg_heap_base config) \<or>
         ucast (cfg_stack_base config) < heap_end \<or>
         ucast (cfg_memory_end config) \<noteq> ucast (cfg_stack_base config) + stack_bytes \<or>
         cfg_abi_magic config \<noteq> BPF_CAPSULE_ABI_MAGIC \<or>
         cfg_abi_version config \<noteq> BPF_CAPSULE_ABI_VERSION \<or>
         cfg_memory_view_base config = 0 \<or> cfg_memory_view_base config AND 0xffffffff \<noteq> 0)"

text \<open>An array map lookup succeeds exactly below its size.\<close>

definition bpf_capsule_plan_broken :: "build \<Rightarrow> 'w machine \<Rightarrow> bool" where
  "bpf_capsule_plan_broken B s =
     (if config_broken B (m_config s) then True
      else if b_arena B then False
      else (let last_region = drop_bit BPF_CAPSULE_MEMORY_REGION_SHIFT (cfg_memory_end (m_config s) - 1)
            in if last_region \<ge> cfg_direct_memory_regions (m_config s) \<and>
                  \<not> last_region - cfg_direct_memory_regions (m_config s) < m_heap_entries s
               then True
               else m_host_ready s = 0))"

section \<open>Starting a call\<close>

text \<open>The select chain of \<open>lower_capsule_call.cpp\<close>.\<close>

definition call_status :: "fiber_control \<Rightarrow> u32" where
  "call_status control =
     (if fc_status control = CAPSULE_EXITED then CAPSULE_EXITED
      else if fc_status control = CAPSULE_YIELD then CAPSULE_YIELD
      else if fc_resume_region_id control \<noteq> 0 then CAPSULE_PENDING else CAPSULE_OK)"

text \<open>\<open>RewriteEntryCall\<close> up to the drive: the outcome word is zeroed, linkage and arguments are stored,
  and the machine registers name the root's entry.\<close>

definition enter_root :: "build \<Rightarrow> 'w root \<Rightarrow> u32 \<Rightarrow> 'w machine \<Rightarrow> 'w machine" where
  "enter_root B root fiber s =
     (let i = fiber_index B fiber; control = store_outcome 0 (m_fibers s i); fp = rt_fp root i s
      in put_control i (control\<lparr>fc_return_size := rt_return_size root,
           fc_resume_region_id := rt_entry_region root, fc_sp := fp, fc_fp := fp\<rparr>)
         (s\<lparr>m_world := rt_push root i (m_world s)\<rparr>))"

definition bpf_capsule_call ::
  "build \<Rightarrow> 'w entry_code \<Rightarrow> 'w root \<Rightarrow> u64 option \<Rightarrow> u32 \<Rightarrow> 'w machine \<Rightarrow> u32 \<times> 'w machine" where
  "bpf_capsule_call B C root context fiber s =
     (let s1 = enter_root B root fiber s;
          s2 = snd (case context of None \<Rightarrow> bpf_capsule_trampoline B C (fiber_index B fiber) s1
                    | Some ctx \<Rightarrow> bpf_capsule_trampoline_ctx B C ctx (fiber_index B fiber) s1);
          status = call_status (m_fibers s2 fiber)
      in (status, case rt_store_result root of
                    Some store \<Rightarrow>
                      if status = CAPSULE_OK then s2\<lparr>m_world := store (fiber_index B fiber) (m_world s2)\<rparr> else s2
                  | None \<Rightarrow> s2))"

definition bpf_capsule_finish_exited ::
  "build \<Rightarrow> kernel \<Rightarrow> u32 \<Rightarrow> 'w machine \<Rightarrow> capsule_result \<times> 'w machine" where
  "bpf_capsule_finish_exited B K fiber s =
     (let code = fc_code (get_control B s fiber)
      in case bpf_capsule_fiber_cancel B K fiber s of (rc, s') \<Rightarrow>
           (\<lparr>res_code = (if rc \<noteq> 0 then CAPSULE_ERROR_POOL_CORRUPT else code),
             res_status = CAPSULE_EXITED, res_continuation = BPF_CAPSULE_NO_CONTINUATION\<rparr>, s'))"

definition bpf_capsule_begin ::
  "build \<Rightarrow> kernel \<Rightarrow> 'w entry_code \<Rightarrow> 'w root \<Rightarrow> u64 option \<Rightarrow> 'w machine \<Rightarrow>
     capsule_result \<times> 'w machine" where
  "bpf_capsule_begin B K C root context s =
     (let broken = bpf_capsule_plan_broken B s
      in case (if broken then (BPF_CAPSULE_NO_FIBER, s) else bpf_capsule_fiber_acquire B K s) of
           (fiber, s1) \<Rightarrow>
             if fiber = BPF_CAPSULE_NO_FIBER
             then (\<lparr>res_code = (if broken then CAPSULE_ERROR_BAD_PLAN else CAPSULE_ERROR_POOL_EXHAUSTED),
                    res_status = CAPSULE_EXITED, res_continuation = BPF_CAPSULE_NO_CONTINUATION\<rparr>, s1)
             else case bpf_capsule_call B C root context fiber s1 of (status, s2) \<Rightarrow>
               if status = CAPSULE_OK then
                 (case bpf_capsule_fiber_release B K fiber s2 of (rc, s3) \<Rightarrow>
                    if rc \<noteq> 0
                    then (\<lparr>res_code = CAPSULE_ERROR_POOL_CORRUPT, res_status = CAPSULE_EXITED,
                           res_continuation = BPF_CAPSULE_NO_CONTINUATION\<rparr>, s3)
                    else (\<lparr>res_code = 0, res_status = CAPSULE_OK,
                           res_continuation = BPF_CAPSULE_NO_CONTINUATION\<rparr>, s3))
               else if status = CAPSULE_EXITED then bpf_capsule_finish_exited B K fiber s2
               else (\<lparr>res_code = 0, res_status = status,
                      res_continuation = bpf_capsule_make_continuation B s2 fiber\<rparr>, s2))"

section \<open>Resuming and resetting\<close>

definition failed_result :: "i32 \<Rightarrow> capsule_result" where
  "failed_result code = \<lparr>res_code = code, res_status = CAPSULE_EXITED,
     res_continuation = BPF_CAPSULE_NO_CONTINUATION\<rparr>"

text \<open>The out parameters become the result: \<open>Inl\<close> ends the operation with that record, \<open>Inr\<close> is the
  return value 1 with the record and the fiber as they then stand.\<close>

definition bpf_capsule_prepare_continue ::
  "build \<Rightarrow> kernel \<Rightarrow> u64 \<Rightarrow> 'w machine \<Rightarrow> (capsule_result + capsule_result \<times> u32) \<times> 'w machine" where
  "bpf_capsule_prepare_continue B K continuation s =
     (case bpf_capsule_consume_continuation B K continuation s of (claim, out, s1) \<Rightarrow>
        (case claim of
           CLAIM_MAP_CORRUPT \<Rightarrow> (Inl (failed_result CAPSULE_ERROR_POOL_CORRUPT), s1)
         | CLAIM_INVALID \<Rightarrow> (Inl (failed_result CAPSULE_ERROR_INVALID_CONTINUATION), s1)
         | CLAIM_STALE \<Rightarrow> (Inl (failed_result CAPSULE_ERROR_STALE_CONTINUATION), s1)
         | CLAIM_CONSUMED \<Rightarrow>
             (let fiber = (case out of Some f \<Rightarrow> f | None \<Rightarrow> BPF_CAPSULE_NO_FIBER);
                  control = get_control B s1 fiber;
                  result = \<lparr>res_code = 0, res_status = CAPSULE_EXITED,
                    res_continuation = bpf_capsule_make_continuation B s1 fiber\<rparr>
              in if fc_status control = CAPSULE_EXITED then
                   (case bpf_capsule_finish_exited B K fiber s1 of (r, s2) \<Rightarrow> (Inl r, s2))
                 else if fc_resume_region_id control = 0 then
                   (case bpf_capsule_fiber_cancel B K fiber s1 of (rc, s2) \<Rightarrow>
                      (Inl (failed_result (if rc \<noteq> 0 then CAPSULE_ERROR_POOL_CORRUPT
                                           else CAPSULE_ERROR_NOT_PENDING)), s2))
                 else (Inr (result, fiber),
                       put_control (fiber_index B fiber)
                         (control\<lparr>fc_status := CAPSULE_OK, fc_code := 0\<rparr>) s1))))"

definition bpf_capsule_finish_continue ::
  "build \<Rightarrow> kernel \<Rightarrow> 'w entry_code \<Rightarrow> capsule_result \<Rightarrow> u32 \<Rightarrow> u64 \<Rightarrow> u64 \<Rightarrow> u64 \<Rightarrow> 'w machine \<Rightarrow>
     capsule_result \<times> 'w machine" where
  "bpf_capsule_finish_continue B K C result fiber output output_size output_alignment s =
     (let control = get_control B s fiber
      in if fc_status control = CAPSULE_EXITED then bpf_capsule_finish_exited B K fiber s
         else if fc_status control = CAPSULE_YIELD then
           (result\<lparr>res_status := CAPSULE_YIELD,
             res_continuation := bpf_capsule_make_continuation B s fiber\<rparr>, s)
         else if fc_resume_region_id control \<noteq> 0 then
           (result\<lparr>res_status := CAPSULE_PENDING,
             res_continuation := bpf_capsule_make_continuation B s fiber\<rparr>, s)
         else
           (case (if (ucast (fc_return_size control) :: u64) \<noteq> output_size then
                    (case bpf_capsule_fiber_cancel B K fiber s of (rc, s') \<Rightarrow>
                       (result\<lparr>res_code := (if rc \<noteq> 0 then CAPSULE_ERROR_POOL_CORRUPT
                                            else CAPSULE_ERROR_RETURN_MISMATCH),
                         res_status := CAPSULE_EXITED\<rparr>, s'))
                  else
                    (let s1 = (if output_size \<noteq> 0
                               then s\<lparr>m_world := ec_copy_return C fiber output output_size
                                      output_alignment (m_world s)\<rparr>
                               else s)
                     in case bpf_capsule_fiber_release B K fiber s1 of (rc, s') \<Rightarrow>
                          if rc \<noteq> 0
                          then (result\<lparr>res_code := CAPSULE_ERROR_POOL_CORRUPT,
                                 res_status := CAPSULE_EXITED\<rparr>, s')
                          else (result\<lparr>res_status := CAPSULE_OK\<rparr>, s'))) of
              (result', s') \<Rightarrow>
                (result'\<lparr>res_continuation := BPF_CAPSULE_NO_CONTINUATION\<rparr>,
                 if res_status result' = CAPSULE_EXITED
                 then put_control (fiber_index B fiber)
                        ((get_control B s' fiber)\<lparr>fc_return_size := 0\<rparr>) s'
                 else s')))"

definition bpf_capsule_continue ::
  "build \<Rightarrow> kernel \<Rightarrow> 'w entry_code \<Rightarrow> u64 \<Rightarrow> u64 \<Rightarrow> u64 \<Rightarrow> u64 \<Rightarrow> 'w machine \<Rightarrow>
     capsule_result \<times> 'w machine" where
  "bpf_capsule_continue B K C output output_size output_alignment continuation s =
     (case bpf_capsule_prepare_continue B K continuation s of
        (Inl result, s1) \<Rightarrow> (result, s1)
      | (Inr (result, fiber), s1) \<Rightarrow>
          bpf_capsule_finish_continue B K C result fiber output output_size output_alignment
            (snd (bpf_capsule_trampoline B C fiber s1)))"

definition bpf_capsule_continue_ctx ::
  "build \<Rightarrow> kernel \<Rightarrow> 'w entry_code \<Rightarrow> u64 \<Rightarrow> u64 \<Rightarrow> u64 \<Rightarrow> u64 \<Rightarrow> u64 \<Rightarrow> 'w machine \<Rightarrow>
     capsule_result \<times> 'w machine" where
  "bpf_capsule_continue_ctx B K C context output output_size output_alignment continuation s =
     (case bpf_capsule_prepare_continue B K continuation s of
        (Inl result, s1) \<Rightarrow> (result, s1)
      | (Inr (result, fiber), s1) \<Rightarrow>
          bpf_capsule_finish_continue B K C result fiber output output_size output_alignment
            (snd (bpf_capsule_trampoline_ctx B C context fiber s1)))"

definition bpf_capsule_reset ::
  "build \<Rightarrow> kernel \<Rightarrow> 'w entry_code \<Rightarrow> u64 \<Rightarrow> 'w machine \<Rightarrow> capsule_result \<times> 'w machine" where
  "bpf_capsule_reset B K C continuation s =
     (case bpf_capsule_consume_continuation B K continuation s of (claim, out, s1) \<Rightarrow>
        (case claim of
           CLAIM_MAP_CORRUPT \<Rightarrow> (failed_result CAPSULE_ERROR_POOL_CORRUPT, s1)
         | CLAIM_INVALID \<Rightarrow> (failed_result CAPSULE_ERROR_INVALID_CONTINUATION, s1)
         | CLAIM_STALE \<Rightarrow> (failed_result CAPSULE_ERROR_STALE_CONTINUATION, s1)
         | CLAIM_CONSUMED \<Rightarrow>
             (let fiber = (case out of Some f \<Rightarrow> f | None \<Rightarrow> BPF_CAPSULE_NO_FIBER)
              in if fc_status (get_control B s1 fiber) = CAPSULE_EXITED
                 then bpf_capsule_finish_exited B K fiber s1
                 else (case bpf_capsule_fiber_cancel B K fiber
                              (s1\<lparr>m_world := ec_fiber_local_reset C fiber (m_world s1)\<rparr>) of
                         (rc, s2) \<Rightarrow>
                           (if rc \<noteq> 0 then failed_result CAPSULE_ERROR_POOL_CORRUPT
                            else \<lparr>res_code = 0, res_status = CAPSULE_OK,
                              res_continuation = BPF_CAPSULE_NO_CONTINUATION\<rparr>, s2)))))"

section \<open>Driving through the boundary\<close>

definition code_keeps :: "build \<Rightarrow> ('w, 'z) object_code_scheme \<Rightarrow> bool" where
  "code_keeps B C \<longleftrightarrow>
     (\<forall>f stack s a s'. f < bpf_capsule_fiber_count B s \<longrightarrow> oc_step C f stack s = (a, s') \<longrightarrow>
        fiber_frame f s s') \<and>
     (\<forall>ctx f stack s a s'. f < bpf_capsule_fiber_count B s \<longrightarrow> oc_ctx_step C ctx f stack s = (a, s') \<longrightarrow>
        fiber_frame f s s')"

interpretation object_step: managed_step B "code_keeps B C" "oc_step C" for B C
  by unfold_locales (simp add: code_keeps_def)

interpretation object_ctx_step: managed_step B "code_keeps B C" "oc_ctx_step C ctx" for B C ctx
  by unfold_locales (simp add: code_keeps_def)

lemma compiled_keeps:
  "program_keeps B P \<Longrightarrow> code_keeps B (compiled B P region offset)"
  using dispatch_step.step_frame [of B P] unfolding code_keeps_def by auto

lemma stack_base_frame:
  "f < bpf_capsule_fiber_count B s \<Longrightarrow> bpf_capsule_stack_base B C f s = (stack, s') \<Longrightarrow>
     fiber_frame f s s'"
  by (auto simp: bpf_capsule_stack_base_def Let_def count_nonzero_index get_control_def
      bpf_capsule_stop_def split: if_splits)

lemma drive_frame:
  assumes C: "code_keeps B C" and f: "f < bpf_capsule_fiber_count B s"
  shows "fiber_frame f s (snd (bpf_capsule_trampoline B C f s))"
    and "fiber_frame f s (snd (bpf_capsule_trampoline_ctx B C ctx f s))"
proof -
  note base = stack_base_frame [OF f]
  have f': "f < bpf_capsule_fiber_count B s'" if "fiber_frame f s s'" for s'
    using f fiber_frame_count [OF that] by simp
  show "fiber_frame f s (snd (bpf_capsule_trampoline B C f s))"
    using object_step.loop_frame [OF C] base f' f fiber_frame_trans
    by (fastforce simp: trampoline_loop split: prod.splits if_splits)
  show "fiber_frame f s (snd (bpf_capsule_trampoline_ctx B C ctx f s))"
    using object_ctx_step.loop_frame [OF C] base f' f fiber_frame_trans
    by (fastforce simp: trampoline_ctx_loop split: prod.splits if_splits)
qed

lemma make_continuation_token:
  "f < bpf_capsule_fiber_count B s \<Longrightarrow> bpf_capsule_make_continuation B s f = current_token s f"
  by (auto simp: bpf_capsule_make_continuation_def current_token_def get_control_def count_nonzero_index)

text \<open>What an operation that owns a leased fiber leaves behind, by the status it reports. Only a map that
  refuses to take the fiber back keeps a terminated computation's lease.\<close>

definition settles ::
  "build \<Rightarrow> kernel \<Rightarrow> u32 \<Rightarrow> 'w machine \<Rightarrow> capsule_result \<times> 'w machine \<Rightarrow> bool" where
  "settles B K f s res \<longleftrightarrow> (case res of (r, s') \<Rightarrow>
     pool_inv B s' \<and> bpf_capsule_fiber_count B s' = bpf_capsule_fiber_count B s \<and>
     (\<forall>g. g \<noteq> f \<longrightarrow> m_fibers s' g = m_fibers s g) \<and>
     fc_generation (m_fibers s' f) = fc_generation (m_fibers s f) \<and>
     (if res_status r = CAPSULE_PENDING \<or> res_status r = CAPSULE_YIELD
      then leased B s' = leased B s \<and> res_continuation r = current_token s' f
      else res_continuation r = BPF_CAPSULE_NO_CONTINUATION \<and>
        (res_status r = CAPSULE_OK \<and> leased B s' = leased B s - {f} \<or>
         res_status r = CAPSULE_EXITED \<and> (leased B s' = leased B s - {f} \<or>
           res_code r = CAPSULE_ERROR_POOL_CORRUPT \<and> leased B s' = leased B s \<and>
           \<not> kernel_live (unat (b_max_fibers B)) K))))"

lemma cancelled_generation [simp]:
  "fc_generation (cancelled f rc s) = fc_generation (m_fibers s f)"
  by (simp add: cancelled_def Let_def bpf_capsule_stop_def)

lemma finish_exited_settles:
  assumes "kernel_ok K" and "pool_inv B s" and "f \<in> leased B s"
  shows "settles B K f s (bpf_capsule_finish_exited B K f s)"
proof -
  obtain rc s' where can: "bpf_capsule_fiber_cancel B K f s = (rc, s')"
    by (cases "bpf_capsule_fiber_cancel B K f s")
  note out = cancel_outcome [OF assms can]
  then show ?thesis
    using can frame_count [of s s' B] cancel_live [OF _ assms(2,3), of K]
    by (auto simp: settles_def bpf_capsule_finish_exited_def Let_def pool_frame_def)
qed

lemma release_settles:
  assumes "kernel_ok K" and "pool_inv B s" and "f \<in> leased B s" and "quiet (m_fibers s f)"
    and rel: "bpf_capsule_fiber_release B K f s = (rc, s')"
  shows "settles B K f s (if rc \<noteq> 0
    then (\<lparr>res_code = CAPSULE_ERROR_POOL_CORRUPT, res_status = CAPSULE_EXITED,
           res_continuation = BPF_CAPSULE_NO_CONTINUATION\<rparr>, s')
    else (\<lparr>res_code = c, res_status = CAPSULE_OK, res_continuation = BPF_CAPSULE_NO_CONTINUATION\<rparr>, s'))"
proof (cases "rc = 0")
  case True
  then show ?thesis
    using release_outcome [OF assms(1-3) rel] assms(4) frame_count [of s s' B]
    by (simp add: settles_def pool_frame_def)
next
  case False
  then have s': "s' = put_control f (bpf_capsule_stop (m_fibers s f) CAPSULE_ERROR_POOL_CORRUPT) s"
    using release_outcome [OF assms(1-3) rel] by simp
  have "pool_inv B s'"
    unfolding s' by (rule pool_inv_put_control [OF assms(2)]) (use assms(3) in \<open>simp_all add: bpf_capsule_stop_def\<close>)
  then show ?thesis
    using False s' release_live [OF _ assms(2,3), of K] rel
    by (auto simp: settles_def) (simp_all add: put_control_def bpf_capsule_stop_def)
qed

lemma settles_frame:
  assumes "fiber_frame f s t" and "settles B K f t res"
  shows "settles B K f s res"
  using assms fiber_frame_leased [OF assms(1), of B] fiber_frame_count [OF assms(1), of B]
  unfolding settles_def by (auto simp: fiber_frame_def split: prod.splits)

lemma enter_root_frame:
  "f < bpf_capsule_fiber_count B s \<Longrightarrow> fiber_frame f s (enter_root B root f s)"
  by (simp add: enter_root_def count_nonzero_index fiber_frame_def put_control_def store_outcome_def Let_def)

lemma world_frame_fiber [simp]: "fiber_frame f s (s\<lparr>m_world := w\<rparr>)"
  by (simp add: fiber_frame_def)

lemma call_frame:
  assumes C: "code_keeps B C" and f: "f < bpf_capsule_fiber_count B s"
    and call: "bpf_capsule_call B C root context f s = (status, s')"
  shows "fiber_frame f s s'" and "status = call_status (m_fibers s' f)"
proof -
  let ?e = "enter_root B root f s"
  have e: "fiber_frame f s ?e" by (rule enter_root_frame [OF f])
  have f': "f < bpf_capsule_fiber_count B ?e" using f fiber_frame_count [OF e] by simp
  define t where "t = snd (case context of None \<Rightarrow> bpf_capsule_trampoline B C f ?e
    | Some ctx \<Rightarrow> bpf_capsule_trampoline_ctx B C ctx f ?e)"
  have "fiber_frame f ?e t" using drive_frame [OF C f'] by (auto simp: t_def split: option.split)
  then have t: "fiber_frame f s t" by (rule fiber_frame_trans [OF e])
  have call': "status = call_status (m_fibers t f)" "s' = t \<or> (\<exists>w. s' = t\<lparr>m_world := w\<rparr>)"
    using call by (auto simp: bpf_capsule_call_def Let_def count_nonzero_index [OF f] t_def
        split: option.splits if_splits)
  show "fiber_frame f s s'" using call'(2) t by (auto intro: fiber_frame_trans [OF t])
  show "status = call_status (m_fibers s' f)" using call' by auto
qed

lemma call_status_quiet: "call_status c = CAPSULE_OK \<Longrightarrow> quiet c"
  by (auto simp: call_status_def quiet_def split: if_splits)

text \<open>A started call settles the fiber it leased.\<close>

lemma begin_settles:
  assumes B: "build_ok B" and K: "kernel_ok K" and inv: "pool_inv B s" and C: "code_keeps B C"
    and ok: "\<not> bpf_capsule_plan_broken B s"
    and acq: "bpf_capsule_fiber_acquire B K s = (f, t)" and f: "f \<noteq> BPF_CAPSULE_NO_FIBER"
  shows "acquired B f s t \<and> settles B K f t (bpf_capsule_begin B K C root context s)"
proof -
  have a: "acquired B f s t" using acquire_outcome [OF B K inv acq] f by simp
  then have t: "pool_inv B t" "f \<in> leased B t" by (simp_all add: acquired_def)
  have lt: "f < bpf_capsule_fiber_count B t" by (rule leased_less_count [OF t])
  obtain status u where call: "bpf_capsule_call B C root context f t = (status, u)"
    by (cases "bpf_capsule_call B C root context f t")
  note frame = call_frame [OF C lt call]
  have u: "pool_inv B u" "f \<in> leased B u" "f < bpf_capsule_fiber_count B u"
    using fiber_frame_inv [OF frame(1) t] fiber_frame_leased [OF frame(1), of B]
      fiber_frame_count [OF frame(1), of B] t lt by simp_all
  have "settles B K f u (bpf_capsule_begin B K C root context s)"
  proof (cases "status = CAPSULE_OK")
    case True
    then have "quiet (m_fibers u f)" using frame(2) call_status_quiet by simp
    note rel = release_settles [OF K u(1,2) this]
    show ?thesis
      using rel ok acq f call True
      by (auto simp: bpf_capsule_begin_def split: prod.splits if_splits)
  next
    case False
    show ?thesis
    proof (cases "status = CAPSULE_EXITED")
      case True
      then show ?thesis
        using finish_exited_settles [OF K u(1,2)] ok acq f call
        by (simp add: bpf_capsule_begin_def)
    next
      case exited: False
      then have "status = CAPSULE_YIELD \<or> status = CAPSULE_PENDING"
        using False frame(2) by (auto simp: call_status_def split: if_splits)
      then show ?thesis
        using False exited ok acq f call u make_continuation_token [OF u(3)]
        by (auto simp: bpf_capsule_begin_def settles_def)
    qed
  qed
  then show ?thesis using a settles_frame [OF frame(1)] by blast
qed

section \<open>Continuing settles the token's fiber\<close>

lemma mismatch_settles:
  assumes K: "kernel_ok K" and inv: "pool_inv B s" and f: "f \<in> leased B s"
    and can: "bpf_capsule_fiber_cancel B K f s = (rc, s')"
    and r: "res_status r = CAPSULE_EXITED" "res_continuation r = BPF_CAPSULE_NO_CONTINUATION"
      "rc \<noteq> 0 \<longrightarrow> res_code r = CAPSULE_ERROR_POOL_CORRUPT"
  shows "settles B K f s (r, put_control f ((m_fibers s' f)\<lparr>fc_return_size := 0\<rparr>) s')"
    and "settles B K f s (r, s')"
proof -
  note out = cancel_outcome [OF K inv f can]
  have live: "kernel_live (unat (b_max_fibers B)) K \<Longrightarrow> rc = 0"
    using cancel_live [OF _ inv f] can by force
  have "quiet ((m_fibers s' f)\<lparr>fc_return_size := 0\<rparr>) \<or> f \<in> leased B s'"
    using out(2,3) f by (auto simp: cancelled_def Let_def quiet_def bpf_capsule_clear_fiber_def)
  then have "pool_inv B (put_control f ((m_fibers s' f)\<lparr>fc_return_size := 0\<rparr>) s')"
    by (intro pool_inv_put_control [OF out(1)]) auto
  then show "settles B K f s (r, put_control f ((m_fibers s' f)\<lparr>fc_return_size := 0\<rparr>) s')"
    using out r live frame_count [of s s' B]
    by (auto simp: settles_def pool_frame_def) (auto simp: put_control_def)
  show "settles B K f s (r, s')"
    using out r live frame_count [of s s' B] by (auto simp: settles_def pool_frame_def)
qed

lemma release_world:
  assumes "bpf_capsule_fiber_release B K f (s\<lparr>m_world := w\<rparr>) = (rc, s')"
  shows "settles B K f (s\<lparr>m_world := w\<rparr>) res \<Longrightarrow> settles B K f s res"
  by (rule settles_frame [of f s "s\<lparr>m_world := w\<rparr>"]) simp_all

lemma return_settles:
  assumes K: "kernel_ok K" and inv: "pool_inv B s" and f: "f \<in> leased B s"
    and q: "quiet (m_fibers s f)" and frame: "fiber_frame f s t" and tq: "m_fibers t f = m_fibers s f"
    and rel: "bpf_capsule_fiber_release B K f t = (rc, s')"
    and r: "res_continuation r = BPF_CAPSULE_NO_CONTINUATION"
      "res_status r = (if rc \<noteq> 0 then CAPSULE_EXITED else CAPSULE_OK)"
      "rc \<noteq> 0 \<longrightarrow> res_code r = CAPSULE_ERROR_POOL_CORRUPT"
  shows "settles B K f s (r, if rc \<noteq> 0 then put_control f ((m_fibers s' f)\<lparr>fc_return_size := 0\<rparr>) s' else s')"
proof -
  have t: "pool_inv B t" "f \<in> leased B t" "quiet (m_fibers t f)"
    using fiber_frame_inv [OF frame inv f] fiber_frame_leased [OF frame, of B] f q tq by simp_all
  have base: "settles B K f t (r, s')"
    using release_settles [OF K t rel, of "res_code r"] r by (auto simp: settles_def split: if_splits)
  show ?thesis
  proof (cases "rc = 0")
    case True
    then show ?thesis using settles_frame [OF frame base] by simp
  next
    case False
    have s': "s' = put_control f (bpf_capsule_stop (m_fibers t f) CAPSULE_ERROR_POOL_CORRUPT) t"
      using release_outcome [OF K t(1,2) rel] False by simp
    have "pool_inv B (put_control f ((m_fibers s' f)\<lparr>fc_return_size := 0\<rparr>) s')"
      using base t(2) s' by (intro pool_inv_put_control) (auto simp: settles_def)
    then have "settles B K f t (r, put_control f ((m_fibers s' f)\<lparr>fc_return_size := 0\<rparr>) s')"
      using base by (auto simp: settles_def) (auto simp: put_control_def current_token_def)
    then show ?thesis using False settles_frame [OF frame] by simp
  qed
qed

lemma finish_continue_settles:
  assumes K: "kernel_ok K" and inv: "pool_inv B s" and f: "f \<in> leased B s"
  shows "settles B K f s (bpf_capsule_finish_continue B K C r f output n alignment s)"
proof -
  have lt: "f < bpf_capsule_fiber_count B s" by (rule leased_less_count [OF inv f])
  note idx = count_nonzero_index [OF lt]
  let ?c = "m_fibers s f"
  show ?thesis
  proof (cases "fc_status ?c = CAPSULE_EXITED \<or> fc_status ?c = CAPSULE_YIELD \<or> fc_resume_region_id ?c \<noteq> 0")
    case True
    then show ?thesis
      using finish_exited_settles [OF K inv f] make_continuation_token [OF lt] inv
      by (auto simp: bpf_capsule_finish_continue_def get_control_def idx settles_def Let_def)
  next
    case False
    then have q: "quiet ?c" by (simp add: quiet_def)
    show ?thesis
    proof (cases "(ucast (fc_return_size ?c) :: u64) = n")
      case mismatch: False
      obtain rc s' where can: "bpf_capsule_fiber_cancel B K f s = (rc, s')"
        by (cases "bpf_capsule_fiber_cancel B K f s")
      show ?thesis
        using mismatch_settles(1) [OF K inv f can] False mismatch can
        by (simp add: bpf_capsule_finish_continue_def get_control_def idx)
    next
      case match: True
      define t where "t = (if n \<noteq> 0
        then s\<lparr>m_world := ec_copy_return C f output n alignment (m_world s)\<rparr> else s)"
      obtain rc s' where rel: "bpf_capsule_fiber_release B K f t = (rc, s')"
        by (cases "bpf_capsule_fiber_release B K f t")
      have frame: "fiber_frame f s t" "m_fibers t f = m_fibers s f" by (simp_all add: t_def)
      show ?thesis
        using return_settles [OF K inv f q frame rel] False match rel
        by (auto simp: bpf_capsule_finish_continue_def get_control_def idx t_def Let_def
            split: if_splits)
    qed
  qed
qed

text \<open>What the client of a token observes: the token is refused and nothing of the pool changed, or it
  named a leased fiber, that fiber is settled, and the token is spent.\<close>

definition resumes ::
  "build \<Rightarrow> kernel \<Rightarrow> u64 \<Rightarrow> 'w machine \<Rightarrow> capsule_result \<times> 'w machine \<Rightarrow> bool" where
  "resumes B K c s res \<longleftrightarrow>
     (\<exists>code. fst res = failed_result code \<and>
        code \<in> {CAPSULE_ERROR_INVALID_CONTINUATION, CAPSULE_ERROR_STALE_CONTINUATION,
          CAPSULE_ERROR_POOL_CORRUPT} \<and>
        pool_inv B (snd res) \<and> leased B (snd res) = leased B s \<and> m_fibers (snd res) = m_fibers s) \<or>
     (\<exists>f t. f \<in> leased B s \<and> c = current_token s f \<and> consumed_by B c f s t \<and> pool_inv B t \<and>
        leased B t = leased B s \<and> settles B K f t res)"

lemma settles_trans:
  assumes "m_fibers t = (m_fibers s)(f := d)" and "fc_generation d = fc_generation (m_fibers s f)"
    and "leased B t = leased B s" and "bpf_capsule_fiber_count B t = bpf_capsule_fiber_count B s"
    and "settles B K f t res"
  shows "settles B K f s res"
  using assms unfolding settles_def by (auto split: prod.splits)

lemma prepare_settles:
  assumes K: "kernel_ok K" and inv: "pool_inv B s"
    and prep: "bpf_capsule_prepare_continue B K c s = (Inl r, s')"
  shows "resumes B K c s (r, s')"
proof -
  obtain claim out t where con: "bpf_capsule_consume_continuation B K c s = (claim, out, t)"
    by (cases "bpf_capsule_consume_continuation B K c s")
  note post = consume_outcome [OF K inv, of c, unfolded con consume_post_def prod.case]
  show ?thesis
  proof (cases "claim = CLAIM_CONSUMED")
    case False
    then show ?thesis
      using prep con post unfolding resumes_def
      by (intro disjI1) (auto simp: bpf_capsule_prepare_continue_def split: claim_result.splits)
  next
    case True
    then obtain f where f: "out = Some f" "consumed_by B c f s t" using post by auto
    then have ft: "f \<in> leased B t" "pool_inv B t" "leased B t = leased B s" "f \<in> leased B s"
        "c = current_token s f"
      using post by (auto simp: consumed_by_def)
    note idx = count_nonzero_index [OF leased_less_count [OF ft(2,1)]]
    obtain rc u where can: "bpf_capsule_fiber_cancel B K f t = (rc, u)"
      by (cases "bpf_capsule_fiber_cancel B K f t")
    have "settles B K f t (r, s')"
      using prep con True f(1) finish_exited_settles [OF K ft(2,1)] can
        mismatch_settles(2) [OF K ft(2,1) can]
      by (auto simp: bpf_capsule_prepare_continue_def Let_def failed_result_def get_control_def idx
          split: prod.splits if_splits)
    then show ?thesis unfolding resumes_def using f(2) ft by blast
  qed
qed

lemma prepare_running:
  assumes K: "kernel_ok K" and inv: "pool_inv B s"
    and prep: "bpf_capsule_prepare_continue B K c s = (Inr (r, f), s')"
  obtains t where "f \<in> leased B s" and "c = current_token s f" and "consumed_by B c f s t"
    and "pool_inv B t" and "leased B t = leased B s" and "fiber_frame f t s'"
    and "f < bpf_capsule_fiber_count B s'"
proof -
  obtain claim out t where con: "bpf_capsule_consume_continuation B K c s = (claim, out, t)"
    by (cases "bpf_capsule_consume_continuation B K c s")
  note post = consume_outcome [OF K inv, of c, unfolded con consume_post_def prod.case]
  have claim: "claim = CLAIM_CONSUMED"
    using prep con by (cases claim) (auto simp: bpf_capsule_prepare_continue_def)
  then obtain g where g: "out = Some g" "consumed_by B c g s t" using post by auto
  then have gt: "g \<in> leased B t" "pool_inv B t" "leased B t = leased B s" "g \<in> leased B s"
      "c = current_token s g"
    using post claim by (auto simp: consumed_by_def)
  have lt: "g < bpf_capsule_fiber_count B t" by (rule leased_less_count [OF gt(2,1)])
  have run: "f = g" "s' = put_control g ((m_fibers t g)\<lparr>fc_status := CAPSULE_OK, fc_code := 0\<rparr>) t"
    using prep con claim g(1)
    by (auto simp: bpf_capsule_prepare_continue_def Let_def get_control_def count_nonzero_index [OF lt]
        split: prod.splits if_splits)
  show ?thesis
    using that [of t] g(2) gt run lt by simp
qed

lemma continue_running:
  assumes K: "kernel_ok K" and inv: "pool_inv B s"
    and prep: "bpf_capsule_prepare_continue B K c s = (Inr (r, f), s')"
    and drive: "f < bpf_capsule_fiber_count B s' \<Longrightarrow> fiber_frame f s' u"
  shows "resumes B K c s (bpf_capsule_finish_continue B K C r f output n alignment u)"
proof -
  obtain t where t: "f \<in> leased B s" "c = current_token s f" "consumed_by B c f s t" "pool_inv B t"
    "leased B t = leased B s" "fiber_frame f t s'" "f < bpf_capsule_fiber_count B s'"
    by (rule prepare_running [OF K inv prep])
  have frame: "fiber_frame f t u" by (rule fiber_frame_trans [OF t(6) drive [OF t(7)]])
  have u: "pool_inv B u" "f \<in> leased B u"
    using fiber_frame_inv [OF frame t(4)] fiber_frame_leased [OF frame, of B] t(1,5) by simp_all
  show ?thesis
    unfolding resumes_def
    using settles_frame [OF frame finish_continue_settles [OF K u]] t by blast
qed

lemma continue_resumes:
  assumes K: "kernel_ok K" and inv: "pool_inv B s" and C: "code_keeps B C"
  shows "resumes B K c s (bpf_capsule_continue B K C output n alignment c s)"
    and "resumes B K c s (bpf_capsule_continue_ctx B K C ctx output n alignment c s)"
proof -
  obtain x s' where prep: "bpf_capsule_prepare_continue B K c s = (x, s')"
    by (cases "bpf_capsule_prepare_continue B K c s")
  have "resumes B K c s (bpf_capsule_continue B K C output n alignment c s) \<and>
      resumes B K c s (bpf_capsule_continue_ctx B K C ctx output n alignment c s)"
  proof (cases x)
    case (Inl r)
    then show ?thesis
      using prepare_settles [OF K inv] prep
      by (simp add: bpf_capsule_continue_def bpf_capsule_continue_ctx_def)
  next
    case (Inr p)
    obtain r f where p: "p = (r, f)" by (cases p)
    show ?thesis
      using continue_running [OF K inv, of c r f s'] drive_frame [OF C, of f s'] prep Inr p
      by (simp add: bpf_capsule_continue_def bpf_capsule_continue_ctx_def)
  qed
  then show "resumes B K c s (bpf_capsule_continue B K C output n alignment c s)"
    "resumes B K c s (bpf_capsule_continue_ctx B K C ctx output n alignment c s)" by blast+
qed

lemma reset_resumes:
  assumes K: "kernel_ok K" and inv: "pool_inv B s"
  shows "resumes B K c s (bpf_capsule_reset B K C c s)"
    and "res_status (fst (bpf_capsule_reset B K C c s)) \<in> {CAPSULE_OK, CAPSULE_EXITED}"
proof -
  obtain claim out t where con: "bpf_capsule_consume_continuation B K c s = (claim, out, t)"
    by (cases "bpf_capsule_consume_continuation B K c s")
  note post = consume_outcome [OF K inv, of c, unfolded con consume_post_def prod.case]
  show "resumes B K c s (bpf_capsule_reset B K C c s)"
  proof (cases "claim = CLAIM_CONSUMED")
    case False
    then show ?thesis
      using con post unfolding resumes_def
      by (intro disjI1) (cases claim; auto simp: bpf_capsule_reset_def)
  next
    case True
    then obtain f where f: "out = Some f" "consumed_by B c f s t" using post by auto
    then have ft: "f \<in> leased B t" "pool_inv B t" "leased B t = leased B s" "f \<in> leased B s"
        "c = current_token s f"
      using post by (auto simp: consumed_by_def)
    define w where "w = t\<lparr>m_world := ec_fiber_local_reset C f (m_world t)\<rparr>"
    have w: "fiber_frame f t w" by (simp add: w_def)
    have wf: "pool_inv B w" "f \<in> leased B w"
      using fiber_frame_inv [OF w ft(2,1)] fiber_frame_leased [OF w, of B] ft(1) by simp_all
    obtain rc u where can: "bpf_capsule_fiber_cancel B K f w = (rc, u)"
      by (cases "bpf_capsule_fiber_cancel B K f w")
    have ok: "settles B K f w (\<lparr>res_code = 0, res_status = CAPSULE_OK,
        res_continuation = BPF_CAPSULE_NO_CONTINUATION\<rparr>, u)" if "rc = 0"
      using cancel_outcome [OF K wf can] that frame_count [of w u B]
      by (auto simp: settles_def pool_frame_def)
    have "settles B K f t (bpf_capsule_reset B K C c s)"
    proof (cases "fc_status (get_control B t f) = CAPSULE_EXITED")
      case exited: True
      then show ?thesis
        using finish_exited_settles [OF K ft(2,1)] con True f(1) by (simp add: bpf_capsule_reset_def)
    next
      case exited: False
      then show ?thesis
        using settles_frame [OF w] ok mismatch_settles(2) [OF K wf can] con True f(1) can
        by (auto simp: bpf_capsule_reset_def failed_result_def simp flip: w_def)
    qed
    then show ?thesis unfolding resumes_def using f(2) ft by blast
  qed
  show "res_status (fst (bpf_capsule_reset B K C c s)) \<in> {CAPSULE_OK, CAPSULE_EXITED}"
    by (auto simp: bpf_capsule_reset_def bpf_capsule_finish_exited_def failed_result_def Let_def
        split: prod.splits claim_result.splits)
qed

section \<open>Properties of the boundary\<close>

text \<open>C7: a started call conserves leases. If it reports PENDING or YIELD it has leased exactly one
  fiber that was free, and its continuation is that fiber's current token. Otherwise it reports no
  continuation and the leased set is as before, except that a fiber the pool refused to take back
  stays leased and is reported as POOL_CORRUPT, which preallocated maps exclude. Other fibers are
  untouched and the pool invariant holds throughout.\<close>

theorem begin_conserves_leases:
  assumes "build_ok B" and "kernel_ok K" and "pool_inv B s" and "code_keeps B C"
    and "bpf_capsule_begin B K C root context s = (r, s')"
  shows "pool_inv B s' \<and>
    (if res_status r = CAPSULE_PENDING \<or> res_status r = CAPSULE_YIELD
     then (\<exists>f. f < bpf_capsule_fiber_count B s \<and> f \<notin> leased B s \<and>
       leased B s' = insert f (leased B s) \<and> res_continuation r = current_token s' f \<and>
       (\<forall>g. g \<noteq> f \<longrightarrow> m_fibers s' g = m_fibers s g))
     else res_continuation r = BPF_CAPSULE_NO_CONTINUATION \<and>
       (leased B s' = leased B s \<or>
        res_status r = CAPSULE_EXITED \<and> res_code r = CAPSULE_ERROR_POOL_CORRUPT \<and>
        \<not> kernel_live (unat (b_max_fibers B)) K \<and> (\<exists>f. leased B s' = insert f (leased B s))))"
proof (cases "bpf_capsule_plan_broken B s")
  case True
  then show ?thesis using assms(3,5) by (auto simp: bpf_capsule_begin_def status_defs)
next
  case ok: False
  obtain f t where acq: "bpf_capsule_fiber_acquire B K s = (f, t)"
    by (cases "bpf_capsule_fiber_acquire B K s")
  show ?thesis
  proof (cases "f = BPF_CAPSULE_NO_FIBER")
    case True
    then show ?thesis
      using acquire_outcome [OF assms(1-3) acq] assms(3,5) ok acq
      by (auto simp: bpf_capsule_begin_def)
  next
    case False
    have "acquired B f s t" "settles B K f t (r, s')"
      using begin_settles [OF assms(1-4) ok acq False, of root "context"] assms(5) by auto
    then show ?thesis
      by (auto simp: acquired_def settles_def split: if_splits)
  qed
qed

text \<open>C8: resuming a computation either refuses the token, changing no fiber and no lease, or consumes
  it: the token was the current one of a leased fiber. Then PENDING or YIELD keeps the lease and
  hands out a new token, every other status ends the lease (again except for POOL_CORRUPT), no other
  fiber changes, and in each case the old token is never accepted again. The context variant does
  the same.\<close>

theorem continue_conserves_leases:
  assumes "build_ok B" and "kernel_ok K" and "pool_inv B s" and "code_keeps B C"
    and "bpf_capsule_continue B K C dst n alignment c s = (r, s') \<or>
      bpf_capsule_continue_ctx B K C ctx dst n alignment c s = (r, s')"
  shows "pool_inv B s' \<and>
    ((leased B s' = leased B s \<and> m_fibers s' = m_fibers s \<and> res_status r = CAPSULE_EXITED \<and>
       res_continuation r = BPF_CAPSULE_NO_CONTINUATION) \<or>
     (\<exists>f\<in>leased B s. c = current_token s f \<and> (\<forall>g. g \<noteq> f \<longrightarrow> m_fibers s' g = m_fibers s g) \<and>
       (\<forall>K'. kernel_ok K' \<longrightarrow> fst (bpf_capsule_consume_continuation B K' c s') \<noteq> CLAIM_CONSUMED) \<and>
       (if res_status r = CAPSULE_PENDING \<or> res_status r = CAPSULE_YIELD
        then leased B s' = leased B s \<and> res_continuation r = current_token s' f
        else res_continuation r = BPF_CAPSULE_NO_CONTINUATION \<and>
          (leased B s' = leased B s - {f} \<or>
           res_code r = CAPSULE_ERROR_POOL_CORRUPT \<and> \<not> kernel_live (unat (b_max_fibers B)) K))))"
proof -
  have "resumes B K c s (r, s')"
    using continue_resumes [OF assms(2-4)] assms(5) by metis
  then show ?thesis
  proof (unfold resumes_def, elim disjE exE conjE)
    fix f t assume f: "f \<in> leased B s" "c = current_token s f" "consumed_by B c f s t"
      and t: "pool_inv B t" "leased B t = leased B s" "settles B K f t (r, s')"
    have inv: "pool_inv B s'" using t(3) by (simp add: settles_def)
    have gen: "fc_generation (m_fibers s' f) = next_generation (fc_generation (m_fibers s f))"
      using t(3) consumed_generation [OF f(3)] by (simp add: settles_def)
    have others: "m_fibers s' g = m_fibers s g" if "g \<noteq> f" for g
      using t(3) f(3) that by (auto simp: settles_def consumed_by_def)
    show ?thesis
      using inv f(1,2) others token_stale [OF assms(1,3) f(1,2) inv _ gen] t(2,3)
      by (auto simp: settles_def split: if_splits)
  qed (auto simp: failed_result_def)
qed


section \<open>A sample object\<close>

definition sample_entry :: "unit entry_code" where
  "sample_entry = \<lparr>oc_step = trampoline_step (sample_build True) sample_program False 0,
     oc_ctx_step = trampoline_step (sample_build True) sample_program True,
     oc_stack_region = (\<lambda>_ _. 0), oc_stack_offset = (\<lambda>_ _. 0),
     ec_copy_return = (\<lambda>_ _ _ _ w. w), ec_fiber_local_reset = (\<lambda>_ w. w)\<rparr>"

text \<open>A root whose entry region is one the program does not have: its call ends in a trap.\<close>

definition sample_root :: "unit root" where
  "sample_root = \<lparr>rt_entry_region = 0x1ff02, rt_return_size = 8, rt_fp = (\<lambda>_ _. 0x10ff00),
     rt_push = (\<lambda>_ w. w), rt_store_result = None\<rparr>"

lemma sample_entry_keeps: "code_keeps (sample_build True) sample_entry"
  using dispatch_step.step_frame [OF sample_keeps] by (auto simp: code_keeps_def sample_entry_def)

theorem begin_conserves_leases_witness:
  "leased (sample_build True) (snd (bpf_capsule_begin (sample_build True) (plain_kernel 4 1)
      sample_entry sample_root None (sample_machine True 3))) = {}
    \<or> res_status (fst (bpf_capsule_begin (sample_build True) (plain_kernel 4 1)
      sample_entry sample_root None (sample_machine True 3))) \<in> {CAPSULE_PENDING, CAPSULE_YIELD}"
proof -
  let ?run = "bpf_capsule_begin (sample_build True) (plain_kernel 4 1) sample_entry sample_root None
    (sample_machine True 3)"
  obtain r t where run: "?run = (r, t)" by (cases ?run)
  have live: "kernel_live (unat (b_max_fibers (sample_build True))) (plain_kernel 4 1)"
    by (simp add: sample_build_def)
  show ?thesis
    using begin_conserves_leases [OF sample_build_ok plain_kernel_ok sample_inv(1) sample_entry_keeps run]
      live unfolding run by (auto split: if_splits)
qed

theorem continue_conserves_leases_witness:
  "leased (sample_build True) (snd (bpf_capsule_continue (sample_build True) (plain_kernel 4 1)
      sample_entry 0 0 1 (continuation_value 2 9) resumed_sample)) = {1}"
proof -
  let ?run = "bpf_capsule_continue (sample_build True) (plain_kernel 4 1) sample_entry 0 0 1
    (continuation_value 2 9) resumed_sample"
  obtain r t where run: "?run = (r, t)" by (cases ?run)
  have "current_token resumed_sample 1 = continuation_value 1 7"
    by (simp add: current_token_def resumed_sample_def put_control_def)
  moreover have "continuation_value 2 9 \<noteq> continuation_value 1 7"
    by (simp add: continuation_value_def BPF_CAPSULE_CONTINUATION_FIBER_BITS_def)
  ultimately have "\<not> (\<exists>f\<in>leased (sample_build True) resumed_sample.
      continuation_value 2 9 = current_token resumed_sample f)"
    by (simp add: resumed_sample_inv(2))
  then show ?thesis
    using continue_conserves_leases [OF sample_build_ok plain_kernel_ok resumed_sample_inv(1)
        sample_entry_keeps, where dst = 0 and n = 0 and alignment = 1 and c = "continuation_value 2 9"
        and r = r and s' = t] run resumed_sample_inv(2)
    by fastforce
qed

definition idle_entry :: "unit entry_code" where
  "idle_entry = \<lparr>oc_step = (\<lambda>_ _ s. (1, s)), oc_ctx_step = (\<lambda>_ _ _ s. (1, s)),
     oc_stack_region = (\<lambda>_ _. 0), oc_stack_offset = (\<lambda>_ _. 0),
     ec_copy_return = (\<lambda>_ _ _ _ w. w), ec_fiber_local_reset = (\<lambda>_ w. w)\<rparr>"


section \<open>A plan that passes the check\<close>

lemma u32_mult_add_u64:
  "unat (ucast (a :: u32) + ucast (b :: u32) * ucast (c :: u32) :: u64) = unat a + unat b * unat c"
proof -
  have le: "unat a \<le> 4294967295" "unat b \<le> 4294967295" "unat c \<le> 4294967295"
    using u32_le_max by (simp_all add: word_le_nat_alt)
  have "unat b * unat c \<le> 4294967295 * 4294967295" by (rule mult_le_mono [OF le(2,3)])
  then have small: "unat a + unat b * unat c < 2 ^ 64" using le(1) by simp
  have prod: "unat (ucast b * ucast c :: u64) = unat b * unat c"
    using small unat_mult_lem [of "ucast b :: u64" "ucast c"] by simp
  show ?thesis
    using small unat_add_lem [of "ucast a :: u64" "ucast b * ucast c"] by (simp add: prod)
qed

lemma window_aligned: "(w :: u64) AND 0xffffffff = 0 \<Longrightarrow> unat w mod 2 ^ 32 = 0"
  using unat_mask_mod [of w 32] by (simp add: mask_eq_exp_minus_1)

text \<open>A configuration that passes, read as mathematical integers.\<close>

definition layout_ok :: "build \<Rightarrow> object_config \<Rightarrow> bool" where
  "layout_ok B c \<longleftrightarrow> 1 \<le> cfg_fiber_count c \<and> cfg_fiber_count c \<le> b_max_fibers B \<and>
    unat (cfg_heap_base c) + unat (cfg_heap_bytes c) \<le> unat (cfg_stack_base c) \<and>
    unat (cfg_memory_end c) =
      unat (cfg_stack_base c) + unat (cfg_stack_bytes_per_fiber c) * unat (cfg_fiber_count c) \<and>
    cfg_memory_view_base c \<noteq> 0 \<and> unat (cfg_memory_view_base c) mod 2 ^ 32 = 0"

lemma config_layout:
  assumes "\<not> config_broken B c"
  shows "layout_ok B c"
proof -
  have ok: "\<not> config_broken B c" by (fact assms)
  then have count: "cfg_fiber_count c \<noteq> 0" "cfg_fiber_count c \<le> b_max_fibers B"
    and heap: "\<not> cfg_heap_base c + cfg_heap_bytes c < cfg_heap_base c"
      "unat (cfg_heap_base c + cfg_heap_bytes c) \<le> unat (cfg_stack_base c)"
    and stack: "(ucast (cfg_memory_end c) :: u64) = ucast (cfg_stack_base c) +
      ucast (cfg_stack_bytes_per_fiber c) * ucast (cfg_fiber_count c)"
    and view: "cfg_memory_view_base c \<noteq> 0" "cfg_memory_view_base c AND 0xffffffff = 0"
    by (simp_all add: config_broken_def Let_def word_less_nat_alt word_le_nat_alt not_less)
  have one: "1 \<le> cfg_fiber_count c"
    using count(1) by (simp add: word_le_nat_alt unat_gt_0 Suc_le_eq)
  have "unat (cfg_memory_end c) =
      unat (cfg_stack_base c) + unat (cfg_stack_bytes_per_fiber c) * unat (cfg_fiber_count c)"
    using arg_cong [OF stack, of unat] by (simp add: u32_mult_add_u64)
  then show ?thesis
    using one count heap(2) add_no_wrap [OF heap(1)] view window_aligned [OF view(2)]
    by (simp add: layout_ok_def)
qed

text \<open>every call passes the plan gate first. Either the object's configuration is laid out without
  overlap or overflow, read as mathematical integers: the heap ends at or below the stacks, the
  stacks end at the recorded memory end inside 32 bits, the fiber count is within the compiled
  ceiling, and the window base is a nonzero multiple of 4 GiB. Or the call reports BAD_PLAN, and no
  fiber is leased and nothing of the state changes.\<close>

lemma call_passes_plan_gate:
  "layout_ok B (m_config s) \<and> bpf_capsule_fiber_count B s = cfg_fiber_count (m_config s) \<or>
    bpf_capsule_begin B K C root context s = (failed_result CAPSULE_ERROR_BAD_PLAN, s)"
proof (cases "config_broken B (m_config s)")
  case True
  then show ?thesis by (simp add: bpf_capsule_begin_def failed_result_def bpf_capsule_plan_broken_def)
next
  case False
  then show ?thesis
    using config_layout [OF False] by (simp add: layout_ok_def bpf_capsule_fiber_count_def)
qed

end
