(* ===== verification/Memory_Plan.thy ===== *)
theory Memory_Plan
  imports Entry_Glue
begin

text \<open>
  The layout of an object's 32-bit address domain: the host's planning arithmetic
  (\<open>__bpf_capsule_plan\<close> and \<open>__bpf_capsule_copy_plan\<close> of \<open>bpf_capsule_host.c\<close>) and the compiler's
  default layout (\<open>AlignWithin\<close>, \<open>ConfigureObjectLayout\<close> and the placement of globals in
  \<open>memory.cpp\<close>). The planning arithmetic is in words as the C has it; \<open>plan_spec\<close> is the same plan
  in unbounded arithmetic, and the two are shown equal.
\<close>

record capsule_config =
  req_fiber_count :: u32
  req_heap_bytes :: u64

section \<open>The host's planning arithmetic\<close>

definition bpf_capsule_layout_header_valid :: "object_config \<Rightarrow> bool" where
  "bpf_capsule_layout_header_valid config \<longleftrightarrow>
     cfg_stack_bytes_per_fiber config \<noteq> 0 \<and>
     cfg_stack_bytes_per_fiber config AND (cfg_stack_bytes_per_fiber config - 1) = 0 \<and>
     cfg_stack_bytes_per_fiber config \<le> BPF_CAPSULE_MEMORY_REGION_SIZE \<and>
     cfg_max_fibers config \<noteq> 0 \<and> cfg_max_fibers config \<le> BPF_CAPSULE_MAX_FIBERS_LIMIT \<and>
     cfg_heap_base config \<ge> BPF_CAPSULE_ARENA_PAGE_SIZE \<and> cfg_heap_base config \<le> 0xFFFFFFFF \<and>
     cfg_memory_backend config \<le> BPF_CAPSULE_MEMORY_ARENA \<and>
     (if cfg_memory_backend config = BPF_CAPSULE_MEMORY_ARENA
      then cfg_direct_memory_regions config = 0
      else cfg_direct_memory_regions config > 0 \<and>
        cfg_direct_memory_regions config \<le> BPF_CAPSULE_MAX_DIRECT_MEMORY_REGIONS) \<and>
     cfg_abi_magic config = BPF_CAPSULE_ABI_MAGIC \<and> cfg_abi_version config = BPF_CAPSULE_ABI_VERSION"

text \<open>\<open>sizeof(struct __bpf_capsule_object_config)\<close>, asserted in the ABI header.\<close>

definition config_bytes :: nat where "config_bytes = 56"

text \<open>The layout part of the plan, in 64-bit arithmetic: the stack bank's base and the memory end.\<close>

definition plan_stack :: "object_config \<Rightarrow> capsule_config \<Rightarrow> int + u64 \<times> u64" where
  "plan_stack config requested =
     (let has_arena = cfg_memory_backend config = BPF_CAPSULE_MEMORY_ARENA;
          address_limit = push_bit 32 1;
          heap_base = ucast (cfg_heap_base config);
          stack_bytes_per_fiber = (ucast (cfg_stack_bytes_per_fiber config) :: u64)
      in if req_heap_bytes requested > address_limit - heap_base then Inl EOVERFLOW
         else
           (let heap_end = heap_base + req_heap_bytes requested;
                stack_floor = (if has_arena then 0
                  else ucast (cfg_direct_memory_regions config) * ucast BPF_CAPSULE_MEMORY_REGION_SIZE);
                stack_alignment = (if has_arena
                  then (if stack_bytes_per_fiber > ucast BPF_CAPSULE_ARENA_PAGE_SIZE
                        then stack_bytes_per_fiber else ucast BPF_CAPSULE_ARENA_PAGE_SIZE)
                  else ucast BPF_CAPSULE_MEMORY_REGION_SIZE);
                stack_base = (if heap_end > stack_floor then heap_end else stack_floor)
            in if stack_base > address_limit - (stack_alignment - 1) then Inl EOVERFLOW
               else
                 (let stack_base = (stack_base + stack_alignment - 1) AND NOT (stack_alignment - 1);
                      stack_bytes = stack_bytes_per_fiber * ucast (req_fiber_count requested)
                  in if stack_bytes \<ge> address_limit - stack_base then Inl EOVERFLOW
                     else Inr (stack_base, stack_base + stack_bytes))))"

text \<open>The entry count of the backend map.\<close>

definition plan_entries :: "object_config \<Rightarrow> u64 \<Rightarrow> int + u32" where
  "plan_entries config memory_end =
     (if cfg_memory_backend config \<noteq> BPF_CAPSULE_MEMORY_ARENA then
        (let regions = (ucast (drop_bit BPF_CAPSULE_MEMORY_REGION_SHIFT
               (memory_end + ucast BPF_CAPSULE_MEMORY_REGION_SIZE - 1)) :: u32);
             entries = (if regions > cfg_direct_memory_regions config
                        then regions - cfg_direct_memory_regions config else 0)
         in if entries = 0 then Inl EINVAL else Inr entries)
      else
        (let sparse_pages = drop_bit BPF_CAPSULE_ARENA_PAGE_SHIFT
               (memory_end + ucast BPF_CAPSULE_ARENA_PAGE_SIZE - 1);
             pages = ucast (cfg_arena_image_pages config) + sparse_pages +
               BPF_CAPSULE_ARENA_SLICE_SLACK_PAGES (cfg_stack_bytes_per_fiber config)
         in if pages = 0 \<or> pages > ucast BPF_CAPSULE_MAX_ARENA_PAGES then Inl EOVERFLOW
            else Inr (ucast pages)))"

text \<open>The pointer arguments are \<open>config\<close>, absent when null, and whether \<open>backend_entries\<close> is given.
  The record is finished only after the last check.\<close>

definition bpf_capsule_plan ::
  "object_config option \<Rightarrow> nat \<Rightarrow> capsule_config \<Rightarrow> bool \<Rightarrow> int + object_config \<times> u32" where
  "bpf_capsule_plan config_pointer config_size requested backend_entries =
     (case config_pointer of
        None \<Rightarrow> Inl EINVAL
      | Some config \<Rightarrow>
          if \<not> backend_entries \<or> req_fiber_count requested = 0 then Inl EINVAL
          else if config_size < config_bytes then Inl ENOENT
          else if req_fiber_count requested > cfg_max_fibers config then Inl E2BIG
          else if \<not> bpf_capsule_layout_header_valid config then Inl EINVAL
          else (case plan_stack config requested of
                  Inl e \<Rightarrow> Inl e
                | Inr (stack_base, memory_end) \<Rightarrow>
                    (case plan_entries config memory_end of
                       Inl e \<Rightarrow> Inl e
                     | Inr entries \<Rightarrow>
                         Inr (config\<lparr>cfg_fiber_count := req_fiber_count requested,
                                cfg_heap_bytes := ucast (req_heap_bytes requested),
                                cfg_stack_base := ucast stack_base,
                                cfg_memory_end := ucast memory_end\<rparr>, entries))))"

definition bpf_capsule_copy_plan ::
  "object_config option \<Rightarrow> nat \<Rightarrow> capsule_config \<Rightarrow> bool \<Rightarrow> bool \<Rightarrow> int + object_config \<times> u32" where
  "bpf_capsule_copy_plan config_data config_size requested planned backend_entries =
     (if \<not> planned \<or> \<not> backend_entries then Inl EINVAL
      else if config_data = None \<or> config_size < config_bytes then Inl ENOENT
      else bpf_capsule_plan config_data config_size requested backend_entries)"

section \<open>The plan in unbounded arithmetic\<close>

definition stack_alignment :: "object_config \<Rightarrow> nat" where
  "stack_alignment c = (if cfg_memory_backend c = BPF_CAPSULE_MEMORY_ARENA
     then max (unat (cfg_stack_bytes_per_fiber c)) 4096 else 2 ^ 22)"

definition stack_floor :: "object_config \<Rightarrow> nat" where
  "stack_floor c = (if cfg_memory_backend c = BPF_CAPSULE_MEMORY_ARENA
     then 0 else unat (cfg_direct_memory_regions c) * 2 ^ 22)"

definition slack_pages :: "nat \<Rightarrow> nat" where
  "slack_pages stack_bytes = (if 4096 < stack_bytes then stack_bytes div 4096 - 1 else 0)"

definition spec_entries :: "object_config \<Rightarrow> nat \<Rightarrow> nat" where
  "spec_entries c memory_end = (if cfg_memory_backend c = BPF_CAPSULE_MEMORY_ARENA
     then unat (cfg_arena_image_pages c) + (memory_end + 4095) div 4096 +
       slack_pages (unat (cfg_stack_bytes_per_fiber c))
     else (memory_end + 2 ^ 22 - 1) div 2 ^ 22 - unat (cfg_direct_memory_regions c))"

definition spec_stack_base :: "object_config \<Rightarrow> nat \<Rightarrow> nat" where
  "spec_stack_base c heap_bytes =
     align_to (max (unat (cfg_heap_base c) + heap_bytes) (stack_floor c)) (stack_alignment c)"

definition spec_memory_end :: "object_config \<Rightarrow> nat \<Rightarrow> nat \<Rightarrow> nat" where
  "spec_memory_end c heap_bytes fibers =
     spec_stack_base c heap_bytes + unat (cfg_stack_bytes_per_fiber c) * fibers"

definition plan_spec :: "object_config \<Rightarrow> nat \<Rightarrow> nat \<Rightarrow> (nat \<times> nat \<times> nat) option" where
  "plan_spec c heap_bytes fibers =
     (let memory_end = spec_memory_end c heap_bytes fibers; entries = spec_entries c memory_end
      in if memory_end < 2 ^ 32 \<and>
            (cfg_memory_backend c = BPF_CAPSULE_MEMORY_ARENA \<longrightarrow> entries \<le> 2 ^ 20)
         then Some (spec_stack_base c heap_bytes, memory_end, entries) else None)"

section \<open>The two agree\<close>

lemma unat_mult_u64: "unat (ucast (b :: u32) * ucast (c :: u32) :: u64) = unat b * unat c"
  using u32_mult_add_u64 [of 0 b c] by simp

lemma layout_numbers [simp]:
  "unat (ucast BPF_CAPSULE_MEMORY_REGION_SIZE :: u64) = 4194304"
  "unat (ucast BPF_CAPSULE_ARENA_PAGE_SIZE :: u64) = 4096"
  "unat (ucast BPF_CAPSULE_MAX_ARENA_PAGES :: u64) = 1048576"
  "unat BPF_CAPSULE_MEMORY_REGION_SIZE = 4194304" "unat BPF_CAPSULE_ARENA_PAGE_SIZE = 4096"
  "unat BPF_CAPSULE_MAX_DIRECT_MEMORY_REGIONS = 63" "unat BPF_CAPSULE_MAX_ARENA_PAGES = 1048576"
  by (simp_all add: layout_constants push_bit_eq_mult)

lemma header_facts:
  assumes "bpf_capsule_layout_header_valid c"
  shows "\<exists>k\<le>22. unat (cfg_stack_bytes_per_fiber c) = 2 ^ k"
    and "4096 \<le> unat (cfg_heap_base c)"
    and "cfg_memory_backend c \<noteq> BPF_CAPSULE_MEMORY_ARENA \<Longrightarrow>
      0 < unat (cfg_direct_memory_regions c) \<and> unat (cfg_direct_memory_regions c) \<le> 63"
proof -
  note valid = assms [unfolded bpf_capsule_layout_header_valid_def]
  obtain k where k: "unat (cfg_stack_bytes_per_fiber c) = 2 ^ k"
    using pow2_test [of "cfg_stack_bytes_per_fiber c"] valid by blast
  have "unat (cfg_stack_bytes_per_fiber c) \<le> 4194304"
    using valid by (simp add: word_le_nat_alt)
  then have "(2::nat) ^ k \<le> 2 ^ 22" using k by simp
  then have "k \<le> 22" by (rule power_le_imp_le_exp [rotated]) simp
  then show "\<exists>k\<le>22. unat (cfg_stack_bytes_per_fiber c) = 2 ^ k" using k by blast
  show "4096 \<le> unat (cfg_heap_base c)" using valid by (simp add: word_le_nat_alt)
  show "0 < unat (cfg_direct_memory_regions c) \<and> unat (cfg_direct_memory_regions c) \<le> 63"
    if "cfg_memory_backend c \<noteq> BPF_CAPSULE_MEMORY_ARENA"
    using valid that by (simp add: word_le_nat_alt word_less_nat_alt)
qed

lemma stack_alignment_pow2:
  assumes "bpf_capsule_layout_header_valid c"
  obtains k where "12 \<le> k" and "k \<le> 22" and "stack_alignment c = 2 ^ k"
proof (cases "cfg_memory_backend c = BPF_CAPSULE_MEMORY_ARENA \<and> unat (cfg_stack_bytes_per_fiber c) \<le> 4096")
  case True
  then show thesis using that [of 12] by (simp add: stack_alignment_def max_def)
next
  case False
  obtain k where k: "k \<le> 22" "unat (cfg_stack_bytes_per_fiber c) = 2 ^ k"
    using header_facts(1) [OF assms] by blast
  show thesis
  proof (cases "cfg_memory_backend c = BPF_CAPSULE_MEMORY_ARENA")
    case arena: True
    then have "(2::nat) ^ 12 \<le> 2 ^ k" using False k by simp
    then have "12 \<le> k" by (rule power_le_imp_le_exp [rotated]) simp
    then show thesis using that [of k] k False arena by (simp add: stack_alignment_def max_def)
  next
    case False
    then show thesis using that [of 22] by (simp add: stack_alignment_def)
  qed
qed

lemma stack_alignment_word:
  assumes "bpf_capsule_layout_header_valid c"
  shows "unat (if cfg_memory_backend c = BPF_CAPSULE_MEMORY_ARENA
     then (if (ucast (cfg_stack_bytes_per_fiber c) :: u64) > ucast BPF_CAPSULE_ARENA_PAGE_SIZE
           then ucast (cfg_stack_bytes_per_fiber c) else ucast BPF_CAPSULE_ARENA_PAGE_SIZE)
     else ucast BPF_CAPSULE_MEMORY_REGION_SIZE :: u64) = stack_alignment c"
  by (simp add: stack_alignment_def word_less_nat_alt max_def)

lemma stack_floor_word:
  "unat (if cfg_memory_backend c = BPF_CAPSULE_MEMORY_ARENA then 0
     else ucast (cfg_direct_memory_regions c) * ucast BPF_CAPSULE_MEMORY_REGION_SIZE :: u64) = stack_floor c"
  by (simp add: stack_floor_def unat_mult_u64)

lemma max_word: "unat (if a > b then a else b) = max (unat a) (unat (b :: 'a::len word))"
  by (simp add: word_less_nat_alt max_def)

lemma word_of_unat: "unat w = n \<Longrightarrow> (w :: 'a::len word) = word_of_nat n"
  by auto

lemma align_to_past:
  assumes "0 < a" and "a dvd m" and "m - a < x" and "a \<le> m"
  shows "m \<le> align_to x a"
proof -
  obtain q where q: "align_to x a = a * q" using align_to_dvd [of a x] by (rule dvdE)
  obtain r where r: "m = a * r" using assms(2) by (auto elim: dvdE)
  have "m < align_to x a + a" using align_to_ge [OF assms(1), of x] assms(3,4) by linarith
  then have "a * r < a * (q + 1)" using q r by simp
  then have "r < q + 1" by (simp only: mult_less_cancel1)
  then have "r \<le> q" by simp
  then show ?thesis using q r by simp
qed

text \<open>One step of the plan on numbers: the base \<open>x\<close> before rounding and the two range checks.\<close>

lemma plan_round:
  fixes x a bytes :: u64
  assumes "unat a = 2 ^ k" and "12 \<le> k" and "k \<le> 22" and "unat x \<le> 2 ^ 32"
    and "0 < unat bytes"
  shows "(if x > push_bit 32 1 - (a - 1) then Inl EOVERFLOW
     else (let base = (x + a - 1) AND NOT (a - 1)
           in if bytes \<ge> push_bit 32 1 - base then Inl EOVERFLOW else Inr (base, base + bytes))) =
    (if align_to (unat x) (2 ^ k) + unat bytes < 2 ^ 32
     then Inr (word_of_nat (align_to (unat x) (2 ^ k)),
       word_of_nat (align_to (unat x) (2 ^ k) + unat bytes))
     else Inl EOVERFLOW)"
proof -
  define m where "m = align_to (unat x) (2 ^ k)"
  have kb: "(2::nat) ^ k \<le> 2 ^ 22" and ka: "(2::nat) ^ 12 \<le> 2 ^ k"
    using assms(2,3) by (simp_all only: power_increasing)
  have "a = word_of_nat (2 ^ k)" by (rule word_of_unat) (rule assms(1))
  then have a: "a = 2 ^ k" by simp
  have lim: "unat (push_bit 32 1 :: u64) = 2 ^ 32" by (simp add: push_bit_eq_mult)
  have a1: "unat (a - 1) = 2 ^ k - 1" using assms(1) ka unat_sub [of 1 a]
    by (simp add: word_le_nat_alt)
  have top: "unat (push_bit 32 1 - (a - 1) :: u64) = 2 ^ 32 - (2 ^ k - 1)"
    using lim a1 kb unat_sub [of "a - 1" "push_bit 32 1"] by (simp add: word_le_nat_alt)
  show ?thesis
  proof (cases "x > push_bit 32 1 - (a - 1)")
    case True
    then have "2 ^ 32 - 2 ^ k < unat x" using top kb by (simp add: word_less_nat_alt)
    moreover have "(2::nat) ^ k dvd 2 ^ 32" by (rule le_imp_power_dvd) (use assms(3) in simp)
    ultimately have "2 ^ 32 \<le> align_to (unat x) (2 ^ k)"
      using align_to_past [of "2 ^ k" "2 ^ 32" "unat x"] kb by simp
    then show ?thesis using True by simp
  next
    case False
    then have le: "unat x + 2 ^ k - 1 \<le> 2 ^ 32" using top kb by (simp add: word_less_nat_alt not_less)
    have base: "unat ((x + a - 1) AND NOT (a - 1)) = m"
      unfolding m_def using unat_align_up [OF a, of x] assms(3) le by simp
    have ml: "m \<le> 2 ^ 32" using le align_to_less [of "2 ^ k" "unat x"] unfolding m_def by simp
    have "unat (push_bit 32 1 - ((x + a - 1) AND NOT (a - 1)) :: u64) = 2 ^ 32 - m"
      using base ml lim unat_sub [of "(x + a - 1) AND NOT (a - 1)" "push_bit 32 1"]
      by (simp add: word_le_nat_alt)
    then have iff: "bytes \<ge> push_bit 32 1 - ((x + a - 1) AND NOT (a - 1)) \<longleftrightarrow> \<not> m + unat bytes < 2 ^ 32"
      using ml by (auto simp: word_le_nat_alt)
    have w: "(x + a - 1) AND NOT (a - 1) = word_of_nat m" by (rule word_of_unat) (rule base)
    show ?thesis
      using False iff by (simp add: Let_def w m_def [symmetric])
  qed
qed

lemma plan_stack_eq:
  assumes "bpf_capsule_layout_header_valid c" and "req_fiber_count req \<noteq> 0"
  shows "plan_stack c req =
    (let h = unat (req_heap_bytes req); n = unat (req_fiber_count req)
     in if spec_memory_end c h n < 2 ^ 32
        then Inr (word_of_nat (spec_stack_base c h), word_of_nat (spec_memory_end c h n))
        else Inl EOVERFLOW)"
proof -
  obtain k where k: "12 \<le> k" "k \<le> 22" "stack_alignment c = 2 ^ k"
    using stack_alignment_pow2 [OF assms(1)] by blast
  let ?b = "unat (cfg_heap_base c)" and ?h = "unat (req_heap_bytes req)"
  let ?S = "unat (cfg_stack_bytes_per_fiber c)" and ?n = "unat (req_fiber_count req)"
  let ?hb = "ucast (cfg_heap_base c) :: u64"
  let ?bytes = "ucast (cfg_stack_bytes_per_fiber c) * ucast (req_fiber_count req) :: u64"
  have room: "unat (push_bit 32 1 - ?hb) = 2 ^ 32 - ?b"
    using unat_sub [of ?hb "push_bit 32 1"] u32_less_4G [of "cfg_heap_base c"]
    by (simp add: word_le_nat_alt push_bit_eq_mult)
  obtain j where j: "?S = 2 ^ j" using header_facts(1) [OF assms(1)] by blast
  have bytes: "unat ?bytes = ?S * ?n" "0 < unat ?bytes"
    using assms(2) j by (simp_all add: unat_mult_u64 unat_gt_0)
  show ?thesis
  proof (cases "req_heap_bytes req > push_bit 32 1 - ?hb")
    case True
    then have "2 ^ 32 < ?b + ?h" using room by (simp add: word_less_nat_alt)
    also have "\<dots> \<le> spec_stack_base c ?h"
      unfolding spec_stack_base_def using align_to_ge [of "stack_alignment c" "max (?b + ?h) (stack_floor c)"] k(3)
      by simp
    finally show ?thesis using True by (simp add: plan_stack_def Let_def spec_memory_end_def)
  next
    case False
    define x where "x = (if ?hb + req_heap_bytes req > (if cfg_memory_backend c = BPF_CAPSULE_MEMORY_ARENA
       then 0 else ucast (cfg_direct_memory_regions c) * ucast BPF_CAPSULE_MEMORY_REGION_SIZE)
       then ?hb + req_heap_bytes req else (if cfg_memory_backend c = BPF_CAPSULE_MEMORY_ARENA
       then 0 else ucast (cfg_direct_memory_regions c) * ucast BPF_CAPSULE_MEMORY_REGION_SIZE))"
    define a where "a = (if cfg_memory_backend c = BPF_CAPSULE_MEMORY_ARENA
      then (if (ucast (cfg_stack_bytes_per_fiber c) :: u64) > ucast BPF_CAPSULE_ARENA_PAGE_SIZE
            then ucast (cfg_stack_bytes_per_fiber c) else ucast BPF_CAPSULE_ARENA_PAGE_SIZE)
      else ucast BPF_CAPSULE_MEMORY_REGION_SIZE :: u64)"
    have "?h \<le> 4294967296 - ?b" using False room by (simp add: word_less_nat_alt not_less)
    then have fits: "?b + ?h \<le> 4294967296" using u32_less_4G [of "cfg_heap_base c"] by linarith
    then have "unat (?hb + req_heap_bytes req) = ?b + ?h"
      using unat_add_lem [of ?hb "req_heap_bytes req"] by simp
    then have x: "unat x = max (?b + ?h) (stack_floor c)"
      unfolding x_def by (simp only: max_word stack_floor_word)
    have a: "unat a = 2 ^ k" unfolding a_def k(3) [symmetric] by (rule stack_alignment_word [OF assms(1)])
    have xl: "unat x \<le> 2 ^ 32"
      using fits x header_facts(3) [OF assms(1)] by (auto simp: stack_floor_def)
    show ?thesis
      unfolding plan_stack_def Let_def if_not_P [OF False] a_def [symmetric] x_def [symmetric]
        plan_round [OF a k(1,2) xl bytes(2), unfolded Let_def]
      by (simp add: bytes(1) x k(3) [symmetric] spec_memory_end_def spec_stack_base_def
          del: of_nat_add of_nat_mult)
  qed
qed

lemma slack_word:
  "unat (BPF_CAPSULE_ARENA_SLICE_SLACK_PAGES s) = slack_pages (unat s)"
proof (cases "4096 < unat s")
  case True
  then have "unat (ucast s div ucast BPF_CAPSULE_ARENA_PAGE_SIZE :: u64) = unat s div 4096"
    by (simp add: unat_div)
  moreover have "1 \<le> unat s div 4096" using True by (simp add: Suc_le_eq div_greater_zero_iff)
  ultimately show ?thesis
    using True unat_sub [of 1 "ucast s div ucast BPF_CAPSULE_ARENA_PAGE_SIZE :: u64"]
    by (simp add: BPF_CAPSULE_ARENA_SLICE_SLACK_PAGES_def slack_pages_def word_less_nat_alt word_le_nat_alt)
next
  case False
  then show ?thesis
    by (simp add: BPF_CAPSULE_ARENA_SLICE_SLACK_PAGES_def slack_pages_def word_less_nat_alt)
qed

lemma unat_of_nat_small: "n < 2 ^ LENGTH('a) \<Longrightarrow> unat (word_of_nat n :: 'a::len word) = n"
  by (simp add: unsigned_of_nat take_bit_nat_eq_self)

lemma round_up_shift:
  assumes "m < 2 ^ 32" and "unat (a :: u64) = 2 ^ k" and "k \<le> 22"
  shows "unat (drop_bit k (word_of_nat m + a - 1)) = (m + 2 ^ k - 1) div 2 ^ k"
proof -
  have kb: "(2::nat) ^ k \<le> 2 ^ 22" using assms(3) by (simp only: power_increasing)
  have "unat (word_of_nat m :: u64) = m" using assms(1) by (intro unat_of_nat_small) simp
  moreover have "unat (a - 1) = 2 ^ k - 1" using assms(2) unat_sub [of 1 a] by (simp add: word_le_nat_alt)
  moreover have "m + (2 ^ k - 1) < 2 ^ 64" using assms(1) kb by simp
  ultimately have "unat (word_of_nat m + (a - 1)) = m + 2 ^ k - 1"
    using unat_add_lem [of "word_of_nat m" "a - 1"] by simp
  then show ?thesis by (simp only: unat_drop_bit_div add_diff_eq)
qed

lemma plan_entries_fixed:
  assumes "cfg_memory_backend c \<noteq> BPF_CAPSULE_MEMORY_ARENA" and "m < 2 ^ 32"
  shows "plan_entries c (word_of_nat m) =
    (if spec_entries c m = 0 then Inl EINVAL else Inr (word_of_nat (spec_entries c m)))"
proof -
  define r where "r = (m + 2 ^ 22 - 1) div 2 ^ 22"
  define w where "w = drop_bit BPF_CAPSULE_MEMORY_REGION_SHIFT
    (word_of_nat m + ucast BPF_CAPSULE_MEMORY_REGION_SIZE - 1 :: u64)"
  have w: "unat w = r" unfolding w_def r_def BPF_CAPSULE_MEMORY_REGION_SHIFT_def
    by (rule round_up_shift [OF assms(2)]) simp_all
  have "r \<le> 1024" using assms(2) unfolding r_def by simp
  then have rw: "unat (ucast w :: u32) = r"
    using w by (simp add: unsigned_ucast_eq take_bit_nat_eq_self)
  let ?d = "cfg_direct_memory_regions c"
  have e: "unat (if ucast w > ?d then ucast w - ?d else 0) = r - unat ?d"
    using rw unat_sub [of ?d "ucast w"] by (simp add: word_less_nat_alt word_le_nat_alt)
  have "spec_entries c m = r - unat ?d" using assms(1) by (simp add: spec_entries_def r_def)
  then show ?thesis
    using assms(1) e word_of_unat [OF e] unat_eq_zero [of "if ucast w > ?d then ucast w - ?d else 0"]
    by (simp add: plan_entries_def Let_def w_def [symmetric])
qed

lemma plan_entries_arena:
  assumes "cfg_memory_backend c = BPF_CAPSULE_MEMORY_ARENA" and "0 < m" and "m < 2 ^ 32"
  shows "plan_entries c (word_of_nat m) =
    (if 2 ^ 20 < spec_entries c m then Inl EOVERFLOW else Inr (word_of_nat (spec_entries c m)))"
proof -
  define p where "p = (m + 2 ^ 12 - 1) div 2 ^ 12"
  define w where "w = drop_bit BPF_CAPSULE_ARENA_PAGE_SHIFT
    (word_of_nat m + ucast BPF_CAPSULE_ARENA_PAGE_SIZE - 1 :: u64)"
  have w: "unat w = p" unfolding w_def p_def BPF_CAPSULE_ARENA_PAGE_SHIFT_def
    by (rule round_up_shift [OF assms(3)]) simp_all
  have p: "1 \<le> p" "p \<le> 1048576" using assms(2,3) unfolding p_def
    by (simp_all add: Suc_le_eq div_greater_zero_iff)
  let ?i = "ucast (cfg_arena_image_pages c) :: u64"
  let ?s = "BPF_CAPSULE_ARENA_SLICE_SLACK_PAGES (cfg_stack_bytes_per_fiber c)"
  have "unat ?s \<le> unat (cfg_stack_bytes_per_fiber c)" by (simp add: slack_word slack_pages_def le_diff_conv le_SucI)
  then have s: "unat ?s < 4294967296" by (rule le_less_trans) simp
  have i: "unat ?i < 4294967296" by simp
  have "unat ?i + unat w < 2 ^ 64" using add_less_le_mono [OF i p(2)] w by simp
  then have iw: "unat (?i + w) = unat ?i + p" using w unat_add_lem [of ?i w] by simp
  have "unat (?i + w) + unat ?s < 2 ^ 64"
    using add_strict_mono [OF add_less_le_mono [OF i p(2)] s] iw by simp
  then have iws: "unat (?i + w + ?s) = unat (?i + w) + unat ?s" using unat_add_lem [of "?i + w" ?s] by simp
  then have sum: "unat (?i + w + ?s) = spec_entries c m"
    using assms(1) iw by (simp add: spec_entries_def p_def slack_word)
  have pos: "spec_entries c m \<noteq> 0" using sum p(1) iw iws by linarith
  have cast: "ucast (?i + w + ?s) = (word_of_nat (spec_entries c m) :: u32)"
    unfolding sum [symmetric] by simp
  show ?thesis
    using assms(1) sum pos cast unat_eq_zero [of "?i + w + ?s"]
    by (auto simp: plan_entries_def Let_def w_def [symmetric] word_less_nat_alt)
qed

section \<open>What a plan guarantees\<close>

text \<open>The record a successful plan returns.\<close>

definition planned_record :: "object_config \<Rightarrow> capsule_config \<Rightarrow> nat \<Rightarrow> nat \<Rightarrow> object_config" where
  "planned_record c req stack_base memory_end =
     c\<lparr>cfg_fiber_count := req_fiber_count req, cfg_heap_bytes := ucast (req_heap_bytes req),
       cfg_stack_base := word_of_nat stack_base, cfg_memory_end := word_of_nat memory_end\<rparr>"

lemma fixed_entries_pos:
  assumes "bpf_capsule_layout_header_valid c" and "cfg_memory_backend c \<noteq> BPF_CAPSULE_MEMORY_ARENA"
    and "0 < n"
  shows "0 < spec_entries c (spec_memory_end c h n)"
proof -
  obtain k where S: "unat (cfg_stack_bytes_per_fiber c) = 2 ^ k" using header_facts(1) [OF assms(1)] by blast
  have "unat (cfg_direct_memory_regions c) * 2 ^ 22 \<le> spec_stack_base c h"
    unfolding spec_stack_base_def using assms(2) align_to_ge [of "stack_alignment c"]
    by (simp add: stack_alignment_def stack_floor_def) (meson le_trans max.cobounded2)
  then have "unat (cfg_direct_memory_regions c) * 2 ^ 22 < spec_memory_end c h n"
    unfolding spec_memory_end_def S by (rule le_less_trans) (use assms(3) in simp)
  then have "(unat (cfg_direct_memory_regions c) + 1) * 2 ^ 22 \<le> spec_memory_end c h n + 2 ^ 22 - 1" by simp
  then have "unat (cfg_direct_memory_regions c) + 1 \<le> (spec_memory_end c h n + 2 ^ 22 - 1) div 2 ^ 22"
    by (simp add: less_eq_div_iff_mult_less_eq)
  then show ?thesis using assms(2) by (simp add: spec_entries_def)
qed

lemma plan_eq_spec:
  assumes "bpf_capsule_layout_header_valid c" and "req_fiber_count req \<noteq> 0"
    and "req_fiber_count req \<le> cfg_max_fibers c" and "config_bytes \<le> bytes"
  shows "bpf_capsule_plan (Some c) bytes req True =
    (case plan_spec c (unat (req_heap_bytes req)) (unat (req_fiber_count req)) of
       None \<Rightarrow> Inl EOVERFLOW
     | Some (stack_base, memory_end, entries) \<Rightarrow>
         Inr (planned_record c req stack_base memory_end, word_of_nat entries))"
proof -
  let ?h = "unat (req_heap_bytes req)" and ?n = "unat (req_fiber_count req)"
  let ?m = "spec_memory_end c ?h ?n"
  have n: "0 < ?n" using assms(2) by (simp add: unat_gt_0)
  have plan: "bpf_capsule_plan (Some c) bytes req True =
      (case plan_stack c req of Inl e \<Rightarrow> Inl e | Inr (stack_base, memory_end) \<Rightarrow>
        (case plan_entries c memory_end of Inl e \<Rightarrow> Inl e
         | Inr entries \<Rightarrow> Inr (c\<lparr>cfg_fiber_count := req_fiber_count req,
             cfg_heap_bytes := ucast (req_heap_bytes req), cfg_stack_base := ucast stack_base,
             cfg_memory_end := ucast memory_end\<rparr>, entries)))"
    using assms(1,2,4) assms(3) [THEN not_less [THEN iffD2]] by (simp add: bpf_capsule_plan_def)
  have base: "spec_stack_base c ?h \<le> ?m" by (simp add: spec_memory_end_def)
  show ?thesis
  proof (cases "?m < 2 ^ 32")
    case True
    have cast: "ucast (word_of_nat k :: u64) = (word_of_nat k :: u32)" if "k < 2 ^ 32" for k
      using that by (intro word_of_unat) (simp add: unsigned_ucast_eq take_bit_nat_eq_self unsigned_of_nat)
    have pos: "0 < ?m" using header_facts(1) [OF assms(1)] n by (auto simp: spec_memory_end_def)
    show ?thesis
    proof (cases "cfg_memory_backend c = BPF_CAPSULE_MEMORY_ARENA")
      case arena: True
      show ?thesis
        using True plan_entries_arena [OF arena pos True] le_less_trans [OF base True]
        by (simp add: plan plan_stack_eq [OF assms(1,2)] Let_def plan_spec_def arena cast planned_record_def)
    next
      case fixed: False
      show ?thesis
        using True plan_entries_fixed [OF fixed True] le_less_trans [OF base True]
          fixed_entries_pos [OF assms(1) fixed n]
        by (simp add: plan plan_stack_eq [OF assms(1,2)] Let_def plan_spec_def fixed cast planned_record_def)
    qed
  next
    case False
    then show ?thesis by (simp add: plan plan_stack_eq [OF assms(1,2)] Let_def plan_spec_def)
  qed
qed

text \<open>Everything a successful plan says about its record, in numbers.\<close>

lemma planned_facts:
  assumes "bpf_capsule_plan (Some c) bytes req True = Inr (c', entries)"
  obtains h n where "h = unat (req_heap_bytes req)" and "n = unat (req_fiber_count req)"
    and "bpf_capsule_layout_header_valid c" and "0 < n" and "req_fiber_count req \<le> cfg_max_fibers c"
    and "spec_memory_end c h n < 2 ^ 32"
    and "cfg_memory_backend c = BPF_CAPSULE_MEMORY_ARENA \<Longrightarrow> spec_entries c (spec_memory_end c h n) \<le> 2 ^ 20"
    and "c' = planned_record c req (spec_stack_base c h) (spec_memory_end c h n)"
    and "entries = word_of_nat (spec_entries c (spec_memory_end c h n))"
proof -
  have ok: "bpf_capsule_layout_header_valid c" "req_fiber_count req \<noteq> 0"
    "req_fiber_count req \<le> cfg_max_fibers c" "config_bytes \<le> bytes"
    using assms by (auto simp: bpf_capsule_plan_def not_less split: if_splits)
  show thesis
    using assms that ok by (auto simp: plan_eq_spec [OF ok] plan_spec_def Let_def unat_gt_0 split: if_splits)
qed

lemma planned_entries_small:
  assumes "m < 2 ^ 32"
    and "cfg_memory_backend c = BPF_CAPSULE_MEMORY_ARENA \<longrightarrow> spec_entries c m \<le> 2 ^ 20"
  shows "unat (word_of_nat (spec_entries c m) :: u32) = spec_entries c m"
proof (rule unat_of_nat_small)
  have "(m + 2 ^ 22 - 1) div 2 ^ 22 < 2 ^ 32"
    using assms(1) by simp
  then show "spec_entries c m < 2 ^ LENGTH(32)"
    using assms(2) by (auto simp: spec_entries_def less_imp_diff_less)
qed

lemma dvd_stack_alignment:
  assumes "bpf_capsule_layout_header_valid c"
  shows "unat (cfg_stack_bytes_per_fiber c) dvd stack_alignment c"
proof -
  obtain k where k: "k \<le> 22" "unat (cfg_stack_bytes_per_fiber c) = 2 ^ k"
    using header_facts(1) [OF assms] by blast
  obtain j where j: "12 \<le> j" "stack_alignment c = 2 ^ j" using stack_alignment_pow2 [OF assms] by metis
  have "unat (cfg_stack_bytes_per_fiber c) \<le> stack_alignment c"
    using k power_increasing [OF k(1), of "2::nat"] by (auto simp: stack_alignment_def)
  then have "k \<le> j" using k(2) j(2) by (simp add: power_le_imp_le_exp)
  then show ?thesis using k(2) j(2) by (simp add: le_imp_power_dvd)
qed

lemma ceil_div_bounds:
  fixes m a :: nat
  assumes "0 < a" and "0 < m"
  shows "m \<le> (m + a - 1) div a * a" and "((m + a - 1) div a - 1) * a < m"
  using align_to_ge [OF assms(1), of m] align_to_less [OF assms(1), of m] assms
  by (simp_all add: align_to_def diff_mult_distrib less_diff_conv2)

lemma spec_stack_base_ge:
  assumes "bpf_capsule_layout_header_valid c"
  shows "unat (cfg_heap_base c) + h \<le> spec_stack_base c h" and "stack_floor c \<le> spec_stack_base c h"
    and "unat (cfg_stack_bytes_per_fiber c) dvd spec_stack_base c h"
proof -
  obtain k where k: "stack_alignment c = 2 ^ k" using stack_alignment_pow2 [OF assms] by metis
  have "max (unat (cfg_heap_base c) + h) (stack_floor c) \<le> spec_stack_base c h"
    unfolding spec_stack_base_def by (rule align_to_ge) (simp add: k)
  then show "unat (cfg_heap_base c) + h \<le> spec_stack_base c h" "stack_floor c \<le> spec_stack_base c h"
    by simp_all
  show "unat (cfg_stack_bytes_per_fiber c) dvd spec_stack_base c h"
    unfolding spec_stack_base_def using dvd_trans [OF dvd_stack_alignment [OF assms] align_to_dvd] .
qed

lemma arena_entries_cover:
  assumes "bpf_capsule_layout_header_valid c" and "cfg_memory_backend c = BPF_CAPSULE_MEMORY_ARENA"
    and "0 < m"
  shows "m + (unat (cfg_stack_bytes_per_fiber c) - 4096) \<le>
    (spec_entries c m - unat (cfg_arena_image_pages c)) * 4096"
proof -
  obtain k where k: "unat (cfg_stack_bytes_per_fiber c) = 2 ^ k"
    using header_facts(1) [OF assms(1)] by blast
  have "2 ^ k - 4096 \<le> slack_pages (2 ^ k) * 4096"
  proof (cases "(2::nat) ^ 12 < 2 ^ k")
    case True
    then have "12 \<le> k" using power_less_imp_less_exp [OF _ True] by simp
    then have "(2::nat) ^ k div 4096 * 4096 = 2 ^ k"
      using le_imp_power_dvd [of 12 k "2::nat"] by simp
    then show ?thesis by (simp add: slack_pages_def diff_mult_distrib)
  qed (simp add: slack_pages_def)
  then show ?thesis
    using ceil_div_bounds(1) [of 4096 m] assms(2,3) k by (simp add: spec_entries_def add_mult_distrib)
qed

text \<open>The same as numbers, with the fields a plan leaves alone.\<close>

lemma planned_values:
  assumes "bpf_capsule_plan (Some c) bytes req True = Inr (c', entries)"
  obtains h n b m where "h = unat (req_heap_bytes req)" and "n = unat (req_fiber_count req)"
    and "bpf_capsule_layout_header_valid c" and "0 < n" and "req_fiber_count req \<le> cfg_max_fibers c"
    and "b = spec_stack_base c h" and "m = spec_memory_end c h n" and "m < 2 ^ 32"
    and "m = b + unat (cfg_stack_bytes_per_fiber c) * n" and "0 < m"
    and "unat (cfg_stack_base c') = b" and "unat (cfg_memory_end c') = m" and "unat (cfg_heap_bytes c') = h"
    and "unat entries = spec_entries c m"
    and "cfg_memory_backend c = BPF_CAPSULE_MEMORY_ARENA \<Longrightarrow> spec_entries c m \<le> 2 ^ 20"
    and "c' = c\<lparr>cfg_fiber_count := req_fiber_count req, cfg_heap_bytes := cfg_heap_bytes c',
      cfg_stack_base := cfg_stack_base c', cfg_memory_end := cfg_memory_end c'\<rparr>"
proof -
  obtain h n where hn: "h = unat (req_heap_bytes req)" "n = unat (req_fiber_count req)"
    and ok: "bpf_capsule_layout_header_valid c" "0 < n" "req_fiber_count req \<le> cfg_max_fibers c"
    and fits: "spec_memory_end c h n < 2 ^ 32"
      "cfg_memory_backend c = BPF_CAPSULE_MEMORY_ARENA \<Longrightarrow> spec_entries c (spec_memory_end c h n) \<le> 2 ^ 20"
    and c': "c' = planned_record c req (spec_stack_base c h) (spec_memory_end c h n)"
    and e: "entries = word_of_nat (spec_entries c (spec_memory_end c h n))"
    using planned_facts [OF assms] by metis
  let ?b = "spec_stack_base c h" and ?m = "spec_memory_end c h n"
  have m: "?m = ?b + unat (cfg_stack_bytes_per_fiber c) * n" by (simp add: spec_memory_end_def)
  have S: "0 < unat (cfg_stack_bytes_per_fiber c)" using header_facts(1) [OF ok(1)] by auto
  have bm: "?b \<le> ?m" "0 < ?m" using S ok(2) by (simp_all add: spec_memory_end_def)
  have hb: "h < 2 ^ 32" using spec_stack_base_ge(1) [OF ok(1), of h] bm(1) fits(1) by linarith
  have heap: "unat (ucast (req_heap_bytes req) :: u32) = h"
    using hb hn(1) by (simp add: unsigned_ucast_eq take_bit_nat_eq_self)
  have words: "unat (word_of_nat ?b :: u32) = ?b" "unat (word_of_nat ?m :: u32) = ?m"
    using fits(1) bm(1) by (auto intro!: unat_of_nat_small)
  have ent: "unat entries = spec_entries c ?m"
    unfolding e using planned_entries_small [OF fits(1)] fits(2) by blast
  show thesis
    using that [OF hn ok refl refl fits(1) m bm(2) _ _ _ ent fits(2)]
    by (simp add: c' planned_record_def words heap)
qed


definition sample_object :: object_config where
  "sample_object = \<lparr>cfg_heap_base = 0x5000, cfg_heap_bytes = 0, cfg_stack_base = 0, cfg_memory_end = 0,
     cfg_fiber_count = 0, cfg_stack_bytes_per_fiber = 0x10000, cfg_max_fibers = 4,
     cfg_arena_image_pages = 0, cfg_memory_backend = 0, cfg_direct_memory_regions = 2,
     cfg_abi_magic = BPF_CAPSULE_ABI_MAGIC, cfg_abi_version = BPF_CAPSULE_ABI_VERSION,
     cfg_memory_view_base = 0\<rparr>"

definition sample_request :: capsule_config where
  "sample_request = \<lparr>req_fiber_count = 3, req_heap_bytes = 0x100000\<rparr>"

lemma sample_plan: "bpf_capsule_plan (Some sample_object) 56 sample_request True =
    Inr (sample_object\<lparr>cfg_fiber_count := 3, cfg_heap_bytes := 0x100000, cfg_stack_base := 0x800000,
      cfg_memory_end := 0x830000\<rparr>, 1)"
  by code_simp


text \<open>C19: the planning arithmetic is the plan of the layout in unbounded integers, on every branch: no
  64-bit sum of it wraps for any record and any request. A null argument or an empty pool is refused
  with EINVAL, a short record with ENOENT, a pool above the compiled ceiling with E2BIG, an
  inconsistent record with EINVAL; otherwise the plan exists exactly when the bank ends below 4 GiB
  and, on the arena tier, the pages fit, and EOVERFLOW reports the rest.\<close>

theorem plan_refines_spec:
  "bpf_capsule_plan config_pointer config_size requested backend_entries =
     (case config_pointer of
        None \<Rightarrow> Inl EINVAL
      | Some c \<Rightarrow>
          if \<not> backend_entries then Inl EINVAL
          else if req_fiber_count requested = 0 then Inl EINVAL
          else if config_size < config_bytes then Inl ENOENT
          else if req_fiber_count requested > cfg_max_fibers c then Inl E2BIG
          else if \<not> bpf_capsule_layout_header_valid c then Inl EINVAL
          else (case plan_spec c (unat (req_heap_bytes requested)) (unat (req_fiber_count requested)) of
                  None \<Rightarrow> Inl EOVERFLOW
                | Some (stack_base, memory_end, entries) \<Rightarrow>
                    Inr (planned_record c requested stack_base memory_end, word_of_nat entries)))"
proof (cases config_pointer)
  case None
  then show ?thesis by (simp add: bpf_capsule_plan_def)
next
  case (Some c)
  show ?thesis
  proof (cases "backend_entries \<and> req_fiber_count requested \<noteq> 0 \<and> config_bytes \<le> config_size \<and>
      req_fiber_count requested \<le> cfg_max_fibers c \<and> bpf_capsule_layout_header_valid c")
    case True
    then have "bpf_capsule_layout_header_valid c" "req_fiber_count requested \<noteq> 0"
      "req_fiber_count requested \<le> cfg_max_fibers c" "config_bytes \<le> config_size" "backend_entries"
      by simp_all
    note ok = this
    show ?thesis
      using ok(2,5) ok(1) ok(3) [THEN not_less [THEN iffD2]] ok(4) [THEN not_less [THEN iffD2]]
        plan_eq_spec [OF ok(1-4)] Some by simp
  next
    case False
    then show ?thesis using Some by (auto simp: bpf_capsule_plan_def not_less)
  qed
qed

lemma last_region_backed:
  assumes "cfg_memory_backend c \<noteq> BPF_CAPSULE_MEMORY_ARENA" and "unat e = m" and "0 < m"
    and "unat entries = spec_entries c m" and "cfg_direct_memory_regions c \<le> r"
    and "r = drop_bit BPF_CAPSULE_MEMORY_REGION_SHIFT (e - 1)"
  shows "r - cfg_direct_memory_regions c < entries"
proof -
  have "unat (e - 1) = m - 1" using assms(2,3) unat_sub [of 1 e] by (simp add: word_le_nat_alt)
  then have r: "unat r = (m - 1) div 2 ^ 22"
    using assms(6) by (simp add: BPF_CAPSULE_MEMORY_REGION_SHIFT_def unat_drop_bit_div del: drop_bit_eq_div)
  have "m + 2 ^ 22 - 1 = (m - 1) + 2 ^ 22" using assms(3) by simp
  then have "(m + 2 ^ 22 - 1) div 2 ^ 22 = Suc (unat r)" by (simp only: r div_add_self2) simp
  moreover have "unat (r - cfg_direct_memory_regions c) = unat r - unat (cfg_direct_memory_regions c)"
    by (rule unat_sub) (rule assms(5))
  ultimately show ?thesis
    using assms(1,4,5) by (simp add: word_less_nat_alt word_le_nat_alt spec_entries_def)
qed

text \<open>The object a host has planned passes the object's own plan check.\<close>

lemma planned_object_starts:
  assumes "bpf_capsule_plan (Some c) bytes req True = Inr (c', entries)"
    and "cfg_max_fibers c = b_max_fibers B" and "cfg_memory_backend c = memory_backend B"
    and "window \<noteq> 0" and "window AND 0xffffffff = 0"
    and "m_config s = c'\<lparr>cfg_memory_view_base := window\<rparr>"
    and "b_arena B \<or> m_heap_entries s = entries \<and> m_host_ready s \<noteq> 0"
  shows "\<not> bpf_capsule_plan_broken B s"
proof -
  obtain h n b m where hn: "h = unat (req_heap_bytes req)" "n = unat (req_fiber_count req)"
    and ok: "bpf_capsule_layout_header_valid c" "0 < n" "req_fiber_count req \<le> cfg_max_fibers c"
    and b: "b = spec_stack_base c h" and m: "m = spec_memory_end c h n" "m < 2 ^ 32"
      "m = b + unat (cfg_stack_bytes_per_fiber c) * n" "0 < m"
    and fields: "unat (cfg_stack_base c') = b" "unat (cfg_memory_end c') = m" "unat (cfg_heap_bytes c') = h"
    and ent: "unat entries = spec_entries c m"
    and c': "c' = c\<lparr>cfg_fiber_count := req_fiber_count req, cfg_heap_bytes := cfg_heap_bytes c',
      cfg_stack_base := cfg_stack_base c', cfg_memory_end := cfg_memory_end c'\<rparr>"
    using planned_values [OF assms(1)] by metis
  have same: "cfg_heap_base c' = cfg_heap_base c" "cfg_max_fibers c' = cfg_max_fibers c"
    "cfg_stack_bytes_per_fiber c' = cfg_stack_bytes_per_fiber c" "cfg_fiber_count c' = req_fiber_count req"
    "cfg_memory_backend c' = cfg_memory_backend c" "cfg_abi_magic c' = cfg_abi_magic c"
    "cfg_abi_version c' = cfg_abi_version c" "cfg_direct_memory_regions c' = cfg_direct_memory_regions c"
    by (subst c', simp)+
  have hb: "unat (cfg_heap_base c) + h \<le> b" using spec_stack_base_ge(1) [OF ok(1)] b by simp
  then have heap: "unat (cfg_heap_base c + cfg_heap_bytes c') = unat (cfg_heap_base c) + h"
    using m unat_add_lem [of "cfg_heap_base c" "cfg_heap_bytes c'"] fields(3) by simp
  have endw: "unat (ucast (cfg_stack_base c') +
      ucast (cfg_stack_bytes_per_fiber c) * ucast (req_fiber_count req) :: u64) = m"
    using u32_mult_add_u64 [of "cfg_stack_base c'" "cfg_stack_bytes_per_fiber c" "req_fiber_count req"]
      fields(1) m(3) hn(2) by simp
  have endeq: "(ucast (cfg_memory_end c') :: u64) = ucast (cfg_stack_base c') +
      ucast (cfg_stack_bytes_per_fiber c) * ucast (req_fiber_count req)"
    by (rule word_unat_eq_iff [THEN iffD2]) (simp add: endw fields(2))
  have valid: "cfg_stack_bytes_per_fiber c \<noteq> 0" "cfg_abi_magic c = BPF_CAPSULE_ABI_MAGIC"
    "cfg_abi_version c = BPF_CAPSULE_ABI_VERSION"
    using ok(1) by (simp_all add: bpf_capsule_layout_header_valid_def)
  have "\<not> config_broken B (m_config s)"
    using assms(2-6) ok(2,3) hn(2) valid hb heap fields endeq same
    by (simp add: config_broken_def Let_def word_less_nat_alt word_le_nat_alt unat_gt_0)
  moreover have "cfg_memory_backend c \<noteq> BPF_CAPSULE_MEMORY_ARENA" if "\<not> b_arena B"
    using assms(3) that by (simp add: memory_backend_def layout_constants)
  ultimately show ?thesis
    using assms(6,7) same last_region_backed [OF _ fields(2) m(4) ent _ refl]
    by (auto simp: bpf_capsule_plan_broken_def Let_def)
qed

end
