(* ===== verification/Heap_Access.thy ===== *)
theory Heap_Access
  imports Memory_Plan Byte_Memory
begin

text \<open>
  Managed memory on the fixed tier, where the address domain is cut into 4 MiB regions held by
  separate maps: the accessors \<open>memory.cpp\<close> generates (\<open>CreateHeapAccessor\<close> with its ARRAY overflow
  path, \<open>CreateHeapAtomicAccessor\<close>, \<open>SoftwareStackAccessor\<close>) and the lowering of the stack-backing
  intrinsics (\<open>ResolveFixedStackBacking\<close>). The accessors are shown to be loads, stores and atomic
  updates of one flat byte memory, and the backing of a fiber to be its own slice of it.
\<close>

section \<open>The generated accessors\<close>

text \<open>The direct region globals and the elements of the ARRAY map.\<close>

record heap_maps =
  hm_regions :: "bytes list"
  hm_array :: "bytes list"

datatype heap_place = Region nat | Element nat

definition MaxHeapRegions :: u32 where "MaxHeapRegions = 1024"

definition heap_low :: "nat \<Rightarrow> u64 \<Rightarrow> nat" where
  "heap_low bits offset = unat (offset AND (push_bit BPF_CAPSULE_MEMORY_REGION_SHIFT 1 - word_of_nat (bits div 8)))"

definition heap_index :: "u64 \<Rightarrow> u32" where
  "heap_index offset = drop_bit BPF_CAPSULE_MEMORY_REGION_SHIFT (ucast offset)"

text \<open>An ARRAY map lookup returns an element exactly below the map's size.\<close>

definition CreateHeapArrayLookup :: "heap_maps \<Rightarrow> u32 \<Rightarrow> heap_place option" where
  "CreateHeapArrayLookup hm index = (if unat index < length (hm_array hm) then Some (Element (unat index)) else None)"

definition heap_array_route :: "heap_maps \<Rightarrow> u64 \<Rightarrow> heap_place option" where
  "heap_array_route hm offset =
     (let index = heap_index offset; direct = word_of_nat (length (hm_regions hm))
      in if index \<ge> direct \<and> index < MaxHeapRegions then CreateHeapArrayLookup hm (index - direct) else None)"

definition heap_route :: "heap_maps \<Rightarrow> u64 \<Rightarrow> heap_place option" where
  "heap_route hm offset =
     (let index = heap_index offset
      in if index = 0 then Some (Region 0)
         else if unat index < length (hm_regions hm) then Some (Region (unat index))
         else heap_array_route hm offset)"

primrec place_bytes :: "heap_maps \<Rightarrow> heap_place \<Rightarrow> bytes" where
  "place_bytes hm (Region i) = hm_regions hm ! i"
| "place_bytes hm (Element i) = hm_array hm ! i"

primrec put_place :: "heap_maps \<Rightarrow> heap_place \<Rightarrow> bytes \<Rightarrow> heap_maps" where
  "put_place hm (Region i) b = hm\<lparr>hm_regions := (hm_regions hm)[i := b]\<rparr>"
| "put_place hm (Element i) b = hm\<lparr>hm_array := (hm_array hm)[i := b]\<rparr>"

definition heap_load :: "heap_maps \<Rightarrow> nat \<Rightarrow> u64 \<Rightarrow> u64" where
  "heap_load hm bits offset =
     (case heap_route hm offset of
        None \<Rightarrow> 0
      | Some p \<Rightarrow> load_le (place_bytes hm p) (heap_low bits offset) (bits div 8))"

definition heap_store :: "heap_maps \<Rightarrow> nat \<Rightarrow> u64 \<Rightarrow> u64 \<Rightarrow> heap_maps" where
  "heap_store hm bits offset v =
     (case heap_route hm offset of
        None \<Rightarrow> hm
      | Some p \<Rightarrow> put_place hm p (store_le (place_bytes hm p) (heap_low bits offset) (bits div 8) v))"

datatype HeapAtomicKind = Add | And | Or | Xor | Exchange | CompareExchange

text \<open>The word an atomic leaves, from the old word and its operands truncated to the width.\<close>

definition native_atomic :: "HeapAtomicKind \<Rightarrow> nat \<Rightarrow> u64 \<Rightarrow> u64 \<Rightarrow> u64 \<Rightarrow> u64" where
  "native_atomic kind bits old operand replacement =
     (case kind of
        Add \<Rightarrow> take_bit bits (old + operand)
      | And \<Rightarrow> old AND take_bit bits operand
      | Or \<Rightarrow> old OR take_bit bits operand
      | Xor \<Rightarrow> old XOR take_bit bits operand
      | Exchange \<Rightarrow> take_bit bits operand
      | CompareExchange \<Rightarrow> (if old = take_bit bits operand then take_bit bits replacement else old))"

definition heap_atomic ::
  "heap_maps \<Rightarrow> HeapAtomicKind \<Rightarrow> nat \<Rightarrow> u64 \<Rightarrow> u64 \<Rightarrow> u64 \<Rightarrow> u64 \<times> heap_maps" where
  "heap_atomic hm kind bits offset operand replacement =
     (case heap_route hm offset of
        None \<Rightarrow> (0, hm)
      | Some p \<Rightarrow>
          (let old = load_le (place_bytes hm p) (heap_low bits offset) (bits div 8)
           in (old, put_place hm p (store_le (place_bytes hm p) (heap_low bits offset) (bits div 8)
                (native_atomic kind bits old operand replacement)))))"

section \<open>One flat memory\<close>

definition heap_regions :: "heap_maps \<Rightarrow> bytes list" where
  "heap_regions hm = hm_regions hm @ hm_array hm"

definition heap_flat :: "heap_maps \<Rightarrow> bytes" where
  "heap_flat hm a = (if a div 2 ^ 22 < length (heap_regions hm)
     then (heap_regions hm ! (a div 2 ^ 22)) (a mod 2 ^ 22) else 0)"

text \<open>The fixed tier has a direct region, and its regions cover at most the 32-bit domain.\<close>

definition heap_maps_ok :: "heap_maps \<Rightarrow> bool" where
  "heap_maps_ok hm \<longleftrightarrow> hm_regions hm \<noteq> [] \<and> length (heap_regions hm) \<le> 1024"

text \<open>The address an accessor of width \<open>2 ^ j\<close> acts on: the low word, rounded down to its alignment.\<close>

definition access_address :: "nat \<Rightarrow> u64 \<Rightarrow> nat" where
  "access_address j offset = unat offset mod 2 ^ 32 div 2 ^ j * 2 ^ j"

lemma width_cases: "j \<le> 3 \<Longrightarrow> j = 0 \<or> j = 1 \<or> j = 2 \<or> j = (3::nat)"
  by auto

lemma width_mask:
  assumes "j \<le> 3"
  shows "(push_bit 22 1 - word_of_nat (8 * 2 ^ j div 8) :: u64) = mask 22 AND NOT (mask j)"
  using width_cases [OF assms] by (elim disjE) (simp_all add: push_bit_eq_mult mask_eq_exp_minus_1)

lemma heap_low_eq:
  assumes "j \<le> 3"
  shows "heap_low (8 * 2 ^ j) offset = unat offset mod 2 ^ 22 div 2 ^ j * 2 ^ j"
  unfolding heap_low_def BPF_CAPSULE_MEMORY_REGION_SHIFT_def width_mask [OF assms]
  by (simp only: and.assoc [symmetric] unat_and_not_mask unat_mask_mod)

lemma heap_index_eq: "unat (heap_index offset) = unat offset mod 2 ^ 32 div 2 ^ 22"
proof -
  have "unat (ucast offset :: u32) = unat offset mod 2 ^ 32"
    by (simp add: unsigned_ucast_eq take_bit_eq_mod)
  then show ?thesis
    unfolding heap_index_def BPF_CAPSULE_MEMORY_REGION_SHIFT_def by (simp only: unat_drop_bit_div)
qed

lemma heap_low_fits:
  assumes "j \<le> 3"
  shows "heap_low (8 * 2 ^ j) offset + 2 ^ j \<le> 2 ^ 22"
proof -
  have split: "(2::nat) ^ 22 = 2 ^ (22 - j) * 2 ^ j" using assms by (simp flip: power_add)
  have "unat offset mod 2 ^ 22 < 2 ^ 22" by simp
  then have "unat offset mod 2 ^ 22 < 2 ^ (22 - j) * 2 ^ j" by (simp only: split)
  then have "unat offset mod 2 ^ 22 div 2 ^ j < 2 ^ (22 - j)" by (rule less_mult_imp_div_less)
  then have "(unat offset mod 2 ^ 22 div 2 ^ j + 1) * 2 ^ j \<le> 2 ^ (22 - j) * 2 ^ j"
    by (intro mult_le_mono1) simp
  then show ?thesis unfolding heap_low_eq [OF assms] split by simp
qed

lemma access_address_eq:
  assumes "j \<le> 3"
  shows "access_address j offset = unat (heap_index offset) * 2 ^ 22 + heap_low (8 * 2 ^ j) offset"
proof -
  have split: "(2::nat) ^ 22 = 2 ^ j * 2 ^ (22 - j)" using assms by (simp flip: power_add)
  define A where "A = unat offset mod 2 ^ 32"
  have low: "unat offset mod 2 ^ 22 = A mod 2 ^ 22"
    unfolding A_def by (rule mod_mod_cancel [symmetric]) (rule le_imp_power_dvd, simp)
  have "A = 2 ^ 22 * (A div 2 ^ 22) + A mod 2 ^ 22" by simp
  then have "A = 2 ^ j * (2 ^ (22 - j) * (A div 2 ^ 22)) + A mod 2 ^ 22"
    by (simp only: split mult.assoc)
  then have "A div 2 ^ j = 2 ^ (22 - j) * (A div 2 ^ 22) + A mod 2 ^ 22 div 2 ^ j"
    by (metis div_mult_self4 power_not_zero zero_neq_numeral add.commute)
  then have "A div 2 ^ j * 2 ^ j = A div 2 ^ 22 * (2 ^ j * 2 ^ (22 - j)) + A mod 2 ^ 22 div 2 ^ j * 2 ^ j"
    by (simp add: algebra_simps)
  then show ?thesis
    unfolding access_address_def heap_low_eq [OF assms] heap_index_eq low A_def [symmetric]
    by (simp only: split)
qed

lemma access_address_split:
  assumes "j \<le> 3" and "i < 2 ^ j"
  shows "(access_address j offset + i) div 2 ^ 22 = unat (heap_index offset)"
    and "(access_address j offset + i) mod 2 ^ 22 = heap_low (8 * 2 ^ j) offset + i"
proof -
  have lt: "heap_low (8 * 2 ^ j) offset + i < 2 ^ 22" using heap_low_fits [OF assms(1), of offset] assms(2) by linarith
  have sum: "access_address j offset + i = unat (heap_index offset) * 2 ^ 22 + (heap_low (8 * 2 ^ j) offset + i)"
    using access_address_eq [OF assms(1), of offset] by simp
  show "(access_address j offset + i) div 2 ^ 22 = unat (heap_index offset)"
    unfolding sum using lt by (simp only: div_mult_self3 div_less)
  show "(access_address j offset + i) mod 2 ^ 22 = heap_low (8 * 2 ^ j) offset + i"
    unfolding sum using lt by (simp only: mod_mult_self3 mod_less)
qed

lemma heap_route_eq:
  assumes "heap_maps_ok hm"
  shows "heap_route hm offset =
    (let r = unat (heap_index offset)
     in if r < length (hm_regions hm) then Some (Region r)
        else if r < length (heap_regions hm) then Some (Element (r - length (hm_regions hm))) else None)"
proof -
  let ?i = "heap_index offset" and ?d = "length (hm_regions hm)"
  have ok: "0 < ?d" "?d \<le> 1024" "length (heap_regions hm) \<le> 1024"
    using assms by (auto simp: heap_maps_ok_def heap_regions_def)
  have d: "unat (word_of_nat ?d :: u32) = ?d" using ok(2) by (intro unat_of_nat_small) simp
  have sub: "unat (?i - word_of_nat ?d) = unat ?i - ?d" if "?d \<le> unat ?i"
    using that d unat_sub [of "word_of_nat ?d" ?i] by (simp add: word_le_nat_alt)
  have "unat ?i < 1024" unfolding heap_index_eq by (rule less_mult_imp_div_less) simp
  then have top: "?i < MaxHeapRegions" by (simp add: MaxHeapRegions_def word_less_nat_alt)
  have "unat ?i = 0 \<longleftrightarrow> ?i = 0" by (rule unat_eq_zero)
  then show ?thesis
    using ok(1) sub top d
    by (auto simp: heap_route_def heap_array_route_def CreateHeapArrayLookup_def Let_def heap_regions_def
        word_le_nat_alt not_less)
qed

lemma place_regions:
  assumes "heap_route hm offset = Some p" and "heap_maps_ok hm"
  shows "unat (heap_index offset) < length (heap_regions hm)"
    and "place_bytes hm p = heap_regions hm ! unat (heap_index offset)"
    and "heap_regions (put_place hm p b) = (heap_regions hm)[unat (heap_index offset) := b]"
    and "length (hm_regions (put_place hm p b)) = length (hm_regions hm)"
  using assms by (auto simp: heap_route_eq Let_def heap_regions_def nth_append list_update_append
      split: if_splits)

lemma heap_flat_load:
  assumes "j \<le> 3" and "unat (heap_index offset) < length (heap_regions hm)"
  shows "load_le (heap_regions hm ! unat (heap_index offset)) (heap_low (8 * 2 ^ j) offset) (2 ^ j) =
    load_le (heap_flat hm) (access_address j offset) (2 ^ j)"
  by (rule load_le_cong)
    (simp only: heap_flat_def access_address_split [OF assms(1)] assms(2) if_True)

lemma heap_flat_store:
  assumes "j \<le> 3" and "unat (heap_index offset) < length (heap_regions hm)"
    and "heap_regions hm' = (heap_regions hm)[unat (heap_index offset) :=
      store_le (heap_regions hm ! unat (heap_index offset)) (heap_low (8 * 2 ^ j) offset) (2 ^ j) v]"
  shows "heap_flat hm' = store_le (heap_flat hm) (access_address j offset) (2 ^ j) v"
proof
  fix x
  let ?r = "unat (heap_index offset)" and ?l = "heap_low (8 * 2 ^ j) offset" and ?a = "access_address j offset"
  show "heap_flat hm' x = store_le (heap_flat hm) ?a (2 ^ j) v x"
  proof (cases "?a \<le> x \<and> x < ?a + 2 ^ j")
    case True
    then obtain i where i: "x = ?a + i" "i < 2 ^ j" by (metis le_Suc_ex nat_add_left_cancel_less)
    show ?thesis
      using assms(2,3) i access_address_split [OF assms(1) i(2), of offset]
      by (simp add: heap_flat_def store_le_def)
  next
    case False
    have "x div 2 ^ 22 \<noteq> ?r \<or> \<not> (?l \<le> x mod 2 ^ 22 \<and> x mod 2 ^ 22 < ?l + 2 ^ j)"
    proof (rule ccontr)
      assume in_range: "\<not> ?thesis"
      then have "x div 2 ^ 22 = ?r" by simp
      then have "x = ?r * 2 ^ 22 + x mod 2 ^ 22" by (metis div_mult_mod_eq)
      then have "x = ?a - ?l + x mod 2 ^ 22" "?l \<le> ?a"
        using access_address_eq [OF assms(1), of offset] by simp_all
      then show False using False in_range by auto
    qed
    then show ?thesis
      using False assms(3) by (auto simp: heap_flat_def store_le_def nth_list_update [OF assms(2)])
  qed
qed

text \<open>C20: on the fixed tier the generated accessors read and write one flat little-endian memory. Every
  load, store and atomic of 1, 2, 4 or 8 bytes acts on the flat image at the low word of its address
  rounded down to the access width, whatever map holds that region; the upper half of the address,
  the window base, does not matter. Beyond the last backed region a load and an atomic return zero
  and a store changes nothing.\<close>

theorem heap_accessors_flat:
  assumes "heap_maps_ok hm" and "j \<le> 3"
  shows "if unat offset mod 2 ^ 32 div 2 ^ 22 < length (heap_regions hm)
    then heap_load hm (8 * 2 ^ j) offset = load_le (heap_flat hm) (access_address j offset) (2 ^ j) \<and>
      heap_flat (heap_store hm (8 * 2 ^ j) offset v) =
        store_le (heap_flat hm) (access_address j offset) (2 ^ j) v \<and>
      (\<exists>hm'. heap_atomic hm kind (8 * 2 ^ j) offset v replacement =
          (load_le (heap_flat hm) (access_address j offset) (2 ^ j), hm') \<and>
        heap_flat hm' = store_le (heap_flat hm) (access_address j offset) (2 ^ j)
          (native_atomic kind (8 * 2 ^ j) (load_le (heap_flat hm) (access_address j offset) (2 ^ j))
            v replacement))
    else heap_load hm (8 * 2 ^ j) offset = 0 \<and> heap_store hm (8 * 2 ^ j) offset v = hm \<and>
      heap_atomic hm kind (8 * 2 ^ j) offset v replacement = (0, hm)"
proof (cases "heap_route hm offset")
  case None
  then have "\<not> unat (heap_index offset) < length (heap_regions hm)"
    using assms(1) by (auto simp: heap_route_eq Let_def heap_regions_def split: if_splits)
  then show ?thesis
    using None by (simp add: heap_load_def heap_store_def heap_atomic_def heap_index_eq)
next
  case (Some p)
  note place = place_regions [OF Some assms(1)]
  have store: "heap_flat (put_place hm p (store_le (heap_regions hm ! unat (heap_index offset))
      (heap_low (8 * 2 ^ j) offset) (2 ^ j) w)) = store_le (heap_flat hm) (access_address j offset) (2 ^ j) w" for w
    using heap_flat_store [OF assms(2) place(1) place(3)] .
  show ?thesis
    unfolding heap_index_eq [symmetric]
    using place(1) by (simp add: heap_load_def heap_store_def heap_atomic_def Some place(2)
        heap_flat_load [OF assms(2) place(1)] store Let_def)
qed

definition sample_heap :: heap_maps where
  "sample_heap = \<lparr>hm_regions = [\<lambda>_. 0, \<lambda>_. 0], hm_array = [\<lambda>a. if a = 8 then 42 else 0]\<rparr>"

theorem heap_accessors_flat_witness:
  "heap_load sample_heap 64 0x100800008 = load_le (heap_flat sample_heap) 0x800008 8 \<and>
   heap_load sample_heap 64 0x100C00000 = 0"
  using heap_accessors_flat [of sample_heap 3 "0x100800008"] heap_accessors_flat [of sample_heap 3 "0x100C00000"]
  by (simp add: sample_heap_def heap_maps_ok_def heap_regions_def access_address_def)

section \<open>The backing of a fiber's stack\<close>

text \<open>\<open>NormalizeFiber\<close> of \<open>stackify.cpp\<close> and the lambda of the same name in \<open>memory.cpp\<close>: a mask for a
  power-of-two pool, a remainder otherwise.\<close>

definition isPowerOf2 :: "'a::len word \<Rightarrow> bool" where
  "isPowerOf2 w \<longleftrightarrow> w \<noteq> 0 \<and> w AND (w - 1) = 0"

definition NormalizeFiber :: "u32 \<Rightarrow> u32 \<Rightarrow> u32" where
  "NormalizeFiber fiberCount fiber =
     (if isPowerOf2 fiberCount then fiber AND (fiberCount - 1) else fiber mod fiberCount)"

definition stack_region :: "heap_maps \<Rightarrow> object_config \<Rightarrow> u32 \<Rightarrow> u32 \<Rightarrow> u32 \<Rightarrow> heap_place option" where
  "stack_region hm config fiberStackSize fiberCount fiber =
     (let stackBase = (ucast (cfg_stack_base config) :: u64);
          stackAddress = stackBase + ucast (NormalizeFiber fiberCount fiber) * ucast fiberStackSize;
          region = (ucast (drop_bit BPF_CAPSULE_MEMORY_REGION_SHIFT stackAddress) :: u32)
      in CreateHeapArrayLookup hm (region - word_of_nat (length (hm_regions hm))))"

definition stack_offset :: "u32 \<Rightarrow> u32 \<Rightarrow> u32 \<Rightarrow> u32" where
  "stack_offset fiberStackSize fiberCount fiber =
     (NormalizeFiber fiberCount fiber * fiberStackSize) AND (push_bit BPF_CAPSULE_MEMORY_REGION_SHIFT 1 - 1)"

text \<open>\<open>SoftwareStackAccessor\<close>: the base is a pointer to byte \<open>offset\<close> of a map element, null when the
  lookup failed.\<close>

definition stack_low :: "u32 \<Rightarrow> nat \<Rightarrow> u64 \<Rightarrow> u32" where
  "stack_low fiberStackSize bits logical_address =
     ucast logical_address AND (fiberStackSize - word_of_nat (bits div 8))"

definition stack_access_ok :: "u32 \<Rightarrow> nat \<Rightarrow> u64 \<Rightarrow> bool" where
  "stack_access_ok fiberStackSize bits logical_address \<longleftrightarrow>
     stack_low fiberStackSize bits logical_address \<le> fiberStackSize - word_of_nat (bits div 8)"

definition stack_load ::
  "heap_maps \<Rightarrow> u32 \<Rightarrow> (heap_place \<times> nat) option \<Rightarrow> nat \<Rightarrow> u64 \<Rightarrow> u64" where
  "stack_load hm fiberStackSize stack_base bits logical_address =
     (case stack_base of
        None \<Rightarrow> 0
      | Some (p, base) \<Rightarrow>
          if stack_access_ok fiberStackSize bits logical_address
          then load_le (place_bytes hm p) (base + unat (stack_low fiberStackSize bits logical_address)) (bits div 8)
          else 0)"

definition stack_store ::
  "heap_maps \<Rightarrow> u32 \<Rightarrow> (heap_place \<times> nat) option \<Rightarrow> nat \<Rightarrow> u64 \<Rightarrow> u64 \<Rightarrow> heap_maps" where
  "stack_store hm fiberStackSize stack_base bits logical_address v =
     (case stack_base of
        None \<Rightarrow> hm
      | Some (p, base) \<Rightarrow>
          if stack_access_ok fiberStackSize bits logical_address
          then put_place hm p (store_le (place_bytes hm p)
            (base + unat (stack_low fiberStackSize bits logical_address)) (bits div 8) v)
          else hm)"

lemma NormalizeFiber_eq:
  assumes "fiberCount \<noteq> 0"
  shows "NormalizeFiber fiberCount fiber = fiber mod fiberCount"
proof (cases "isPowerOf2 fiberCount")
  case True
  then obtain k where k: "k < 32" "unat fiberCount = 2 ^ k"
    using pow2_test [of fiberCount] by (auto simp: isPowerOf2_def)
  then have "fiberCount = 2 ^ k" using word_of_unat [OF k(2)] by simp
  then have "fiberCount - 1 = mask k" by (simp add: mask_eq_exp_minus_1)
  then have "unat (fiber AND (fiberCount - 1)) = unat fiber mod unat fiberCount"
    by (simp add: unat_mask_mod k(2))
  then show ?thesis using True by (simp add: NormalizeFiber_def word_unat_eq_iff unat_mod)
qed (simp add: NormalizeFiber_def)

lemma NormalizeFiber_id: "fiber < fiberCount \<Longrightarrow> NormalizeFiber fiberCount fiber = fiber"
  using NormalizeFiber_eq [of fiberCount fiber] by (auto simp: word_unat_eq_iff unat_mod word_less_nat_alt)

text \<open>The emitted index arithmetic is the reduction modulo the compiled ceiling that the runtime model
  uses for control records.\<close>

lemma NormalizeFiber_index: "build_ok B \<Longrightarrow> NormalizeFiber (b_max_fibers B) fiber = fiber_index B fiber"
  by (auto simp: fiber_index_def build_ok_def intro!: NormalizeFiber_eq)

text \<open>Where a slice lies: in one region, at an offset that is a multiple of the slice size.\<close>

lemma slice_geometry:
  fixes b f S :: nat
  assumes "S = 2 ^ k" and "k \<le> 22" and "2 ^ 22 dvd b"
  shows "b + f * S = (b + f * S) div 2 ^ 22 * 2 ^ 22 + f * S mod 2 ^ 22"
    and "f * S mod 2 ^ 22 + S \<le> 2 ^ 22" and "S dvd b + f * S"
proof -
  obtain q where q: "b = 2 ^ 22 * q" using assms(3) by (auto elim: dvdE)
  have "(b + f * S) mod 2 ^ 22 = f * S mod 2 ^ 22" unfolding q by (simp only: mod_mult_self4)
  then show "b + f * S = (b + f * S) div 2 ^ 22 * 2 ^ 22 + f * S mod 2 ^ 22"
    by (metis div_mult_mod_eq)
  have split: "(2::nat) ^ 22 = S * 2 ^ (22 - k)" unfolding assms(1) using assms(2) by (simp flip: power_add)
  have "f * S mod 2 ^ 22 = S * (f mod 2 ^ (22 - k))"
    unfolding split by (simp only: mult.commute [of f S] mult_mod_right [symmetric])
  moreover have "S * (f mod 2 ^ (22 - k) + 1) \<le> S * 2 ^ (22 - k)" by (rule mult_le_mono2) (simp add: Suc_le_eq)
  ultimately show "f * S mod 2 ^ 22 + S \<le> 2 ^ 22" unfolding split by simp
  have "S dvd b" using assms(3) unfolding split by (rule dvd_mult_left)
  then show "S dvd b + f * S" by simp
qed

lemma stack_low_eq:
  assumes "unat S = 2 ^ k" and "k \<le> 22" and "j \<le> k"
  shows "unat (stack_low S (8 * 2 ^ j) la) = unat la mod 2 ^ k div 2 ^ j * 2 ^ j"
    and "stack_access_ok S (8 * 2 ^ j) la"
proof -
  have S: "S = 2 ^ k" using word_of_unat [OF assms(1)] by simp
  have "mask j AND mask k = (mask j :: u32)"
    by (rule bit_word_eqI) (use assms(3) in \<open>auto simp: bit_simps\<close>)
  moreover have "(mask k AND NOT (mask j)) + (mask k AND mask j) = (mask k :: u32)"
    by (subst disjunctive_add_eq_or) (auto intro!: bit_word_eqI simp: bit_simps)
  ultimately have "mask k AND NOT (mask j) = mask k - (mask j :: u32)"
    by (metis add_diff_cancel_right' and.commute)
  then have w: "S - word_of_nat (8 * 2 ^ j div 8) = mask k AND NOT (mask j)"
    unfolding S by (simp add: mask_eq_exp_minus_1)
  have "unat (ucast la :: u32) mod 2 ^ k = unat la mod 2 ^ 32 mod 2 ^ k"
    by (simp add: unsigned_ucast_eq take_bit_eq_mod)
  also have "\<dots> = unat la mod 2 ^ k"
    by (rule mod_mod_cancel) (rule le_imp_power_dvd, use assms(2) in simp)
  finally have low: "unat (ucast la :: u32) mod 2 ^ k = unat la mod 2 ^ k" .
  show "unat (stack_low S (8 * 2 ^ j) la) = unat la mod 2 ^ k div 2 ^ j * 2 ^ j"
    unfolding stack_low_def w by (simp only: and.assoc [symmetric] unat_and_not_mask unat_mask_mod low)
  show "stack_access_ok S (8 * 2 ^ j) la"
    unfolding stack_access_ok_def stack_low_def by (rule word_and_le1)
qed

lemma div_mult_aligned:
  fixes a x w :: nat
  assumes "w dvd a" and "0 < w"
  shows "(a + x) div w * w = a + x div w * w"
  using assms by (auto elim!: dvdE simp: algebra_simps)

text \<open>An address of a slice, in the terms of the general accessor.\<close>

lemma slice_access:
  assumes "S = 2 ^ k" and "j \<le> 3" and "3 \<le> k" and "k \<le> 22" and "2 ^ 22 dvd b"
    and "unat la mod 2 ^ 32 = b + f * S + x" and "x < S"
  shows "unat (heap_index la) = (b + f * S) div 2 ^ 22"
    and "heap_low (8 * 2 ^ j) la = f * S mod 2 ^ 22 + unat la mod 2 ^ k div 2 ^ j * 2 ^ j"
proof -
  note geo = slice_geometry [OF assms(1,4,5), of f]
  let ?R = "(b + f * S) div 2 ^ 22" and ?o = "f * S mod 2 ^ 22"
  have a: "unat la mod 2 ^ 32 = ?R * 2 ^ 22 + (?o + x)" using geo(1) assms(6) by simp
  have lt: "?o + x < 2 ^ 22" using geo(2) assms(7) by linarith
  show index: "unat (heap_index la) = ?R"
    unfolding heap_index_eq a using lt by (simp only: div_mult_self3 div_less)
  have jk: "(2::nat) ^ j dvd S" unfolding assms(1) by (rule le_imp_power_dvd) (use assms in simp)
  have "unat la mod 2 ^ k = unat la mod 2 ^ 32 mod 2 ^ k"
    by (rule mod_mod_cancel [symmetric]) (rule le_imp_power_dvd, use assms(4) in simp)
  also have "\<dots> = x"
  proof -
    obtain q where "b + f * S = S * q" using geo(3) by (rule dvdE)
    then show ?thesis using assms(1,6,7) by (simp add: mod_mult_self4)
  qed
  finally have x: "unat la mod 2 ^ k = x" .
  have "access_address j la = b + f * S + x div 2 ^ j * 2 ^ j"
    unfolding access_address_def assms(6) by (rule div_mult_aligned) (use geo(3) jk in \<open>auto intro: dvd_trans\<close>)
  then show "heap_low (8 * 2 ^ j) la = ?o + unat la mod 2 ^ k div 2 ^ j * 2 ^ j"
    using access_address_eq [OF assms(2), of la] geo(1) index x by simp
qed

lemma stack_resolved:
  assumes "bpf_capsule_plan (Some c) bytes req True = Inr (c', entries)"
    and "cfg_memory_backend c \<noteq> BPF_CAPSULE_MEMORY_ARENA"
    and "length (hm_regions hm) = unat (cfg_direct_memory_regions c)" and "length (hm_array hm) = unat entries"
    and "S = cfg_stack_bytes_per_fiber c" and "f < req_fiber_count req"
    and "R = (unat (cfg_stack_base c') + unat f * unat S) div 2 ^ 22"
  shows "length (hm_regions hm) \<le> R" and "R < length (heap_regions hm)" and "heap_maps_ok hm"
    and "stack_region hm c' S (cfg_max_fibers c) f = Some (Element (R - length (hm_regions hm)))"
    and "unat (stack_offset S (cfg_max_fibers c) f) = unat f * unat S mod 2 ^ 22"
    and "2 ^ 22 dvd unat (cfg_stack_base c')"
proof -
  obtain h n b m where hn: "h = unat (req_heap_bytes req)" "n = unat (req_fiber_count req)"
    and ok: "bpf_capsule_layout_header_valid c" "0 < n" "req_fiber_count req \<le> cfg_max_fibers c"
    and b: "b = spec_stack_base c h" and m: "m = spec_memory_end c h n" "m < 2 ^ 32"
      "m = b + unat (cfg_stack_bytes_per_fiber c) * n" "0 < m"
    and fields: "unat (cfg_stack_base c') = b"
    and ent: "unat entries = spec_entries c m"
    using planned_values [OF assms(1)] by metis
  let ?d = "unat (cfg_direct_memory_regions c)" and ?A = "b + unat f * unat S"
  have d: "0 < ?d" "?d \<le> 63" using header_facts(3) [OF ok(1) assms(2)] by simp_all
  have S: "0 < unat S" using header_facts(1) [OF ok(1)] assms(5) by auto
  show "2 ^ 22 dvd unat (cfg_stack_base c')"
    using assms(2) align_to_dvd unfolding fields b spec_stack_base_def stack_alignment_def by simp
  have "unat f < n" using assms(6) hn(2) by (simp add: word_less_nat_alt)
  then have fS: "unat f * unat S < unat S * n" using S by (simp add: mult.commute)
  then have Am: "?A < m" using m(3) assms(5) by simp
  have R: "R = ?A div 2 ^ 22" using assms(7) fields by simp
  have "?d * 2 ^ 22 \<le> b" using spec_stack_base_ge(2) [OF ok(1), of h] b assms(2) by (simp add: stack_floor_def)
  then have dR: "?d \<le> R" unfolding R by (simp add: less_eq_div_iff_mult_less_eq)
  then show "length (hm_regions hm) \<le> R" using assms(3) by simp
  have "R * 2 ^ 22 < m" unfolding R using Am div_times_less_eq_dividend [of ?A "2 ^ 22"] by linarith
  then have "(R + 1) * 2 ^ 22 \<le> m + 2 ^ 22 - 1" by simp
  then have top: "R + 1 \<le> (m + 2 ^ 22 - 1) div 2 ^ 22" by (simp add: less_eq_div_iff_mult_less_eq)
  have e: "unat entries = (m + 2 ^ 22 - 1) div 2 ^ 22 - ?d" using ent assms(2) by (simp add: spec_entries_def)
  have len: "length (heap_regions hm) = (m + 2 ^ 22 - 1) div 2 ^ 22"
    using assms(3,4) e dR top by (simp add: heap_regions_def)
  then show lR: "R < length (heap_regions hm)" using top by simp
  show "heap_maps_ok hm"
    unfolding heap_maps_ok_def len using d assms(3) m(2) by (auto simp: less_mult_imp_div_less)
  have id: "NormalizeFiber (cfg_max_fibers c) f = f"
    by (rule NormalizeFiber_id) (rule less_le_trans [OF assms(6) ok(3)])
  have "unat (ucast (cfg_stack_base c') + ucast f * ucast S :: u64) = ?A"
    using u32_mult_add_u64 [of "cfg_stack_base c'" f S] fields by simp
  then have shift: "unat (drop_bit 22 (ucast (cfg_stack_base c') + ucast f * ucast S :: u64)) = R"
    unfolding R by (simp only: unat_drop_bit_div)
  have Rs: "R < 2 ^ 32" using \<open>R * 2 ^ 22 < m\<close> m(2) by simp
  have cast: "unat (ucast (drop_bit 22 (ucast (cfg_stack_base c') + ucast f * ucast S :: u64)) :: u32) = R"
    unfolding unsigned_ucast_eq shift using Rs by (simp add: take_bit_nat_eq_self)
  have dw: "word_of_nat (length (hm_regions hm)) = cfg_direct_memory_regions c"
    using assms(3) by simp
  have "unat (ucast (drop_bit 22 (ucast (cfg_stack_base c') + ucast f * ucast S :: u64)) -
      cfg_direct_memory_regions c) = R - ?d"
    using unat_sub [of "cfg_direct_memory_regions c"] cast dR by (simp add: word_le_nat_alt)
  then show "stack_region hm c' S (cfg_max_fibers c) f = Some (Element (R - length (hm_regions hm)))"
    unfolding stack_region_def CreateHeapArrayLookup_def Let_def id dw BPF_CAPSULE_MEMORY_REGION_SHIFT_def
    using lR dR assms(3) by (simp add: heap_regions_def)
  have "unat (f * S) = unat f * unat S"
    using unat_mult_lem [of f S] Am m(2) by simp
  moreover have "push_bit 22 1 - 1 = (mask 22 :: u32)" by (simp add: mask_eq_exp_minus_1 push_bit_eq_mult)
  ultimately show "unat (stack_offset S (cfg_max_fibers c) f) = unat f * unat S mod 2 ^ 22"
    unfolding stack_offset_def id BPF_CAPSULE_MEMORY_REGION_SHIFT_def by (simp only: unat_mask_mod)
qed

text \<open>C21: the promoted path of the software stack is the general accessor. With the layout the host
  planned and the maps sized by it, the region and offset resolved once per drive for a fiber make
  every stack load and store of that fiber's slice return and change exactly what the general
  accessor does at the same logical address, window bits and all; in particular the lookup succeeds
  for every fiber of the pool.\<close>

theorem stack_backing_eq_accessor:
  assumes "bpf_capsule_plan (Some c) bytes req True = Inr (c', entries)"
    and "cfg_memory_backend c \<noteq> BPF_CAPSULE_MEMORY_ARENA"
    and "length (hm_regions hm) = unat (cfg_direct_memory_regions c)" and "length (hm_array hm) = unat entries"
    and "S = cfg_stack_bytes_per_fiber c" and "8 \<le> unat S" and "j \<le> 3" and "f < req_fiber_count req"
    and "unat la mod 2 ^ 32 = unat (cfg_stack_base c') + unat f * unat S + x" and "x < unat S"
    and "base = map_option (\<lambda>p. (p, unat (stack_offset S (cfg_max_fibers c) f)))
      (stack_region hm c' S (cfg_max_fibers c) f)"
  shows "stack_load hm S base (8 * 2 ^ j) la = heap_load hm (8 * 2 ^ j) la \<and>
    stack_store hm S base (8 * 2 ^ j) la v = heap_store hm (8 * 2 ^ j) la v"
proof -
  let ?R = "(unat (cfg_stack_base c') + unat f * unat S) div 2 ^ 22"
  note res = stack_resolved [OF assms(1-5,8) refl]
  obtain k where k: "k \<le> 22" "unat S = 2 ^ k"
    using planned_values [OF assms(1)] header_facts(1) assms(5) by metis
  have "(2::nat) ^ 3 \<le> 2 ^ k" using assms(6) k(2) by simp
  then have k3: "3 \<le> k" by (rule power_le_imp_le_exp [rotated]) simp
  note at = slice_access [OF k(2) assms(7) k3 k(1) res(6) assms(9,10)]
  have jk: "j \<le> k" using assms(7) k3 by simp
  have base: "base = Some (Element (?R - length (hm_regions hm)), unat f * unat S mod 2 ^ 22)"
    using assms(11) res(4,5) by simp
  have route: "heap_route hm la = Some (Element (?R - length (hm_regions hm)))"
    using res(1,2) by (simp only: heap_route_eq [OF res(3)] Let_def at(1) not_less [THEN iffD2] if_True if_False)
  show ?thesis
    by (simp add: stack_load_def stack_store_def heap_load_def heap_store_def base route at(2)
        stack_low_eq [OF k(2,1) jk])
qed

definition sample_backing :: "(heap_place \<times> nat) option" where
  "sample_backing = map_option (\<lambda>p. (p, unat (stack_offset 0x10000 4 2)))
     (stack_region sample_heap (sample_object\<lparr>cfg_fiber_count := 3, cfg_heap_bytes := 0x100000,
       cfg_stack_base := 0x800000, cfg_memory_end := 0x830000\<rparr>) 0x10000 4 2)"

theorem stack_backing_eq_accessor_witness:
  "stack_load sample_heap 0x10000 sample_backing (8 * 2 ^ 3) 0x100820010 =
    heap_load sample_heap (8 * 2 ^ 3) 0x100820010"
proof (rule stack_backing_eq_accessor [OF sample_plan, where x = 16, THEN conjunct1])
  show "sample_backing = map_option (\<lambda>p. (p, unat (stack_offset 0x10000 (cfg_max_fibers sample_object) 2)))
    (stack_region sample_heap (sample_object\<lparr>cfg_fiber_count := 3, cfg_heap_bytes := 0x100000,
       cfg_stack_base := 0x800000, cfg_memory_end := 0x830000\<rparr>) 0x10000 (cfg_max_fibers sample_object) 2)"
    by (simp add: sample_backing_def sample_object_def)
qed (simp_all add: sample_object_def sample_heap_def sample_request_def layout_constants)

end
