(* ===== verification/Host_Window.thy ===== *)
theory Host_Window
  imports Heap_Access
begin

text \<open>
  The host's address space (\<open>bpf_capsule_host.c\<close>): reserving the window of an object
  (\<open>__bpf_capsule_reserve_window\<close>, \<open>__bpf_capsule_restore_reservation\<close>) and laying the maps of the
  fixed tier over it, the second half of \<open>__bpf_capsule_prepare_memory\<close>. The kernel's memory calls
  are not part of the repository: their answers are the fields of \<open>host_os\<close>, and \<open>os_ok\<close> states what is
  documented of them.
\<close>

section \<open>Address spaces\<close>

text \<open>What a byte of the process's address space is: part of a reservation, a byte of a mapped file,
  a mapped byte whose access has been revoked, or something the library did not map.\<close>

datatype vm_byte = Reserved | Mapped int nat | Protected | Foreign

type_synonym address_space = "u64 \<Rightarrow> vm_byte option"

definition in_span :: "u64 \<Rightarrow> u64 \<Rightarrow> u64 \<Rightarrow> bool" where
  "in_span start bytes a \<longleftrightarrow> a - start < bytes"

definition map_span :: "u64 \<Rightarrow> u64 \<Rightarrow> (nat \<Rightarrow> vm_byte) \<Rightarrow> address_space \<Rightarrow> address_space" where
  "map_span start bytes f vm = (\<lambda>a. if in_span start bytes a then Some (f (unat (a - start))) else vm a)"

definition unmap_span :: "u64 \<Rightarrow> u64 \<Rightarrow> address_space \<Rightarrow> address_space" where
  "unmap_span start bytes vm = (\<lambda>a. if in_span start bytes a then None else vm a)"

text \<open>Every memory call answers an errno, zero for success, or an address.\<close>

record host_os =
  os_mmap_any :: "address_space \<Rightarrow> u64 \<Rightarrow> u64 option"
  os_mmap_file :: "u64 \<Rightarrow> int \<Rightarrow> nat \<Rightarrow> int"
  os_restore :: "u64 \<Rightarrow> u64 \<Rightarrow> int"
  os_mprotect :: "u64 \<Rightarrow> u64 \<Rightarrow> int"
  os_munmap :: "u64 \<Rightarrow> u64 \<Rightarrow> int"
  os_page_size :: u64

text \<open>Documented of an anonymous mapping without a hint: it is placed on unmapped addresses, never at
  zero and never across the end of the address space.\<close>

definition os_ok :: "host_os \<Rightarrow> bool" where
  "os_ok os \<longleftrightarrow> (\<forall>vm n raw. os_mmap_any os vm n = Some raw \<longrightarrow>
     raw \<noteq> 0 \<and> unat raw + unat n < 2 ^ 64 \<and> (\<forall>a. in_span raw n a \<longrightarrow> vm a = None))"

section \<open>The window\<close>

definition view_alignment :: u64 where "view_alignment = push_bit 32 1"

definition bpf_capsule_reserve_window :: "host_os \<Rightarrow> address_space \<Rightarrow> u64 \<times> address_space" where
  "bpf_capsule_reserve_window os vm =
     (let token_tail = BPF_CAPSULE_FUNCTION_TOKEN_SPAN; reserve = 2 * view_alignment + token_tail
      in case os_mmap_any os vm reserve of
           None \<Rightarrow> (0, vm)
         | Some raw \<Rightarrow>
             (let vm = map_span raw reserve (\<lambda>_. Reserved) vm;
                  aligned = (raw + view_alignment - 1) AND NOT (view_alignment - 1);
                  vm = (if aligned \<noteq> raw then unmap_span raw (aligned - raw) vm else vm);
                  tail = reserve - (aligned - raw) - (view_alignment + token_tail);
                  vm = (if tail \<noteq> 0 then unmap_span (aligned + view_alignment + token_tail) tail vm else vm)
              in (aligned, vm)))"

text \<open>A fixed anonymous mapping without access over part of the window.\<close>

definition bpf_capsule_restore_reservation ::
  "host_os \<Rightarrow> u64 \<Rightarrow> u64 \<Rightarrow> address_space \<Rightarrow> int \<times> address_space" where
  "bpf_capsule_restore_reservation os address n vm =
     (let e = os_restore os address n
      in (e, if e = 0 then map_span address n (\<lambda>_. Reserved) vm else vm))"

definition reserved_window :: "u64 \<Rightarrow> address_space \<Rightarrow> address_space" where
  "reserved_window window vm = map_span window BPF_CAPSULE_MEMORY_WINDOW_SIZE (\<lambda>_. Reserved) vm"

lemma window_sizes [simp]:
  "unat view_alignment = 4294967296" "unat BPF_CAPSULE_FUNCTION_TOKEN_SPAN = 17825792"
  "unat BPF_CAPSULE_MEMORY_WINDOW_SIZE = 4312793088"
  by (simp_all add: view_alignment_def BPF_CAPSULE_FUNCTION_TOKEN_SPAN_def BPF_CAPSULE_MEMORY_WINDOW_SIZE_def
      BPF_CAPSULE_FUNCTION_TOKEN_DISPLACEMENT_def BPF_CAPSULE_MANAGED_FUNCTION_TOKEN_SPAN_def
      BPF_CAPSULE_NATIVE_FUNCTION_TOKEN_SPAN_def push_bit_eq_mult)

lemma in_span_nat:
  assumes "unat start + unat n < 2 ^ 64"
  shows "in_span start n a \<longleftrightarrow> unat start \<le> unat a \<and> unat a < unat start + unat n"
proof (cases "start \<le> a")
  case True
  then have "unat (a - start) = unat a - unat start" by (rule unat_sub)
  then show ?thesis using True by (auto simp: in_span_def word_less_nat_alt word_le_nat_alt)
next
  case False
  then have "unat a < unat start" by (simp add: word_le_nat_alt)
  moreover have "unat (a - start) = 2 ^ 64 + unat a - unat start"
    using False by (simp add: unat_sub_if_size word_size word_le_nat_alt)
  ultimately show ?thesis using assms by (auto simp: in_span_def word_less_nat_alt)
qed

lemma window_aligned_up:
  assumes "unat raw + 8607760384 < 2 ^ 64"
  defines "aligned \<equiv> (raw + view_alignment - 1) AND NOT (view_alignment - 1)"
  shows "unat aligned = align_to (unat raw) (2 ^ 32)" and "unat aligned < unat raw + 2 ^ 32"
    and "unat raw \<le> unat aligned"
proof -
  have va: "view_alignment - 1 = mask 32" by (simp add: view_alignment_def mask_eq_exp_minus_1)
  have sum: "unat (raw + view_alignment) = unat raw + 4294967296"
    using assms(1) unat_add_lem [of raw view_alignment] by simp
  then have "unat (raw + view_alignment - 1) = unat raw + 2 ^ 32 - 1"
    using unat_sub [of 1 "raw + view_alignment"] by (simp add: word_le_nat_alt)
  then show al: "unat aligned = align_to (unat raw) (2 ^ 32)"
    unfolding aligned_def va by (simp only: unat_and_not_mask) (simp add: align_to_def)
  show "unat aligned < unat raw + 2 ^ 32" unfolding al by (rule align_to_less) simp
  show "unat raw \<le> unat aligned" unfolding al by (rule align_to_ge) simp
qed

lemma reserve_window_cases:
  assumes os: "os_ok os" and run: "bpf_capsule_reserve_window os vm = (window, vm')"
  shows "window = 0 \<and> vm' = vm \<or>
    window \<noteq> 0 \<and> 2 ^ 32 dvd unat window \<and> unat window + unat BPF_CAPSULE_MEMORY_WINDOW_SIZE < 2 ^ 64 \<and>
    (\<forall>a. in_span window BPF_CAPSULE_MEMORY_WINDOW_SIZE a \<longrightarrow> vm a = None) \<and> vm' = reserved_window window vm"
proof -
  let ?reserve = "2 * view_alignment + BPF_CAPSULE_FUNCTION_TOKEN_SPAN :: u64"
  have res: "unat ?reserve = 8607760384"
    by (simp add: view_alignment_def BPF_CAPSULE_FUNCTION_TOKEN_SPAN_def BPF_CAPSULE_MANAGED_FUNCTION_TOKEN_SPAN_def
        BPF_CAPSULE_NATIVE_FUNCTION_TOKEN_SPAN_def push_bit_eq_mult)
  show ?thesis
  proof (cases "os_mmap_any os vm ?reserve")
    case None
    then show ?thesis using run by (simp add: bpf_capsule_reserve_window_def)
  next
    case (Some raw)
    have raw: "raw \<noteq> 0" "unat raw + 8607760384 < 2 ^ 64" "\<And>a. in_span raw ?reserve a \<Longrightarrow> vm a = None"
      using os Some res unfolding os_ok_def by fastforce+
    let ?al = "(raw + view_alignment - 1) AND NOT (view_alignment - 1)"
    let ?size = "view_alignment + BPF_CAPSULE_FUNCTION_TOKEN_SPAN"
    let ?tail = "?reserve - (?al - raw) - ?size"
    note al = window_aligned_up [OF raw(2)]
    have W: "?size = BPF_CAPSULE_MEMORY_WINDOW_SIZE"
      by (simp add: view_alignment_def BPF_CAPSULE_MEMORY_WINDOW_SIZE_def BPF_CAPSULE_FUNCTION_TOKEN_DISPLACEMENT_def)
    have d: "unat (?al - raw) = unat ?al - unat raw" using al(3) by (intro unat_sub) (simp add: word_le_nat_alt)
    then have d_small: "unat (?al - raw) < 4294967296" using al(2,3) by simp
    then have "unat (?reserve - (?al - raw)) = 8607760384 - unat (?al - raw)"
      using res unat_sub [of "?al - raw" ?reserve] by (simp add: word_le_nat_alt)
    then have tail: "unat ?tail = 4294967296 - unat (?al - raw)"
      using d_small unat_sub [of ?size "?reserve - (?al - raw)"] unfolding W by (simp add: word_le_nat_alt)
    have top: "unat (?al + view_alignment + BPF_CAPSULE_FUNCTION_TOKEN_SPAN) = unat ?al + 4312793088"
      using al(2) raw(2) unat_add_lem [of ?al BPF_CAPSULE_MEMORY_WINDOW_SIZE] unfolding add.assoc W by simp
    have window: "window = ?al" using run Some by (simp add: bpf_capsule_reserve_window_def Let_def)
    have end_raw: "unat raw + unat ?reserve < 2 ^ 64" using raw(2) res by simp
    have end_al: "unat ?al + unat BPF_CAPSULE_MEMORY_WINDOW_SIZE < 2 ^ 64" using raw(2) al(2) by simp
    have span: "in_span raw ?reserve a \<longleftrightarrow> unat raw \<le> unat a \<and> unat a < unat raw + 8607760384"
      and head: "in_span raw (?al - raw) a \<longleftrightarrow> unat raw \<le> unat a \<and> unat a < unat ?al"
      and rest: "in_span (?al + view_alignment + BPF_CAPSULE_FUNCTION_TOKEN_SPAN) ?tail a \<longleftrightarrow>
        unat ?al + 4312793088 \<le> unat a \<and> unat a < unat raw + 8607760384"
      and win: "in_span ?al BPF_CAPSULE_MEMORY_WINDOW_SIZE a \<longleftrightarrow> unat ?al \<le> unat a \<and> unat a < unat ?al + 4312793088" for a
      using in_span_nat [OF end_raw, of a] in_span_nat [of raw "?al - raw" a] in_span_nat [OF end_al, of a]
        in_span_nat [of "?al + view_alignment + BPF_CAPSULE_FUNCTION_TOKEN_SPAN" ?tail a] res d tail top raw(2) al(2,3)
      by (auto simp del: add_diff_eq)
    have nonzero: "?al \<noteq> 0" using al(3) raw(1) unat_gt_0 [of raw] by auto
    have vm': "vm' a = (if in_span (?al + view_alignment + BPF_CAPSULE_FUNCTION_TOKEN_SPAN) ?tail a \<or>
        in_span raw (?al - raw) a then None else if in_span raw ?reserve a then Some Reserved else vm a)" for a
      using run Some
      by (auto simp: bpf_capsule_reserve_window_def Let_def unmap_span_def map_span_def in_span_def)
    have free: "vm a = None" if "in_span ?al BPF_CAPSULE_MEMORY_WINDOW_SIZE a" for a
      by (rule raw(3)) (use that al(2,3) in \<open>simp add: win span\<close>)
    have "vm' a = reserved_window window vm a" for a
      unfolding vm' reserved_window_def map_span_def window
      using raw(3) [of a] win [of a] span [of a] head [of a] rest [of a] al(2,3) by auto
    then show ?thesis
      using nonzero free end_al al(1) align_to_dvd [of "2 ^ 32" "unat raw"] unfolding window by auto
  qed
qed

section \<open>The view of the fixed tier\<close>

text \<open>The mapping loop from region \<open>region\<close> on; it stops at the first region that cannot be mapped and
  reports the error and the number of regions mapped.\<close>

primrec view_loop ::
  "host_os \<Rightarrow> u64 \<Rightarrow> int list \<Rightarrow> int \<Rightarrow> nat \<Rightarrow> nat \<Rightarrow> address_space \<Rightarrow> int \<times> nat \<times> address_space" where
  "view_loop os view_at fds overflow_fd 0 region vm = (0, region, vm)"
| "view_loop os view_at fds overflow_fd (Suc k) region vm =
     (let fd = (if region < length fds then fds ! region else overflow_fd);
          file_offset = (if region < length fds then 0 else (region - length fds) * 2 ^ 22);
          at = view_at + word_of_nat (region * 2 ^ 22)
      in if fd < 0 then (EFAULT, region, vm)
         else if os_mmap_file os at fd file_offset \<noteq> 0 then (os_mmap_file os at fd file_offset, region, vm)
         else view_loop os view_at fds overflow_fd k (Suc region)
                (map_span at (ucast BPF_CAPSULE_MEMORY_REGION_SIZE) (\<lambda>i. Mapped fd (file_offset + i)) vm))"

text \<open>The ARRAY map holding the regions beyond the direct ones: its descriptor, value size and number of
  entries; without the map they are \<open>-1\<close>, zero and zero.\<close>

record overflow_map =
  ov_fd :: int
  ov_value_size :: u32
  ov_entries :: u32

definition view_usable :: "host_os \<Rightarrow> object_config \<Rightarrow> nat \<Rightarrow> overflow_map \<Rightarrow> bool" where
  "view_usable os config regions overflow =
     (let view_page = os_page_size os; view_base = cfg_memory_view_base config;
          total_regions = regions + unat (ov_entries overflow)
      in ov_value_size overflow = BPF_CAPSULE_MEMORY_REGION_SIZE \<and> view_page \<noteq> 0 \<and>
         view_base AND (view_page - 1) = 0 \<and> ucast BPF_CAPSULE_MEMORY_REGION_SIZE AND (view_page - 1) = 0 \<and>
         total_regions \<le> 2 ^ 32 div 2 ^ 22 \<and> total_regions * 2 ^ 22 \<ge> unat (cfg_memory_end config) \<and>
         unat view_base \<le> 2 ^ 64 - 1 - total_regions * 2 ^ 22)"

definition map_view ::
  "host_os \<Rightarrow> object_config \<Rightarrow> int list \<Rightarrow> overflow_map \<Rightarrow> address_space \<Rightarrow> int \<times> address_space" where
  "map_view os config fds overflow vm =
     (let view_at = cfg_memory_view_base config; view_page = os_page_size os
      in if view_at = 0 then (EINVAL, vm)
         else if \<not> view_usable os config (length fds) overflow then (EFAULT, vm)
         else case view_loop os view_at fds (ov_fd overflow) (length fds + unat (ov_entries overflow)) 0 vm of
           (e, mapped_regions, vm) \<Rightarrow>
             (let e = (if e = 0 then os_mprotect os view_at view_page else e)
              in if e = 0 then (0, map_span view_at view_page (\<lambda>_. Protected) vm)
                 else if mapped_regions \<noteq> 0
                 then (case bpf_capsule_restore_reservation os view_at
                              (word_of_nat mapped_regions * ucast BPF_CAPSULE_MEMORY_REGION_SIZE) vm of
                         (r, vm) \<Rightarrow> (if r \<noteq> 0 then r else e, vm))
                 else (e, vm)))"

text \<open>The byte of a map that backs a displacement of the window.\<close>

definition view_byte :: "int list \<Rightarrow> int \<Rightarrow> nat \<Rightarrow> vm_byte" where
  "view_byte fds overflow_fd d =
     (if d div 2 ^ 22 < length fds then Mapped (fds ! (d div 2 ^ 22)) (d mod 2 ^ 22)
      else Mapped overflow_fd ((d div 2 ^ 22 - length fds) * 2 ^ 22 + d mod 2 ^ 22))"

lemma in_span_offset:
  assumes "unat r + unat n < 2 ^ 64"
  shows "in_span (v + r) n a \<longleftrightarrow> unat r \<le> unat (a - v) \<and> unat (a - v) < unat r + unat n"
  using in_span_nat [OF assms, of "a - v"] by (simp add: in_span_def diff_diff_eq)

lemma view_loop_maps:
  assumes "view_loop os v fds ofd k region vm = (e, r, vm')" and "region + k \<le> 1024"
  shows "region \<le> r \<and> r \<le> region + k \<and> (e = 0 \<longrightarrow> r = region + k) \<and>
    (\<forall>a. vm' a = (if region * 2 ^ 22 \<le> unat (a - v) \<and> unat (a - v) < r * 2 ^ 22
                  then Some (view_byte fds ofd (unat (a - v))) else vm a))"
  using assms
proof (induction k arbitrary: region vm)
  case 0
  then show ?case by auto
next
  case (Suc k)
  let ?fd = "if region < length fds then fds ! region else ofd"
  let ?off = "if region < length fds then 0 else (region - length fds) * 2 ^ 22"
  let ?R = "word_of_nat (region * 2 ^ 22) :: u64"
  let ?at = "v + ?R" and ?size = "ucast BPF_CAPSULE_MEMORY_REGION_SIZE :: u64"
  show ?case
  proof (cases "?fd < 0 \<or> os_mmap_file os ?at ?fd ?off \<noteq> 0")
    case True
    then show ?thesis using Suc.prems by (auto simp: Let_def EFAULT_def split: if_splits)
  next
    case False
    let ?vm = "map_span ?at ?size (\<lambda>i. Mapped ?fd (?off + i)) vm"
    have run: "view_loop os v fds ofd k (Suc region) ?vm = (e, r, vm')"
      using False Suc.prems(1) by (auto simp: Let_def split: if_splits)
    have small: "region * 2 ^ 22 < 2 ^ 64" using Suc.prems(2) by simp
    have R: "unat ?R = region * 2 ^ 22" by (rule unat_of_nat_small) (use small in simp)
    have size: "unat ?size = 2 ^ 22" by (simp add: BPF_CAPSULE_MEMORY_REGION_SIZE_def BPF_CAPSULE_MEMORY_REGION_SHIFT_def push_bit_eq_mult)
    have span: "in_span ?at ?size a \<longleftrightarrow> region * 2 ^ 22 \<le> unat (a - v) \<and> unat (a - v) < Suc region * 2 ^ 22" for a
      using in_span_offset [of ?R ?size v a] R size Suc.prems(2) by (simp add: add.commute)
    have byte: "?vm a = Some (view_byte fds ofd (unat (a - v)))"
      if "region * 2 ^ 22 \<le> unat (a - v)" "unat (a - v) < Suc region * 2 ^ 22" for a
    proof -
      have div: "unat (a - v) div 2 ^ 22 = region" using that by (intro div_nat_eqI) simp_all
      then have "unat (a - v) - region * 2 ^ 22 = unat (a - v) mod 2 ^ 22" using minus_div_mult_eq_mod by metis
      moreover have "unat (a - ?at) = unat (a - v) - region * 2 ^ 22"
        using that(1) R unat_sub [of ?R "a - v"] by (simp add: word_le_nat_alt diff_diff_eq)
      moreover have "in_span ?at ?size a" using that span by blast
      ultimately show ?thesis using div by (simp add: map_span_def view_byte_def)
    qed
    have keep: "?vm a = vm a" if "\<not> (region * 2 ^ 22 \<le> unat (a - v) \<and> unat (a - v) < Suc region * 2 ^ 22)" for a
      using that by (simp only: map_span_def span if_False)
    have ih: "Suc region \<le> r \<and> r \<le> Suc region + k \<and> (e = 0 \<longrightarrow> r = Suc region + k) \<and>
      (\<forall>a. vm' a = (if Suc region * 2 ^ 22 \<le> unat (a - v) \<and> unat (a - v) < r * 2 ^ 22
                  then Some (view_byte fds ofd (unat (a - v))) else ?vm a))"
      by (rule Suc.IH [OF run]) (use Suc.prems(2) in simp)
    have le: "Suc region * 2 ^ 22 \<le> r * 2 ^ 22" using ih by (intro mult_le_mono1) simp
    have step: "region * 2 ^ 22 \<le> Suc region * (2::nat) ^ 22" by (intro mult_le_mono1) simp
    have "vm' a = (if region * 2 ^ 22 \<le> unat (a - v) \<and> unat (a - v) < r * 2 ^ 22
                  then Some (view_byte fds ofd (unat (a - v))) else vm a)" for a
    proof (cases "region * 2 ^ 22 \<le> unat (a - v) \<and> unat (a - v) < Suc region * 2 ^ 22")
      case True
      then have "vm' a = Some (view_byte fds ofd (unat (a - v)))" "unat (a - v) < r * 2 ^ 22"
        using ih byte [of a] le by (metis, linarith)
      then show ?thesis using True by presburger
    next
      case False
      then have "Suc region * 2 ^ 22 \<le> unat (a - v) \<longleftrightarrow> region * 2 ^ 22 \<le> unat (a - v)" using step by linarith
      then show ?thesis using ih keep [OF False] by presburger
    qed
    then show ?thesis using ih by simp
  qed
qed

text \<open>What the host reads through its address space when the mapped files hold \<open>files\<close>.\<close>

definition host_read :: "(int \<Rightarrow> bytes) \<Rightarrow> address_space \<Rightarrow> u64 \<Rightarrow> u8 option" where
  "host_read files vm a = (case vm a of Some (Mapped fd offset) \<Rightarrow> Some (files fd offset) | _ \<Rightarrow> None)"

text \<open>The files of an object's region maps hold the memory the guest sees.\<close>

definition files_hold :: "(int \<Rightarrow> bytes) \<Rightarrow> int list \<Rightarrow> int \<Rightarrow> heap_maps \<Rightarrow> bool" where
  "files_hold files fds overflow_fd hm \<longleftrightarrow> length (hm_regions hm) = length fds \<and>
     (\<forall>i<length fds. \<forall>k<2 ^ 22. files (fds ! i) k = (hm_regions hm ! i) k) \<and>
     (\<forall>i<length (hm_array hm). \<forall>k<2 ^ 22. files overflow_fd (i * 2 ^ 22 + k) = (hm_array hm ! i) k)"

lemma view_byte_flat:
  assumes "files_hold files fds ofd hm" and "d < length (heap_regions hm) * 2 ^ 22"
  shows "\<exists>fd k. view_byte fds ofd d = Mapped fd k \<and> files fd k = heap_flat hm d"
proof -
  have lt: "d div 2 ^ 22 < length (heap_regions hm)" using assms(2) by (rule less_mult_imp_div_less)
  then show ?thesis
    using assms(1) by (auto simp: files_hold_def view_byte_def heap_flat_def heap_regions_def nth_append)
qed

lemma map_view_ok:
  assumes "map_view os config fds overflow vm = (0, vm')"
  defines "base \<equiv> cfg_memory_view_base config" and "regions \<equiv> length fds + unat (ov_entries overflow)"
  shows "view_usable os config (length fds) overflow" and "base \<noteq> 0"
    and "vm' a = (if unat (a - base) < unat (os_page_size os) then Some Protected
      else if unat (a - base) < regions * 2 ^ 22 then Some (view_byte fds (ov_fd overflow) (unat (a - base)))
      else vm a)"
proof -
  show base: "base \<noteq> 0" and usable: "view_usable os config (length fds) overflow"
    using assms(1) by (auto simp: map_view_def Let_def base_def EINVAL_def EFAULT_def split: if_splits)
  obtain e r vm1 where loop: "view_loop os base fds (ov_fd overflow) regions 0 vm = (e, r, vm1)"
    by (cases "view_loop os base fds (ov_fd overflow) regions 0 vm")
  have "regions \<le> 1024" using usable by (simp add: view_usable_def regions_def Let_def)
  note maps = view_loop_maps [OF loop, simplified, OF this]
  have "e = 0 \<and> vm' = map_span base (os_page_size os) (\<lambda>_. Protected) vm1"
    using assms(1) loop usable base
    by (auto simp: map_view_def Let_def base_def regions_def split: if_splits prod.splits)
  then show "vm' a = (if unat (a - base) < unat (os_page_size os) then Some Protected
      else if unat (a - base) < regions * 2 ^ 22 then Some (view_byte fds (ov_fd overflow) (unat (a - base)))
      else vm a)"
    using maps by (simp add: map_span_def in_span_def word_less_nat_alt)
qed

lemma region_bytes_nat:
  assumes "r \<le> 1024"
  shows "unat (word_of_nat r * ucast BPF_CAPSULE_MEMORY_REGION_SIZE :: u64) = r * 2 ^ 22"
proof -
  have "word_of_nat r * ucast BPF_CAPSULE_MEMORY_REGION_SIZE = (word_of_nat (r * 2 ^ 22) :: u64)"
    by (simp add: BPF_CAPSULE_MEMORY_REGION_SIZE_def BPF_CAPSULE_MEMORY_REGION_SHIFT_def push_bit_eq_mult)
  then show ?thesis using unat_of_nat_small [of "r * 2 ^ 22", where 'a = 64] assms by simp
qed

lemma map_view_failed:
  assumes "map_view os config fds overflow vm = (e, vm')" and "e \<noteq> 0"
    and "\<And>n. os_restore os (cfg_memory_view_base config) n = 0"
    and "\<And>a. unat (a - cfg_memory_view_base config) < 2 ^ 32 \<Longrightarrow> vm a = Some Reserved"
  shows "vm' = vm"
proof -
  let ?base = "cfg_memory_view_base config"
  let ?total = "length fds + unat (ov_entries overflow)"
  obtain e1 r vm1 where loop: "view_loop os ?base fds (ov_fd overflow) ?total 0 vm = (e1, r, vm1)"
    by (cases "view_loop os ?base fds (ov_fd overflow) ?total 0 vm")
  show ?thesis
  proof (cases "?base = 0 \<or> \<not> view_usable os config (length fds) overflow")
    case True
    then show ?thesis using assms(1) by (auto simp: map_view_def Let_def split: if_splits)
  next
    case False
    then have total: "?total \<le> 1024" by (simp add: view_usable_def Let_def)
    note maps = view_loop_maps [OF loop, simplified, OF total]
    have r: "r \<le> 1024" using maps total by simp
    note size = region_bytes_nat [OF r]
    have "vm' = (if r \<noteq> 0 then map_span ?base (word_of_nat r * ucast BPF_CAPSULE_MEMORY_REGION_SIZE) (\<lambda>_. Reserved) vm1
        else vm1)"
      using assms(1-3) loop False
      by (auto simp: map_view_def Let_def bpf_capsule_restore_reservation_def split: if_splits)
    moreover have "map_span ?base (word_of_nat r * ucast BPF_CAPSULE_MEMORY_REGION_SIZE) (\<lambda>_. Reserved) vm1 a = vm a" for a
    proof (cases "unat (a - ?base) < r * 2 ^ 22")
      case True
      moreover have "r * 2 ^ 22 \<le> 1024 * 2 ^ 22" using r by (rule mult_le_mono1)
      ultimately have "unat (a - ?base) < 2 ^ 32" by simp
      then show ?thesis using True assms(4) by (simp add: map_span_def in_span_def word_less_nat_alt size)
    next
      case False
      then show ?thesis using maps by (simp add: map_span_def in_span_def word_less_nat_alt size)
    qed
    moreover have "vm1 a = vm a" if "r = 0" for a using maps that by simp
    ultimately show ?thesis by (cases "r = 0") auto
  qed
qed

lemma flat_load_backed:
  assumes "heap_maps_ok hm" and "j \<le> 3" and "unat offset mod 2 ^ 32 div 2 ^ 22 < length (heap_regions hm)"
  shows "heap_load hm (8 * 2 ^ j) offset = load_le (heap_flat hm) (access_address j offset) (2 ^ j)"
proof (cases "heap_route hm offset")
  case None
  then show ?thesis
    using assms(1,3) by (auto simp: heap_route_eq heap_index_eq Let_def heap_regions_def split: if_splits)
next
  case (Some p)
  note place = place_regions [OF Some assms(1)]
  show ?thesis
    using heap_flat_load [OF assms(2) place(1)] by (simp add: heap_load_def Some place(2))
qed

text \<open>C26: on the fixed tier the host and the guest see one memory. Once the view of an object is mapped
  over its 4 GiB-aligned window, the host reads, at the window plus any displacement from the first
  page up to the recorded memory end and beyond it to the last region, exactly the byte of the
  guest's flat memory there, so that an aligned load of the generated accessor through the same
  pointer returns the bytes the host reads; the first page is not accessible; and no address outside
  the regions has changed.\<close>

theorem host_view_is_guest_memory:
  assumes "map_view os config fds overflow vm = (0, vm')" and "files_hold files fds (ov_fd overflow) hm"
    and "length (hm_array hm) = unat (ov_entries overflow)" and "heap_maps_ok hm"
    and "2 ^ 32 dvd unat (cfg_memory_view_base config)"
  shows "unat (cfg_memory_end config) \<le> length (heap_regions hm) * 2 ^ 22 \<and>
    (\<forall>a. let d = unat (a - cfg_memory_view_base config)
      in if d < unat (os_page_size os) then vm' a = Some Protected
         else if d < length (heap_regions hm) * 2 ^ 22
         then host_read files vm' a = Some (heap_flat hm d) \<and>
           (\<forall>j\<le>3. 2 ^ j dvd d \<longrightarrow> heap_load hm (8 * 2 ^ j) a = load_le (heap_flat hm) d (2 ^ j))
         else vm' a = vm a)"
proof -
  let ?base = "cfg_memory_view_base config"
  note ok = map_view_ok [OF assms(1)]
  have len: "length (heap_regions hm) = length fds + unat (ov_entries overflow)"
    using assms(2,3) by (simp add: files_hold_def heap_regions_def)
  have regions: "length (heap_regions hm) \<le> 1024" using assms(4) by (simp add: heap_maps_ok_def)
  have load: "heap_load hm (8 * 2 ^ j) a = load_le (heap_flat hm) d (2 ^ j)"
    if "d = unat (a - ?base)" "d < length (heap_regions hm) * 2 ^ 22" "j \<le> 3" "2 ^ j dvd d" for a d j
  proof -
    have "length (heap_regions hm) * 2 ^ 22 \<le> 1024 * 2 ^ 22" using regions by (rule mult_le_mono1)
    then have small: "d < 2 ^ 32" using that(2) by simp
    have "a = ?base + (a - ?base)" by simp
    then have "unat a = (unat ?base + d) mod 2 ^ 64" using that(1) unat_word_ariths(1) [of ?base "a - ?base"] by simp
    then have "unat a mod 2 ^ 32 = (unat ?base + d) mod 2 ^ 32" by (simp add: mod_mod_cancel)
    moreover have "(unat ?base + d) mod 2 ^ 32 = d" using assms(5) small by (auto elim!: dvdE)
    ultimately have low: "unat a mod 2 ^ 32 = d" by simp
    have "d div 2 ^ 22 < length (heap_regions hm)" using that(2) by (rule less_mult_imp_div_less)
    moreover have "access_address j a = d" using that(4) unfolding access_address_def low by simp
    ultimately show ?thesis using flat_load_backed [OF assms(4) that(3), of a] low by simp
  qed
  have read: "host_read files vm' a = Some (heap_flat hm d)"
    if "d = unat (a - ?base)" "\<not> d < unat (os_page_size os)" "d < length (heap_regions hm) * 2 ^ 22" for a d
    using view_byte_flat [OF assms(2) that(3)] that ok(3) [of a] len by (auto simp: host_read_def)
  show ?thesis
    using ok(1,3) load read unfolding len by (simp add: view_usable_def Let_def)
qed

definition sample_os :: host_os where
  "sample_os = \<lparr>os_mmap_any = \<lambda>vm n. if n < 0x1000000000 \<and> (\<forall>a. in_span 0x7000 n a \<longrightarrow> vm a = None)
       then Some 0x7000 else None,
     os_mmap_file = \<lambda>at fd offset. 0, os_restore = \<lambda>at n. 0, os_mprotect = \<lambda>at n. 0, os_munmap = \<lambda>at n. 0,
     os_page_size = 0x1000\<rparr>"

lemma sample_os_ok: "os_ok sample_os"
  by (auto simp: os_ok_def sample_os_def word_less_nat_alt)

definition sample_bound :: object_config where
  "sample_bound = sample_object\<lparr>cfg_fiber_count := 3, cfg_heap_bytes := 0x100000, cfg_stack_base := 0x800000,
     cfg_memory_end := 0x830000, cfg_memory_view_base := 0x100000000\<rparr>"

definition sample_files :: "int \<Rightarrow> bytes" where
  "sample_files fd k = (if fd = 9 \<and> k = 8 then 42 else 0)"

lemma sample_view_mapped: "fst (map_view sample_os sample_bound [7, 8] \<lparr>ov_fd = 9, ov_value_size = 0x400000, ov_entries = 1\<rparr> vm) = 0"
  by (simp add: map_view_def view_usable_def sample_os_def sample_bound_def sample_object_def Let_def
      layout_constants numeral_3_eq_3)

theorem host_view_is_guest_memory_witness:
  "\<exists>vm'. map_view sample_os sample_bound [7, 8] \<lparr>ov_fd = 9, ov_value_size = 0x400000, ov_entries = 1\<rparr> Map.empty = (0, vm') \<and>
    host_read sample_files vm' 0x100800008 = Some 42 \<and> vm' 0x100000ff8 = Some Protected"
proof -
  let ?ov = "\<lparr>ov_fd = 9, ov_value_size = 0x400000, ov_entries = 1\<rparr>"
  obtain vm' where run: "map_view sample_os sample_bound [7, 8] ?ov Map.empty = (0, vm')"
    using sample_view_mapped [of Map.empty] by (metis prod.collapse)
  have hold: "files_hold sample_files [7, 8] (ov_fd ?ov) sample_heap"
    by (auto simp: files_hold_def sample_files_def sample_heap_def nth_Cons split: nat.splits)
  have "length (hm_array sample_heap) = unat (ov_entries ?ov)" "heap_maps_ok sample_heap"
    "2 ^ 32 dvd unat (cfg_memory_view_base sample_bound)"
    by (simp_all add: sample_heap_def heap_maps_ok_def heap_regions_def sample_bound_def)
  note view = host_view_is_guest_memory [OF run hold this, THEN conjunct2]
  show ?thesis
    using run spec [OF view, of "0x100800008"] spec [OF view, of "0x100000ff8"]
    by (simp add: sample_bound_def sample_os_def heap_regions_def sample_heap_def heap_flat_def)
qed

end
