(* ===== verification/Host_Configure.thy ===== *)
theory Host_Configure
  imports Host_Window
begin

text \<open>
  The loader's view of an object and \<open>bpf_capsule_configure\<close> of \<open>bpf_capsule_host.c\<close>: planning, the
  window, and the resizing of the maps with its rollback. libbpf is not part of the repository: what
  its setters answer are the fields of \<open>libbpf\<close>, and \<open>libbpf_ok\<close> states what is documented of them. An
  operation returns the errno it sets, zero for success, and the new world.
\<close>

section \<open>Objects and handles\<close>

record bpf_map =
  bm_max_entries :: u32
  bm_map_extra :: u64
  bm_fd :: int
  bm_value_size :: u32
  bm_flags :: u32

record bpf_program =
  bp_name :: string
  bp_section :: "string option"
  bp_flags :: u32
  bp_autoload :: bool
  bp_fd :: int

text \<open>An opened object: its maps by name, its programs in order, and the initial values of the maps the
  host reads: the configuration record and the arena control words with their sizes, whether the
  arena has an image, the readiness word and the fixup table.\<close>

record bpf_object =
  ob_maps :: "string \<Rightarrow> bpf_map option"
  ob_programs :: "bpf_program list"
  ob_config :: "(object_config \<times> nat) option"
  ob_arena_control :: "((u32 \<times> u64) \<times> nat) option"
  ob_arena_image :: bool
  ob_ready :: "(u32 \<times> nat) option"
  ob_fixups :: "u64 list option"

text \<open>A reopened object attached to one target: the object and its links.\<close>

record bpf_capsule_extension =
  ex_object :: nat
  ex_links :: "nat list"

record bpf_capsule_state =
  st_window :: u64
  st_config :: "object_config option"
  st_arena_control :: bool
  st_extensions :: "bpf_capsule_extension list"
  st_freplace_required :: bool
  st_freplace_attached :: bool
  st_initialized :: bool

text \<open>The handle; objects are named by numbers, and the missing private data is a null pointer.\<close>

record bpf_capsule =
  cap_object :: "nat option"
  cap_private_data :: "bpf_capsule_state option"

text \<open>The world of one handle; a null handle is \<open>None\<close>.\<close>

record host_world =
  hw_capsule :: "bpf_capsule option"
  hw_objects :: "nat \<Rightarrow> bpf_object"
  hw_vm :: address_space

definition bpf_capsule_state_of :: "bpf_capsule option \<Rightarrow> bpf_capsule_state option" where
  "bpf_capsule_state_of capsule = (case capsule of Some c \<Rightarrow> cap_private_data c | None \<Rightarrow> None)"

definition BPF_CAPSULE_SECTION_CONFIG :: string where "BPF_CAPSULE_SECTION_CONFIG = ''.rodata.bpfconfig''"
definition BPF_CAPSULE_MAP_ARENA :: string where "BPF_CAPSULE_MAP_ARENA = ''arena''"
definition BPF_CAPSULE_MAP_HEAP_ARRAY :: string where "BPF_CAPSULE_MAP_HEAP_ARRAY = ''bpf_heap_array''"
definition BPF_CAPSULE_MAP_FIBER_LEASES :: string where
  "BPF_CAPSULE_MAP_FIBER_LEASES = ''bpf_capsule_fiber_leases''"
definition BPF_CAPSULE_MAP_ISSUED_FIBERS :: string where
  "BPF_CAPSULE_MAP_ISSUED_FIBERS = ''bpf_capsule_issued_fibers''"
definition BPF_CAPSULE_MAP_FREE_FIBERS :: string where
  "BPF_CAPSULE_MAP_FREE_FIBERS = ''bpf_capsule_free_fibers''"
definition BPF_CAPSULE_MAP_CONTINUATION_CLAIMS :: string where
  "BPF_CAPSULE_MAP_CONTINUATION_CLAIMS = ''bpf_capsule_continuation_claims''"
definition BPF_CAPSULE_FREPLACE_SECTION_PREFIX :: string where
  "BPF_CAPSULE_FREPLACE_SECTION_PREFIX = ''freplace/''"
definition BPF_CAPSULE_FREPLACE_PROGRAM_PREFIX :: string where
  "BPF_CAPSULE_FREPLACE_PROGRAM_PREFIX = BPF_CAPSULE_FREPLACE_SECTION_PREFIX @ ''bpf_dispatch_output_''"

definition BPF_F_STRICT_ALIGNMENT :: u32 where "BPF_F_STRICT_ALIGNMENT = 1"
definition BPF_F_ANY_ALIGNMENT :: u32 where "BPF_F_ANY_ALIGNMENT = 2"

lemmas name_defs = BPF_CAPSULE_SECTION_CONFIG_def BPF_CAPSULE_MAP_ARENA_def BPF_CAPSULE_MAP_HEAP_ARRAY_def
  BPF_CAPSULE_MAP_FIBER_LEASES_def BPF_CAPSULE_MAP_ISSUED_FIBERS_def BPF_CAPSULE_MAP_FREE_FIBERS_def
  BPF_CAPSULE_MAP_CONTINUATION_CLAIMS_def

definition bpf_capsule_is_freplace_program :: "bpf_program \<Rightarrow> bool" where
  "bpf_capsule_is_freplace_program program =
     (case bp_section program of
        None \<Rightarrow> False
      | Some sec \<Rightarrow> take (length BPF_CAPSULE_FREPLACE_PROGRAM_PREFIX) sec = BPF_CAPSULE_FREPLACE_PROGRAM_PREFIX \<and>
          length sec > length BPF_CAPSULE_FREPLACE_PROGRAM_PREFIX)"

definition strict_alignment :: "bpf_program \<Rightarrow> bpf_program" where
  "strict_alignment program =
     program\<lparr>bp_flags := (bp_flags program AND NOT BPF_F_ANY_ALIGNMENT) OR BPF_F_STRICT_ALIGNMENT\<rparr>"

section \<open>libbpf's setters\<close>

record libbpf =
  lb_set_autoload :: "bpf_program \<Rightarrow> bool \<Rightarrow> int"
  lb_set_max_entries :: "string \<Rightarrow> bpf_map \<Rightarrow> u32 \<Rightarrow> int"
  lb_set_map_extra :: "string \<Rightarrow> bpf_map \<Rightarrow> u64 \<Rightarrow> int"

text \<open>Documented of \<open>bpf_map__set_max_entries\<close>: whether a map may be resized does not depend on the size
  it has been given; only a created map refuses.\<close>

definition libbpf_ok :: "libbpf \<Rightarrow> bool" where
  "libbpf_ok L \<longleftrightarrow> (\<forall>name m v u. lb_set_max_entries L name m v = 0 \<longrightarrow>
     lb_set_max_entries L name (m\<lparr>bm_max_entries := v\<rparr>) u = 0)"

text \<open>The setters on the map of a given name, which their callers have looked up; a failing setter has
  no effect.\<close>

definition set_max_entries :: "libbpf \<Rightarrow> string \<Rightarrow> u32 \<Rightarrow> bpf_object \<Rightarrow> int \<times> bpf_object" where
  "set_max_entries L name v ob =
     (case ob_maps ob name of
        None \<Rightarrow> (ENOENT, ob)
      | Some m \<Rightarrow> (let error = lb_set_max_entries L name m v
                  in (error, if error = 0 then ob\<lparr>ob_maps := (ob_maps ob)(name \<mapsto> m\<lparr>bm_max_entries := v\<rparr>)\<rparr> else ob)))"

definition set_map_extra :: "libbpf \<Rightarrow> string \<Rightarrow> u64 \<Rightarrow> bpf_object \<Rightarrow> int \<times> bpf_object" where
  "set_map_extra L name v ob =
     (case ob_maps ob name of
        None \<Rightarrow> (ENOENT, ob)
      | Some m \<Rightarrow> (let error = lb_set_map_extra L name m v
                  in (error, if error = 0 then ob\<lparr>ob_maps := (ob_maps ob)(name \<mapsto> m\<lparr>bm_map_extra := v\<rparr>)\<rparr> else ob)))"

section \<open>Configuring an object\<close>

text \<open>The loop over the programs: strict alignment for each, and no loading for the freplace steps.\<close>

fun configure_programs :: "libbpf \<Rightarrow> bpf_program list \<Rightarrow> int \<times> bool \<times> bpf_program list" where
  "configure_programs L [] = (0, False, [])"
| "configure_programs L (program # programs) =
     (let program = strict_alignment program
      in if \<not> bpf_capsule_is_freplace_program program then
           (case configure_programs L programs of (e, required, programs) \<Rightarrow> (e, required, program # programs))
         else if lb_set_autoload L program False \<noteq> 0 then
           (\<bar>lb_set_autoload L program False\<bar>, True, program # programs)
         else (case configure_programs L programs of
                 (e, _, programs) \<Rightarrow> (e, True, program\<lparr>bp_autoload := False\<rparr> # programs)))"

definition fiber_map_names :: "object_config \<Rightarrow> string list" where
  "fiber_map_names planned =
     (if cfg_memory_backend planned = BPF_CAPSULE_MEMORY_ARENA
      then [BPF_CAPSULE_MAP_ISSUED_FIBERS, BPF_CAPSULE_MAP_FREE_FIBERS]
      else [BPF_CAPSULE_MAP_FIBER_LEASES]) @ [BPF_CAPSULE_MAP_CONTINUATION_CLAIMS]"

definition backend_map :: "object_config \<Rightarrow> string" where
  "backend_map planned = (if cfg_memory_backend planned = BPF_CAPSULE_MEMORY_ARENA
     then BPF_CAPSULE_MAP_ARENA else BPF_CAPSULE_MAP_HEAP_ARRAY)"

text \<open>The old sizes, or \<open>None\<close> when a map is missing.\<close>

fun old_entries :: "bpf_object \<Rightarrow> string list \<Rightarrow> (string \<times> u32) list option" where
  "old_entries ob [] = Some []"
| "old_entries ob (name # names) =
     (case ob_maps ob name of
        None \<Rightarrow> None
      | Some m \<Rightarrow> (case old_entries ob names of
                    None \<Rightarrow> None | Some olds \<Rightarrow> Some ((name, bm_max_entries m) # olds)))"

text \<open>Undoing the resizes, last one first.\<close>

fun roll_back :: "libbpf \<Rightarrow> (string \<times> u32) list \<Rightarrow> bpf_object \<Rightarrow> bpf_object" where
  "roll_back L [] ob = ob"
| "roll_back L ((name, old) # changed) ob = roll_back L changed (snd (set_max_entries L name old ob))"

fun resize_maps ::
  "libbpf \<Rightarrow> u32 \<Rightarrow> (string \<times> u32) list \<Rightarrow> (string \<times> u32) list \<Rightarrow> bpf_object \<Rightarrow>
     int \<times> (string \<times> u32) list \<times> bpf_object" where
  "resize_maps L n [] changed ob = (0, changed, ob)"
| "resize_maps L n ((name, old) # rest) changed ob =
     (case set_max_entries L name n ob of
        (error, ob) \<Rightarrow> if error \<noteq> 0 then (error, changed, ob)
                       else resize_maps L n rest ((name, old) # changed) ob)"

text \<open>The setters on the maps with their rollback: the fiber maps, the backend map, and on the arena
  tier the address the arena is pinned to.\<close>

definition apply_plan ::
  "libbpf \<Rightarrow> object_config \<Rightarrow> u32 \<Rightarrow> u32 \<Rightarrow> u64 \<Rightarrow> (string \<times> u32) list \<Rightarrow> bpf_object \<Rightarrow> int \<times> bpf_object" where
  "apply_plan L planned fiber_count backend_entries window olds ob =
     (case resize_maps L fiber_count olds [] ob of
        (error, changed, ob) \<Rightarrow>
          if error \<noteq> 0 then (\<bar>error\<bar>, roll_back L changed ob)
          else
            (let backend = backend_map planned;
                 old_backend_entries = (case ob_maps ob backend of Some m \<Rightarrow> bm_max_entries m | None \<Rightarrow> 0);
                 old_map_extra = (case ob_maps ob backend of Some m \<Rightarrow> bm_map_extra m | None \<Rightarrow> 0)
             in case set_max_entries L backend backend_entries ob of
                  (error, ob) \<Rightarrow>
                    if error \<noteq> 0 then (\<bar>error\<bar>, roll_back L changed ob)
                    else if cfg_memory_backend planned = BPF_CAPSULE_MEMORY_ARENA then
                      (case set_map_extra L backend window ob of
                         (error, ob) \<Rightarrow>
                           if error \<noteq> 0
                           then (\<bar>error\<bar>, roll_back L changed
                                  (snd (set_max_entries L backend old_backend_entries
                                    (snd (set_map_extra L backend old_map_extra ob)))))
                           else (0, ob))
                    else (0, ob)))"

definition put_object :: "nat \<Rightarrow> bpf_object \<Rightarrow> 'a host_world_scheme \<Rightarrow> 'a host_world_scheme" where
  "put_object oid ob w = w\<lparr>hw_objects := (hw_objects w)(oid := ob)\<rparr>"

definition new_state :: bpf_capsule_state where
  "new_state = \<lparr>st_window = 0, st_config = None, st_arena_control = False, st_extensions = [],
     st_freplace_required = False, st_freplace_attached = False, st_initialized = False\<rparr>"

text \<open>The second half of \<open>bpf_capsule_configure\<close>, once the plan is known: the maps are looked up, the
  window reserved, the state allocated when there is none, and the plan applied; \<open>memory\<close> says whether
  the allocation succeeds.\<close>

definition install_plan ::
  "libbpf \<Rightarrow> host_os \<Rightarrow> bool \<Rightarrow> nat \<Rightarrow> u32 \<Rightarrow> object_config \<times> u32 \<Rightarrow> nat \<Rightarrow> bool \<Rightarrow>
     bpf_capsule_state option \<Rightarrow> 'a host_world_scheme \<Rightarrow> int \<times> 'a host_world_scheme" where
  "install_plan L os memory oid fiber_count plan config_size freplace_required state w =
     (case plan of
        (planned, backend_entries) \<Rightarrow>
          (let ob = hw_objects w oid
           in if ob_maps ob (backend_map planned) = None then (ENOENT, w)
              else case old_entries ob (fiber_map_names planned) of
                None \<Rightarrow> (ENOENT, w)
              | Some olds \<Rightarrow>
                  (case bpf_capsule_reserve_window os (hw_vm w) of
                     (window, vm) \<Rightarrow>
                       if window = 0 then (ENOMEM, w\<lparr>hw_vm := vm\<rparr>)
                       else if state = None \<and> \<not> memory
                       then (ENOMEM, w\<lparr>hw_vm := unmap_span window BPF_CAPSULE_MEMORY_WINDOW_SIZE vm\<rparr>)
                       else case apply_plan L planned fiber_count backend_entries window olds ob of
                         (e, ob) \<Rightarrow>
                           if e \<noteq> 0
                           then (e, put_object oid ob
                                  (w\<lparr>hw_vm := unmap_span window BPF_CAPSULE_MEMORY_WINDOW_SIZE vm\<rparr>))
                           else
                             (let st = (case state of Some st \<Rightarrow> st | None \<Rightarrow> new_state);
                                  old_window = st_window st;
                                  ob = ob\<lparr>ob_config := Some (planned\<lparr>cfg_memory_view_base := window\<rparr>, config_size)\<rparr>;
                                  st = st\<lparr>st_window := window, st_freplace_required := freplace_required,
                                    st_freplace_attached := False\<rparr>;
                                  vm = (if old_window \<noteq> 0 then unmap_span old_window BPF_CAPSULE_MEMORY_WINDOW_SIZE vm else vm)
                              in (0, put_object oid ob (w\<lparr>hw_vm := vm,
                                   hw_capsule := Some \<lparr>cap_object = Some oid, cap_private_data = Some st\<rparr>\<rparr>))))))"

definition bpf_capsule_configure ::
  "libbpf \<Rightarrow> host_os \<Rightarrow> bool \<Rightarrow> nat option \<Rightarrow> capsule_config \<Rightarrow> 'a host_world_scheme \<Rightarrow> int \<times> 'a host_world_scheme" where
  "bpf_capsule_configure L os memory object requested w =
     (case (hw_capsule w, object) of
        (Some capsule, Some oid) \<Rightarrow>
          (let state = cap_private_data capsule; ob = hw_objects w oid
           in if cap_object capsule \<noteq> None \<and> cap_object capsule \<noteq> Some oid \<or>
                 cap_object capsule = None \<and> state \<noteq> None then (EBUSY, w)
              else case (ob_maps ob BPF_CAPSULE_SECTION_CONFIG, ob_config ob) of
                (Some config_map, Some (config, config_size)) \<Rightarrow>
                  if bm_fd config_map \<ge> 0 then (EBUSY, w)
                  else (case configure_programs L (ob_programs ob) of
                    (e, freplace_required, programs) \<Rightarrow>
                      (let w = put_object oid (ob\<lparr>ob_programs := programs\<rparr>) w
                       in if e \<noteq> 0 then (e, w)
                          else if cfg_memory_view_base config \<noteq> (case state of Some st \<Rightarrow> st_window st | None \<Rightarrow> 0)
                          then (EBUSY, w)
                          else case bpf_capsule_copy_plan (Some config) config_size requested True True of
                            Inl e \<Rightarrow> (e, w)
                          | Inr plan \<Rightarrow> install_plan L os memory oid (req_fiber_count requested) plan config_size freplace_required state w))
              | _ \<Rightarrow> (ENOENT, w))
      | _ \<Rightarrow> (EINVAL, w))"

section \<open>All or nothing\<close>

lemma set_max_entries_failed:
  "set_max_entries L name v ob = (e, ob') \<Longrightarrow> e \<noteq> 0 \<Longrightarrow> ob' = ob"
  by (auto simp: set_max_entries_def Let_def split: option.splits if_splits)

lemma set_max_entries_ok:
  assumes "set_max_entries L name v ob = (0, ob')"
  obtains m where "ob_maps ob name = Some m" and "lb_set_max_entries L name m v = 0"
    and "ob' = ob\<lparr>ob_maps := (ob_maps ob)(name \<mapsto> m\<lparr>bm_max_entries := v\<rparr>)\<rparr>"
  using assms by (auto simp: set_max_entries_def ENOENT_def Let_def split: option.splits if_splits)

lemma set_max_entries_undo:
  assumes "libbpf_ok L" and "set_max_entries L name v ob = (0, ob')" and "ob_maps ob name = Some m"
  shows "snd (set_max_entries L name (bm_max_entries m) ob') = ob"
proof -
  obtain m' where "ob_maps ob name = Some m'" "lb_set_max_entries L name m' v = 0"
    "ob' = ob\<lparr>ob_maps := (ob_maps ob)(name \<mapsto> m'\<lparr>bm_max_entries := v\<rparr>)\<rparr>"
    using assms(2) by (rule set_max_entries_ok)
  then show ?thesis
    using assms(1,3) by (simp add: set_max_entries_def libbpf_ok_def map_upd_triv)
qed

text \<open>The sizes recorded for the maps still to be resized are the ones they have.\<close>

definition sizes_recorded :: "bpf_object \<Rightarrow> (string \<times> u32) list \<Rightarrow> bool" where
  "sizes_recorded ob olds \<longleftrightarrow> distinct (map fst olds) \<and>
     (\<forall>x\<in>set olds. \<exists>m. ob_maps ob (fst x) = Some m \<and> bm_max_entries m = snd x)"

lemma old_entries_recorded:
  "old_entries ob names = Some olds \<Longrightarrow> map fst olds = names \<and>
     (\<forall>x\<in>set olds. \<exists>m. ob_maps ob (fst x) = Some m \<and> bm_max_entries m = snd x)"
  by (induction names arbitrary: olds) (fastforce split: option.splits)+

definition resized :: "u32 \<Rightarrow> string set \<Rightarrow> bpf_object \<Rightarrow> bpf_object" where
  "resized n names ob = ob\<lparr>ob_maps := \<lambda>name.
     if name \<in> names then map_option (\<lambda>m. m\<lparr>bm_max_entries := n\<rparr>) (ob_maps ob name) else ob_maps ob name\<rparr>"

lemma resize_maps_spec:
  assumes "libbpf_ok L" and "resize_maps L n olds changed ob = (e, changed', ob')" and "sizes_recorded ob olds"
  shows "roll_back L changed' ob' = roll_back L changed ob" and "e = 0 \<longrightarrow> ob' = resized n (fst ` set olds) ob"
proof -
  have "roll_back L changed' ob' = roll_back L changed ob \<and> (e = 0 \<longrightarrow> ob' = resized n (fst ` set olds) ob)"
    using assms(2,3)
  proof (induction olds arbitrary: changed ob)
    case Nil
    then show ?case by (simp add: resized_def)
  next
    case (Cons x rest)
    obtain name old where x: "x = (name, old)" by (cases x)
    obtain err ob1 where set: "set_max_entries L name n ob = (err, ob1)" by (cases "set_max_entries L name n ob")
    obtain m where m: "ob_maps ob name = Some m" "bm_max_entries m = old"
      using Cons.prems(2) x by (auto simp: sizes_recorded_def)
    show ?case
    proof (cases "err = 0")
      case False
      then show ?thesis using Cons.prems(1) set_max_entries_failed [OF set] set x by auto
    next
      case True
      have ob1: "ob1 = ob\<lparr>ob_maps := (ob_maps ob)(name \<mapsto> m\<lparr>bm_max_entries := n\<rparr>)\<rparr>"
        using set_max_entries_ok [OF set [unfolded True]] m(1) by auto
      have rec: "sizes_recorded ob1 rest"
        using Cons.prems(2) x by (auto simp: sizes_recorded_def ob1 image_iff)
      have run: "resize_maps L n rest ((name, old) # changed) ob1 = (e, changed', ob')"
        using Cons.prems(1) set True x by simp
      have undo: "snd (set_max_entries L name old ob1) = ob"
        using set_max_entries_undo [OF assms(1) set [unfolded True] m(1)] m(2) by simp
      have "resized n (fst ` set rest) ob1 = resized n (fst ` set (x # rest)) ob"
        using m(1) x by (auto simp: resized_def ob1 fun_eq_iff)
      then show ?thesis using Cons.IH [OF run rec] undo by simp
    qed
  qed
  then show "roll_back L changed' ob' = roll_back L changed ob" "e = 0 \<longrightarrow> ob' = resized n (fst ` set olds) ob"
    by simp_all
qed

text \<open>The maps of a configured object.\<close>

definition planned_maps :: "object_config \<Rightarrow> u32 \<Rightarrow> u32 \<Rightarrow> u64 \<Rightarrow> bpf_object \<Rightarrow> bpf_object" where
  "planned_maps planned fiber_count entries window ob = ob\<lparr>ob_maps := \<lambda>name.
     if name \<in> set (fiber_map_names planned)
     then map_option (\<lambda>m. m\<lparr>bm_max_entries := fiber_count\<rparr>) (ob_maps ob name)
     else if name = backend_map planned
     then map_option (\<lambda>m. m\<lparr>bm_max_entries := entries,
       bm_map_extra := (if cfg_memory_backend planned = BPF_CAPSULE_MEMORY_ARENA then window else bm_map_extra m)\<rparr>)
       (ob_maps ob name)
     else ob_maps ob name\<rparr>"

lemma fiber_map_names_distinct:
  "distinct (fiber_map_names planned)" "backend_map planned \<notin> set (fiber_map_names planned)"
  by (simp_all add: fiber_map_names_def backend_map_def name_defs)

lemma set_map_extra_restore:
  assumes "ob_maps ob name = Some m"
  shows "snd (set_map_extra L name (bm_map_extra m) ob) = ob"
  using assms by (simp add: set_map_extra_def Let_def map_upd_triv)

lemma apply_plan_spec:
  assumes L: "libbpf_ok L" and run: "apply_plan L planned n entries window olds ob = (e, ob')"
    and olds: "old_entries ob (fiber_map_names planned) = Some olds"
    and backend: "ob_maps ob (backend_map planned) = Some b"
  shows "e \<noteq> 0 \<Longrightarrow> ob' = ob" and "e = 0 \<Longrightarrow> ob' = planned_maps planned n entries window ob"
proof -
  note names = old_entries_recorded [OF olds]
  have rec: "sizes_recorded ob olds" using names fiber_map_names_distinct(1) by (simp add: sizes_recorded_def)
  have set: "fst ` set olds = set (fiber_map_names planned)" using names by (metis set_map)
  obtain e1 changed ob1 where r: "resize_maps L n olds [] ob = (e1, changed, ob1)"
    by (cases "resize_maps L n olds [] ob")
  note resize = resize_maps_spec [OF L r rec, unfolded set roll_back.simps]
  let ?b = "backend_map planned"
  obtain e2 ob2 where s: "set_max_entries L ?b entries ob1 = (e2, ob2)" by (cases "set_max_entries L ?b entries ob1")
  obtain e3 ob3 where x: "set_map_extra L ?b window ob2 = (e3, ob3)" by (cases "set_map_extra L ?b window ob2")
  have keep: "ob_maps ob1 ?b = Some b" if "e1 = 0"
    using resize(2) that backend fiber_map_names_distinct(2) by (simp add: resized_def)
  have ob2: "ob2 = ob1\<lparr>ob_maps := (ob_maps ob1)(?b \<mapsto> b\<lparr>bm_max_entries := entries\<rparr>)\<rparr>" if "e1 = 0" "e2 = 0"
    using set_max_entries_ok [OF s [unfolded that(2)]] keep [OF that(1)] by auto
  have undo: "snd (set_max_entries L ?b (bm_max_entries b) (snd (set_map_extra L ?b (bm_map_extra b) ob2))) = ob1"
    if "e1 = 0" "e2 = 0"
    using set_map_extra_restore [of ob2 ?b "b\<lparr>bm_max_entries := entries\<rparr>"] ob2 [OF that]
      set_max_entries_undo [OF L s [unfolded that(2)] keep [OF that(1)]] by simp
  have ob3: "ob3 = (if e3 = 0 then ob2\<lparr>ob_maps := (ob_maps ob2)(?b \<mapsto> b\<lparr>bm_max_entries := entries, bm_map_extra := window\<rparr>)\<rparr>
      else ob2)" if "e1 = 0" "e2 = 0"
    using x ob2 [OF that] by (auto simp: set_map_extra_def Let_def)
  have abs: "\<bar>err\<bar> \<noteq> 0" if "err \<noteq> 0" for err :: int using that by simp
  show "ob' = ob" if "e \<noteq> 0"
    using run r s x that resize(1) set_max_entries_failed [OF s] undo ob3 keep
    by (auto simp: apply_plan_def Let_def split: if_splits)
  show "ob' = planned_maps planned n entries window ob" if "e = 0"
  proof -
    have e12: "e1 = 0" "e2 = 0" using run r s that by (auto simp: apply_plan_def Let_def split: if_splits)
    then have "ob' = (if cfg_memory_backend planned = BPF_CAPSULE_MEMORY_ARENA then ob3 else ob2) \<and>
        (cfg_memory_backend planned = BPF_CAPSULE_MEMORY_ARENA \<longrightarrow> e3 = 0)"
      using run r s x that by (auto simp: apply_plan_def Let_def split: if_splits)
    then show ?thesis
      using ob3 [OF e12] ob2 [OF e12] resize(2) e12 backend fiber_map_names_distinct(2) [of planned]
      by (auto simp: planned_maps_def resized_def fun_eq_iff)
  qed
qed

lemma unmap_reserved:
  assumes "\<And>a. in_span window BPF_CAPSULE_MEMORY_WINDOW_SIZE a \<Longrightarrow> vm a = None"
  shows "unmap_span window BPF_CAPSULE_MEMORY_WINDOW_SIZE (reserved_window window vm) = vm"
  using assms by (auto simp: unmap_span_def reserved_window_def map_span_def)

lemma put_object_same [simp]: "put_object oid (hw_objects w oid) w = w"
  by (simp add: put_object_def)

text \<open>The world after a successful configuration that installed \<open>plan\<close> in the window \<open>window\<close>.\<close>

definition configured_world ::
  "nat \<Rightarrow> u32 \<Rightarrow> object_config \<times> u32 \<Rightarrow> nat \<Rightarrow> bool \<Rightarrow> bpf_capsule_state option \<Rightarrow> u64 \<Rightarrow> 'a host_world_scheme \<Rightarrow> 'a host_world_scheme" where
  "configured_world oid n plan bytes required state window w =
     (let st = (case state of Some st \<Rightarrow> st | None \<Rightarrow> new_state);
          ob = planned_maps (fst plan) n (snd plan) window (hw_objects w oid);
          vm = reserved_window window (hw_vm w)
      in put_object oid (ob\<lparr>ob_config := Some ((fst plan)\<lparr>cfg_memory_view_base := window\<rparr>, bytes)\<rparr>)
           (w\<lparr>hw_vm := (if st_window st \<noteq> 0 then unmap_span (st_window st) BPF_CAPSULE_MEMORY_WINDOW_SIZE vm else vm),
              hw_capsule := Some \<lparr>cap_object = Some oid, cap_private_data =
                Some (st\<lparr>st_window := window, st_freplace_required := required, st_freplace_attached := False\<rparr>)\<rparr>\<rparr>))"

lemma install_plan_spec:
  assumes L: "libbpf_ok L" and os: "os_ok os"
    and run: "install_plan L os memory oid n (planned, entries) bytes required state w = (e, w')"
  shows "e \<noteq> 0 \<Longrightarrow> w' = w"
    and "e = 0 \<Longrightarrow> \<exists>window. window \<noteq> 0 \<and> 2 ^ 32 dvd unat window \<and>
      unat window + unat BPF_CAPSULE_MEMORY_WINDOW_SIZE < 2 ^ 64 \<and>
      (\<forall>a. in_span window BPF_CAPSULE_MEMORY_WINDOW_SIZE a \<longrightarrow> hw_vm w a = None) \<and>
      w' = configured_world oid n (planned, entries) bytes required state window w \<and>
      ob_maps (hw_objects w oid) (backend_map planned) \<noteq> None"
proof -
  obtain window vm where res: "bpf_capsule_reserve_window os (hw_vm w) = (window, vm)"
    by (cases "bpf_capsule_reserve_window os (hw_vm w)")
  note cases = reserve_window_cases [OF os res]
  have undo: "unmap_span window BPF_CAPSULE_MEMORY_WINDOW_SIZE vm = hw_vm w" if "window \<noteq> 0"
    using cases that unmap_reserved by blast
  note def = install_plan_def prod.case res Let_def
  have spec: "if e \<noteq> 0 then w' = w
    else window \<noteq> 0 \<and> w' = configured_world oid n (planned, entries) bytes required state window w \<and>
      ob_maps (hw_objects w oid) (backend_map planned) \<noteq> None"
  proof (cases "ob_maps (hw_objects w oid) (backend_map planned)")
    case None
    then show ?thesis using run by (auto simp: def ENOENT_def)
  next
    case (Some b)
    show ?thesis
    proof (cases "old_entries (hw_objects w oid) (fiber_map_names planned)")
      case None
      then show ?thesis using run Some by (auto simp: def ENOENT_def)
    next
      case olds: (Some olds)
      obtain e1 ob1 where ap: "apply_plan L planned n entries window olds (hw_objects w oid) = (e1, ob1)"
        by (cases "apply_plan L planned n entries window olds (hw_objects w oid)")
      note plan = apply_plan_spec [OF L ap olds Some]
      show ?thesis
        using run Some olds ap plan undo cases
        by (auto simp: def ENOMEM_def configured_world_def split: if_splits)
    qed
  qed
  show "w' = w" if "e \<noteq> 0" using spec that by simp
  show "\<exists>window. window \<noteq> 0 \<and> 2 ^ 32 dvd unat window \<and>
      unat window + unat BPF_CAPSULE_MEMORY_WINDOW_SIZE < 2 ^ 64 \<and>
      (\<forall>a. in_span window BPF_CAPSULE_MEMORY_WINDOW_SIZE a \<longrightarrow> hw_vm w a = None) \<and>
      w' = configured_world oid n (planned, entries) bytes required state window w \<and>
      ob_maps (hw_objects w oid) (backend_map planned) \<noteq> None" if "e = 0"
    using spec that cases by auto
qed

text \<open>The programs of a configured object.\<close>

definition configured_program :: "bpf_program \<Rightarrow> bpf_program" where
  "configured_program p = (if bpf_capsule_is_freplace_program p then (strict_alignment p)\<lparr>bp_autoload := False\<rparr>
     else strict_alignment p)"

lemma strict_alignment_freplace [simp]:
  "bpf_capsule_is_freplace_program (strict_alignment p) = bpf_capsule_is_freplace_program p"
  by (simp add: bpf_capsule_is_freplace_program_def strict_alignment_def)

lemma configure_programs_ok:
  "configure_programs L programs = (0, required, programs') \<Longrightarrow>
     programs' = map configured_program programs \<and>
     required = (\<exists>p\<in>set programs. bpf_capsule_is_freplace_program p)"
  by (induction programs arbitrary: required programs')
    (auto simp: configured_program_def Let_def split: if_splits prod.splits)

lemma plan_error_nonzero: "bpf_capsule_copy_plan c n req p b = Inl e \<Longrightarrow> e \<noteq> 0"
  by (auto simp: bpf_capsule_copy_plan_def bpf_capsule_plan_def plan_stack_def plan_entries_def Let_def
      EINVAL_def ENOENT_def E2BIG_def EOVERFLOW_def split: option.splits sum.splits if_splits)

text \<open>Worlds that differ at most in the flags and the loading of programs.\<close>

definition same_but_programs :: "'a host_world_scheme \<Rightarrow> 'a host_world_scheme \<Rightarrow> bool" where
  "same_but_programs w w' \<longleftrightarrow> hw_vm w' = hw_vm w \<and> hw_capsule w' = hw_capsule w \<and>
     host_world.more w' = host_world.more w \<and>
     (\<forall>i. \<exists>programs. hw_objects w' i = (hw_objects w i)\<lparr>ob_programs := programs\<rparr>)"

lemma same_but_programs_put:
  "same_but_programs w (put_object oid ((hw_objects w oid)\<lparr>ob_programs := programs\<rparr>) w)"
proof -
  have "\<exists>ps. hw_objects w i = (hw_objects w i)\<lparr>ob_programs := ps\<rparr>" for i
    by (rule exI [of _ "ob_programs (hw_objects w i)"]) simp
  then show ?thesis by (auto simp: same_but_programs_def put_object_def)
qed

lemma same_but_programs_refl [simp]: "same_but_programs w w"
  using same_but_programs_put [of w 0 "ob_programs (hw_objects w 0)"] by simp

lemma configure_cases:
  assumes "libbpf_ok L" and "os_ok os"
    and "bpf_capsule_configure L os memory object requested w = (e, w')"
  shows "if e \<noteq> 0
    then same_but_programs w w'
    else \<exists>oid capsule c bytes planned entries window. object = Some oid \<and> hw_capsule w = Some capsule \<and>
      ob_config (hw_objects w oid) = Some (c, bytes) \<and>
      bpf_capsule_plan (Some c) bytes requested True = Inr (planned, entries) \<and>
      window \<noteq> 0 \<and> 2 ^ 32 dvd unat window \<and>
      (\<forall>a. in_span window BPF_CAPSULE_MEMORY_WINDOW_SIZE a \<longrightarrow> hw_vm w a = None) \<and>
      w' = configured_world oid (req_fiber_count requested) (planned, entries) bytes
        (\<exists>p\<in>set (ob_programs (hw_objects w oid)). bpf_capsule_is_freplace_program p) (cap_private_data capsule) window
        (put_object oid ((hw_objects w oid)\<lparr>ob_programs := map configured_program (ob_programs (hw_objects w oid))\<rparr>) w)"
proof (cases "hw_capsule w = None \<or> object = None")
  case True
  then show ?thesis
    using assms(3) by (auto simp: bpf_capsule_configure_def EINVAL_def split: option.splits)
next
  case False
  then obtain capsule oid where args: "hw_capsule w = Some capsule" "object = Some oid" by auto
  let ?ob = "hw_objects w oid" and ?state = "cap_private_data capsule"
  let ?busy = "cap_object capsule \<noteq> None \<and> cap_object capsule \<noteq> Some oid \<or> cap_object capsule = None \<and> ?state \<noteq> None"
  note def = bpf_capsule_configure_def args Let_def prod.case option.case
  show ?thesis
  proof (cases "?busy \<or> ob_maps ?ob BPF_CAPSULE_SECTION_CONFIG = None \<or> ob_config ?ob = None")
    case True
    then show ?thesis
      using assms(3) by (auto simp: def EBUSY_def ENOENT_def split: option.splits if_splits)
  next
    case False
    then obtain cm c bytes where open_ob: "\<not> ?busy" "ob_maps ?ob BPF_CAPSULE_SECTION_CONFIG = Some cm"
      "ob_config ?ob = Some (c, bytes)" by auto
    obtain e1 required programs where ps: "configure_programs L (ob_programs ?ob) = (e1, required, programs)"
      by (cases "configure_programs L (ob_programs ?ob)")
    let ?w = "put_object oid (?ob\<lparr>ob_programs := programs\<rparr>) w"
    show ?thesis
    proof (cases "bm_fd cm \<ge> 0 \<or> e1 \<noteq> 0 \<or> cfg_memory_view_base c \<noteq> (case ?state of Some st \<Rightarrow> st_window st | None \<Rightarrow> 0)")
      case True
      then show ?thesis
        using assms(3) open_ob ps same_but_programs_put [of w oid programs]
        by (auto simp: def EBUSY_def split: if_splits)
    next
      case False
      then have e1: "e1 = 0" by simp
      note progs = configure_programs_ok [OF ps [unfolded e1]]
      show ?thesis
      proof (cases "bpf_capsule_copy_plan (Some c) bytes requested True True")
        case (Inl err)
        then show ?thesis
          using assms(3) False open_ob ps same_but_programs_put [of w oid programs] plan_error_nonzero [OF Inl]
          by (auto simp: def split: if_splits)
      next
        case (Inr plan)
        obtain planned entries where plan: "plan = (planned, entries)" by (cases plan)
        have run: "install_plan L os memory oid (req_fiber_count requested) (planned, entries) bytes required ?state ?w = (e, w')"
          using assms(3) False open_ob ps Inr plan by (auto simp: def split: if_splits)
        have "bpf_capsule_plan (Some c) bytes requested True = Inr (planned, entries)"
          using Inr plan by (simp add: bpf_capsule_copy_plan_def split: if_splits)
        then show ?thesis
          using install_plan_spec [OF assms(1,2) run] args open_ob progs same_but_programs_put [of w oid programs]
          by (auto simp: put_object_def)
      qed
    qed
  qed
qed

text \<open>C27: configuring an object is all or nothing. When \<open>bpf_capsule_configure\<close> fails, for whatever reason
  and at whatever point, the address space, the handle, every map property and the configuration
  record are exactly as before; only the load flags of programs may differ. When it succeeds, the
  record is the plan for the request with the base of a fresh window, which is nonzero, 4 GiB aligned
  and was unmapped; the fiber maps and the backend map have the planned sizes, on the arena tier the
  backend is pinned to the window, and no other map changed; the window is reserved, the one it
  replaces is released, and nothing else of the address space changed; every program has strict
  alignment and the freplace steps are not loaded with the object.\<close>

theorem configure_all_or_nothing:
  assumes "libbpf_ok L" and "os_ok os"
    and "bpf_capsule_configure L os memory object requested w = (e, w')"
  shows "if e \<noteq> 0
    then same_but_programs w w'
    else \<exists>oid capsule c bytes planned entries window st. object = Some oid \<and> hw_capsule w = Some capsule \<and>
      ob_config (hw_objects w oid) = Some (c, bytes) \<and>
      bpf_capsule_plan (Some c) bytes requested True = Inr (planned, entries) \<and>
      window \<noteq> 0 \<and> 2 ^ 32 dvd unat window \<and>
      (\<forall>a. in_span window BPF_CAPSULE_MEMORY_WINDOW_SIZE a \<longrightarrow> hw_vm w a = None) \<and>
      hw_capsule w' = Some \<lparr>cap_object = Some oid, cap_private_data = Some st\<rparr> \<and> st_window st = window \<and>
      hw_vm w' = (let vm = reserved_window window (hw_vm w);
          old = (case cap_private_data capsule of Some st \<Rightarrow> st_window st | None \<Rightarrow> 0)
        in if old \<noteq> 0 then unmap_span old BPF_CAPSULE_MEMORY_WINDOW_SIZE vm else vm) \<and>
      (\<forall>i. i \<noteq> oid \<longrightarrow> hw_objects w' i = hw_objects w i) \<and>
      ob_config (hw_objects w' oid) = Some (planned\<lparr>cfg_memory_view_base := window\<rparr>, bytes) \<and>
      ob_programs (hw_objects w' oid) = map configured_program (ob_programs (hw_objects w oid)) \<and>
      (\<forall>name m. ob_maps (hw_objects w oid) name = Some m \<longrightarrow>
        ob_maps (hw_objects w' oid) name = Some
          (if name \<in> set (fiber_map_names planned) then m\<lparr>bm_max_entries := req_fiber_count requested\<rparr>
           else if name \<noteq> backend_map planned then m
           else if cfg_memory_backend planned = BPF_CAPSULE_MEMORY_ARENA
           then m\<lparr>bm_max_entries := entries, bm_map_extra := window\<rparr>
           else m\<lparr>bm_max_entries := entries\<rparr>))"
proof (cases "e = 0")
  case True
  then obtain oid capsule c bytes planned entries window where ok: "object = Some oid" "hw_capsule w = Some capsule"
    "ob_config (hw_objects w oid) = Some (c, bytes)"
    "bpf_capsule_plan (Some c) bytes requested True = Inr (planned, entries)" "window \<noteq> 0" "2 ^ 32 dvd unat window"
    "\<And>a. in_span window BPF_CAPSULE_MEMORY_WINDOW_SIZE a \<Longrightarrow> hw_vm w a = None"
    "w' = configured_world oid (req_fiber_count requested) (planned, entries) bytes
        (\<exists>p\<in>set (ob_programs (hw_objects w oid)). bpf_capsule_is_freplace_program p) (cap_private_data capsule) window
        (put_object oid ((hw_objects w oid)\<lparr>ob_programs := map configured_program (ob_programs (hw_objects w oid))\<rparr>) w)"
    using configure_cases [OF assms] by auto
  show ?thesis
    using True ok
    by (auto simp: configured_world_def put_object_def planned_maps_def new_state_def Let_def split: option.split)
qed (use configure_cases [OF assms] in simp)

definition sample_lib :: libbpf where
  "sample_lib = \<lparr>lb_set_autoload = \<lambda>p b. 0, lb_set_max_entries = \<lambda>name m n. if bm_fd m \<ge> 0 then -16 else 0,
     lb_set_map_extra = \<lambda>name m v. if bm_fd m \<ge> 0 then -16 else 0\<rparr>"

definition sample_map :: bpf_map where
  "sample_map = \<lparr>bm_max_entries = 4, bm_map_extra = 0, bm_fd = -1, bm_value_size = 0x400000, bm_flags = 0\<rparr>"

definition sample_step :: bpf_program where
  "sample_step = \<lparr>bp_name = ''step'', bp_section = Some ''freplace/bpf_dispatch_output_1'', bp_flags = 2,
     bp_autoload = True, bp_fd = -1\<rparr>"

definition sample_opened :: bpf_object where
  "sample_opened = \<lparr>ob_maps = [BPF_CAPSULE_SECTION_CONFIG \<mapsto> sample_map, BPF_CAPSULE_MAP_HEAP_ARRAY \<mapsto> sample_map,
       BPF_CAPSULE_MAP_FIBER_LEASES \<mapsto> sample_map, BPF_CAPSULE_MAP_CONTINUATION_CLAIMS \<mapsto> sample_map],
     ob_programs = [sample_step], ob_config = Some (sample_object, 56), ob_arena_control = None,
     ob_arena_image = False, ob_ready = Some (0, 4), ob_fixups = None\<rparr>"

definition sample_world :: host_world where
  "sample_world = \<lparr>hw_capsule = Some \<lparr>cap_object = None, cap_private_data = None\<rparr>,
     hw_objects = \<lambda>_. sample_opened, hw_vm = Map.empty\<rparr>"

lemma sample_lib_ok: "libbpf_ok sample_lib"
  by (simp add: libbpf_ok_def sample_lib_def)

lemma sample_window: "bpf_capsule_reserve_window sample_os Map.empty =
    (0x100000000, snd (bpf_capsule_reserve_window sample_os Map.empty))"
  by (simp add: bpf_capsule_reserve_window_def sample_os_def view_alignment_def Let_def
      BPF_CAPSULE_FUNCTION_TOKEN_SPAN_def BPF_CAPSULE_MANAGED_FUNCTION_TOKEN_SPAN_def
      BPF_CAPSULE_NATIVE_FUNCTION_TOKEN_SPAN_def push_bit_eq_mult)

lemma sample_maps [simp]:
  "ob_maps sample_opened BPF_CAPSULE_SECTION_CONFIG = Some sample_map"
  "ob_maps sample_opened BPF_CAPSULE_MAP_HEAP_ARRAY = Some sample_map"
  "ob_maps sample_opened BPF_CAPSULE_MAP_FIBER_LEASES = Some sample_map"
  "ob_maps sample_opened BPF_CAPSULE_MAP_CONTINUATION_CLAIMS = Some sample_map"
  by (simp_all add: sample_opened_def name_defs)

lemma sample_programs: "configure_programs sample_lib [sample_step] = (0, True, [configured_program sample_step])"
  by (simp add: sample_step_def sample_lib_def configured_program_def bpf_capsule_is_freplace_program_def
      strict_alignment_def BPF_CAPSULE_FREPLACE_PROGRAM_PREFIX_def BPF_CAPSULE_FREPLACE_SECTION_PREFIX_def)

lemma sample_fixed: "cfg_memory_backend sample_object \<noteq> BPF_CAPSULE_MEMORY_ARENA"
  by (simp add: sample_object_def layout_constants)

lemma sample_configures:
  fixes w :: "'a host_world_scheme"
  assumes "hw_capsule w = Some \<lparr>cap_object = None, cap_private_data = None\<rparr>" and "hw_objects w 0 = sample_opened"
    and "hw_vm w = Map.empty"
  shows "fst (bpf_capsule_configure sample_lib sample_os True (Some 0) sample_request w) = 0"
proof -
  let ?ob = "sample_opened\<lparr>ob_programs := [configured_program sample_step]\<rparr>"
  let ?plan = "sample_object\<lparr>cfg_fiber_count := 3, cfg_heap_bytes := 0x100000, cfg_stack_base := 0x800000,
      cfg_memory_end := 0x830000\<rparr>"
  have plan: "bpf_capsule_copy_plan (Some sample_object) 56 sample_request True True = Inr (?plan, 1)"
    using sample_plan by (simp add: bpf_capsule_copy_plan_def config_bytes_def)
  have olds: "old_entries ?ob (fiber_map_names ?plan) =
      Some [(BPF_CAPSULE_MAP_FIBER_LEASES, 4), (BPF_CAPSULE_MAP_CONTINUATION_CLAIMS, 4)]"
    using sample_fixed by (simp add: fiber_map_names_def) (simp add: sample_map_def)
  have backend: "backend_map ?plan = BPF_CAPSULE_MAP_HEAP_ARRAY" using sample_fixed by (simp add: backend_map_def)
  have applied: "fst (apply_plan sample_lib ?plan 3 1 0x100000000
      [(BPF_CAPSULE_MAP_FIBER_LEASES, 4), (BPF_CAPSULE_MAP_CONTINUATION_CLAIMS, 4)] ?ob) = 0"
    using sample_fixed
    by (simp add: apply_plan_def set_max_entries_def backend Let_def) (simp add: sample_lib_def sample_map_def name_defs)
  have install: "fst (install_plan sample_lib sample_os True 0 3 (?plan, 1) 56 True None
      (put_object 0 ?ob w)) = 0"
    using olds applied sample_window assms(3)
    by (auto simp: install_plan_def backend put_object_def Let_def split: prod.splits)
  have closed: "bm_fd sample_map = -1" by (simp add: sample_map_def)
  have opened: "ob_programs sample_opened = [sample_step]" "ob_config sample_opened = Some (sample_object, 56)"
    by (simp_all add: sample_opened_def)
  have request: "req_fiber_count sample_request = 3" by (simp add: sample_request_def)
  have base: "cfg_memory_view_base sample_object = 0" by (simp add: sample_object_def)
  show ?thesis
    using install plan sample_programs closed opened request base assms
    by (simp add: bpf_capsule_configure_def Let_def)
qed

lemma sample_configured: "fst (bpf_capsule_configure sample_lib sample_os True (Some 0) sample_request sample_world) = 0"
  by (rule sample_configures) (simp_all add: sample_world_def)

theorem configure_all_or_nothing_witness:
  "\<exists>w' window. bpf_capsule_configure sample_lib sample_os True (Some 0) sample_request sample_world = (0, w') \<and>
    window \<noteq> 0 \<and> hw_vm w' = reserved_window window Map.empty \<and>
    ob_maps (hw_objects w' 0) BPF_CAPSULE_MAP_FIBER_LEASES = Some (sample_map\<lparr>bm_max_entries := 3\<rparr>)"
proof -
  obtain w' where run: "bpf_capsule_configure sample_lib sample_os True (Some 0) sample_request sample_world = (0, w')"
    using sample_configured by (metis prod.collapse)
  have world: "hw_capsule sample_world = Some \<lparr>cap_object = None, cap_private_data = None\<rparr>"
    "hw_objects sample_world 0 = sample_opened" "hw_vm sample_world = Map.empty"
    by (simp_all add: sample_world_def)
  have opened: "ob_config sample_opened = Some (sample_object, 56)" by (simp add: sample_opened_def)
  have names: "BPF_CAPSULE_MAP_FIBER_LEASES \<in> set (fiber_map_names (sample_object\<lparr>cfg_fiber_count := 3,
      cfg_heap_bytes := 0x100000, cfg_stack_base := 0x800000, cfg_memory_end := 0x830000\<rparr>))"
    using sample_fixed by (simp add: fiber_map_names_def)
  have request: "req_fiber_count sample_request = 3" by (simp add: sample_request_def)
  show ?thesis
    using configure_all_or_nothing [OF sample_lib_ok sample_os_ok run] run names sample_plan
    by (auto simp: world opened request Let_def)
qed

lemma window_low_word: "2 ^ 32 dvd unat (window :: u64) \<Longrightarrow> window AND 0xffffffff = 0"
proof -
  assume "2 ^ 32 dvd unat window"
  then have "unat (window AND mask 32) = 0" by (simp only: unat_mask_mod mod_eq_0_iff_dvd)
  then show ?thesis by (simp add: unat_eq_zero mask_eq_exp_minus_1)
qed



end
