(* ===== verification/Host_Freplace.thy ===== *)
theory Host_Freplace
  imports Host_Configure "HOL-Library.Multiset"
begin

text \<open>
  The freplace steps of an object and the end of a handle's lifetime (\<open>bpf_capsule_host.c\<close>):
  \<open>__bpf_capsule_read_target_functions\<close>, \<open>__bpf_capsule_target_has_function\<close>,
  \<open>__bpf_capsule_load_freplace\<close>, \<open>bpf_capsule_attach_freplace\<close> and \<open>bpf_capsule_release\<close>. The world
  counts the reopened objects and the links that are alive, so that what a failing or a finished
  lifetime leaves behind can be stated. The answers of libbpf and of the allocator are the fields of
  \<open>freplace_lib\<close>; each may depend on the target program it is asked for.
\<close>

section \<open>The target's functions\<close>

definition BPF_F_RDONLY_PROG :: u32 where "BPF_F_RDONLY_PROG = 0x80"

record btf_type =
  bt_func :: bool
  bt_name :: "string option"

text \<open>What the kernel reports of a loaded program; the records are the type ids of its functions.\<close>

record bpf_prog_info =
  pi_btf_id :: u32
  pi_nr_func_info :: u32
  pi_func_info_rec_size :: u32
  pi_records :: "u32 list"

record reopened_object =
  ro_maps :: "(string \<times> bpf_map) list"
  ro_programs :: "bpf_program list"

record freplace_lib = libbpf +
  fl_extension_alloc :: "bpf_program \<Rightarrow> bool"
  fl_open_mem :: "bpf_program \<Rightarrow> int + reopened_object"
  fl_prog_info :: "int \<Rightarrow> nat \<Rightarrow> int + bpf_prog_info"
  fl_records_alloc :: "bpf_program \<Rightarrow> bool"
  fl_btf_load :: "u32 \<Rightarrow> int + (u32 \<Rightarrow> btf_type option)"
  fl_reuse_fd :: "bpf_map \<Rightarrow> int \<Rightarrow> int"
  fl_set_attach_target :: "bpf_program \<Rightarrow> int \<Rightarrow> string \<Rightarrow> int"
  fl_links_alloc :: "bpf_program \<Rightarrow> bool"
  fl_load :: "bpf_program \<Rightarrow> int"
  fl_attach :: "bpf_program \<Rightarrow> bpf_program \<Rightarrow> int"

definition func_info_bytes :: nat where "func_info_bytes = 8"

text \<open>\<open>__bpf_capsule_target_functions\<close>: the type ids of the records and the program's types.\<close>

type_synonym target_functions = "u32 list \<times> (u32 \<Rightarrow> btf_type option)"

definition bpf_capsule_read_target_functions :: "freplace_lib \<Rightarrow> bpf_program \<Rightarrow> int + target_functions" where
  "bpf_capsule_read_target_functions F target =
     (case fl_prog_info F (bp_fd target) 0 of
        Inl e \<Rightarrow> Inl e
      | Inr info \<Rightarrow>
          if pi_btf_id info = 0 \<or> pi_nr_func_info info = 0 \<or> unat (pi_func_info_rec_size info) < func_info_bytes
          then Inl ENODATA
          else if unat (pi_nr_func_info info) > (2 ^ 64 - 1) div unat (pi_func_info_rec_size info) then Inl EOVERFLOW
          else if \<not> fl_records_alloc F target then Inl ENOMEM
          else case fl_prog_info F (bp_fd target) 1 of
            Inl e \<Rightarrow> Inl e
          | Inr info' \<Rightarrow>
              (case fl_btf_load F (pi_btf_id info) of
                 Inl e \<Rightarrow> Inl e
               | Inr btf \<Rightarrow> Inr (take (unat (pi_nr_func_info info')) (pi_records info'), btf)))"

definition bpf_capsule_target_has_function :: "target_functions \<Rightarrow> string \<Rightarrow> bool" where
  "bpf_capsule_target_has_function functions name =
     (case functions of (records, btf) \<Rightarrow>
        list_ex (\<lambda>type_id. case btf type_id of
          Some type \<Rightarrow> bt_func type \<and> bt_name type = Some name | None \<Rightarrow> False) records)"

section \<open>Loading the steps for one target\<close>

record freplace_world = host_world +
  fw_objects :: "nat multiset"
  fw_links :: "nat multiset"
  fw_next :: nat

definition open_object :: "'a freplace_world_scheme \<Rightarrow> nat \<times> 'a freplace_world_scheme" where
  "open_object w = (fw_next w, w\<lparr>fw_objects := add_mset (fw_next w) (fw_objects w), fw_next := Suc (fw_next w)\<rparr>)"

definition create_link :: "'a freplace_world_scheme \<Rightarrow> nat \<times> 'a freplace_world_scheme" where
  "create_link w = (fw_next w, w\<lparr>fw_links := add_mset (fw_next w) (fw_links w), fw_next := Suc (fw_next w)\<rparr>)"

text \<open>The links are destroyed last one first, then the object is closed.\<close>

fun destroy_links :: "nat list \<Rightarrow> 'a freplace_world_scheme \<Rightarrow> 'a freplace_world_scheme" where
  "destroy_links [] w = w"
| "destroy_links (link # links) w = destroy_links links (w\<lparr>fw_links := fw_links w - {#link#}\<rparr>)"

definition bpf_capsule_destroy_extension :: "bpf_capsule_extension \<Rightarrow> 'a freplace_world_scheme \<Rightarrow> 'a freplace_world_scheme" where
  "bpf_capsule_destroy_extension extension w =
     (let w = destroy_links (rev (ex_links extension)) w
      in w\<lparr>fw_objects := fw_objects w - {#ex_object extension#}\<rparr>)"

text \<open>Every mutable map of the reopened object must be one of the base object's.\<close>

fun reuse_maps :: "freplace_lib \<Rightarrow> bpf_object \<Rightarrow> (string \<times> bpf_map) list \<Rightarrow> int" where
  "reuse_maps F base [] = 0"
| "reuse_maps F base ((name, m) # maps) =
     (let fd = (case ob_maps base name of Some base_map \<Rightarrow> bm_fd base_map | None \<Rightarrow> -1)
      in if fd < 0 then (if bm_flags m AND BPF_F_RDONLY_PROG \<noteq> 0 then reuse_maps F base maps else ENOENT)
         else if fl_reuse_fd F m fd \<noteq> 0 then \<bar>fl_reuse_fd F m fd\<bar>
         else reuse_maps F base maps)"

definition target_name_of :: "bpf_program \<Rightarrow> string" where
  "target_name_of program =
     (case bp_section program of
        Some sec \<Rightarrow> drop (length BPF_CAPSULE_FREPLACE_SECTION_PREFIX) sec | None \<Rightarrow> [])"

text \<open>Selecting the steps whose target function the program has; the others are not loaded. The result
  is the error, the number of steps selected and the programs.\<close>

fun select_steps ::
  "freplace_lib \<Rightarrow> bpf_program \<Rightarrow> target_functions \<Rightarrow> bpf_program list \<Rightarrow> int \<times> nat \<times> bpf_program list" where
  "select_steps F target functions [] = (0, 0, [])"
| "select_steps F target functions (program # programs) =
     (let program = strict_alignment program
      in if \<not> bpf_capsule_is_freplace_program program \<or>
            \<not> bpf_capsule_target_has_function functions (target_name_of program) then
           (if lb_set_autoload F program False \<noteq> 0
            then (\<bar>lb_set_autoload F program False\<bar>, 0, program # programs)
            else case select_steps F target functions programs of
              (e, n, programs) \<Rightarrow> (e, n, program\<lparr>bp_autoload := False\<rparr> # programs))
         else if fl_set_attach_target F program (bp_fd target) (target_name_of program) \<noteq> 0
         then (\<bar>fl_set_attach_target F program (bp_fd target) (target_name_of program)\<bar>, 0, program # programs)
         else case select_steps F target functions programs of
           (e, n, programs) \<Rightarrow> (e, Suc n, program # programs))"

text \<open>Attaching what was loaded; the links made so far stay in the extension when one attachment fails.\<close>

fun attach_steps ::
  "freplace_lib \<Rightarrow> bpf_program \<Rightarrow> bpf_program list \<Rightarrow> nat list \<Rightarrow> 'a freplace_world_scheme \<Rightarrow> int \<times> nat list \<times> 'a freplace_world_scheme" where
  "attach_steps F target [] links w = (0, links, w)"
| "attach_steps F target (program # programs) links w =
     (if \<not> bp_autoload program then attach_steps F target programs links w
      else if fl_attach F target program \<noteq> 0 then (\<bar>fl_attach F target program\<bar>, links, w)
      else case create_link w of (link, w) \<Rightarrow> attach_steps F target programs (links @ [link]) w)"

definition bpf_capsule_load_freplace ::
  "freplace_lib \<Rightarrow> bpf_object \<Rightarrow> bpf_program \<Rightarrow> 'a freplace_world_scheme \<Rightarrow>
     (int + bpf_capsule_extension option) \<times> 'a freplace_world_scheme" where
  "bpf_capsule_load_freplace F base target w =
     (if \<not> fl_extension_alloc F target then (Inl ENOMEM, w)
      else case fl_open_mem F target of
        Inl e \<Rightarrow> (Inl e, w)
      | Inr reopened \<Rightarrow>
          (case open_object w of (object, w) \<Rightarrow>
             (let extension = \<lparr>ex_object = object, ex_links = []\<rparr>
              in case bpf_capsule_read_target_functions F target of
                Inl e \<Rightarrow> (Inl e, bpf_capsule_destroy_extension extension w)
              | Inr functions \<Rightarrow>
                  (let e = reuse_maps F base (ro_maps reopened)
                   in if e \<noteq> 0 then (Inl e, bpf_capsule_destroy_extension extension w)
                      else case select_steps F target functions (ro_programs reopened) of
                        (e, program_count, programs) \<Rightarrow>
                          if e \<noteq> 0 then (Inl e, bpf_capsule_destroy_extension extension w)
                          else if program_count = 0 then (Inr None, bpf_capsule_destroy_extension extension w)
                          else if \<not> fl_links_alloc F target
                          then (Inl ENOMEM, bpf_capsule_destroy_extension extension w)
                          else if fl_load F target \<noteq> 0
                          then (Inl \<bar>fl_load F target\<bar>, bpf_capsule_destroy_extension extension w)
                          else case attach_steps F target programs [] w of
                            (e, links, w) \<Rightarrow>
                              (let extension = extension\<lparr>ex_links := links\<rparr>
                               in if e \<noteq> 0 then (Inl e, bpf_capsule_destroy_extension extension w)
                                  else (Inr (Some extension), w))))))"

section \<open>Attaching and releasing\<close>

text \<open>The loop over the targets: the error that stopped it, if any, and the extensions, latest first.\<close>

fun attach_targets ::
  "freplace_lib \<Rightarrow> bpf_object \<Rightarrow> bpf_program list \<Rightarrow> bpf_capsule_extension list \<Rightarrow> 'a freplace_world_scheme \<Rightarrow>
     int option \<times> bpf_capsule_extension list \<times> 'a freplace_world_scheme" where
  "attach_targets F base [] attached w = (None, attached, w)"
| "attach_targets F base (target # targets) attached w =
     (if bpf_capsule_is_freplace_program target \<or> bp_fd target < 0 then attach_targets F base targets attached w
      else case bpf_capsule_load_freplace F base target w of
        (Inl e, w) \<Rightarrow> (Some e, attached, w)
      | (Inr None, w) \<Rightarrow> attach_targets F base targets attached w
      | (Inr (Some extension), w) \<Rightarrow> attach_targets F base targets (extension # attached) w)"

fun destroy_extensions :: "bpf_capsule_extension list \<Rightarrow> 'a freplace_world_scheme \<Rightarrow> 'a freplace_world_scheme" where
  "destroy_extensions [] w = w"
| "destroy_extensions (extension # extensions) w =
     destroy_extensions extensions (bpf_capsule_destroy_extension extension w)"

definition put_state :: "bpf_capsule_state \<Rightarrow> 'a host_world_scheme \<Rightarrow> 'a host_world_scheme" where
  "put_state st w = w\<lparr>hw_capsule := map_option (\<lambda>c. c\<lparr>cap_private_data := Some st\<rparr>) (hw_capsule w)\<rparr>"

text \<open>\<open>object_data\<close> says whether the caller passed the bytes of the object.\<close>

definition bpf_capsule_attach_freplace :: "freplace_lib \<Rightarrow> bool \<Rightarrow> 'a freplace_world_scheme \<Rightarrow> int \<times> 'a freplace_world_scheme" where
  "bpf_capsule_attach_freplace F object_data w =
     (case (hw_capsule w, bpf_capsule_state_of (hw_capsule w)) of
        (Some capsule, Some state) \<Rightarrow>
          (case cap_object capsule of
             None \<Rightarrow> (EINVAL, w)
           | Some oid \<Rightarrow>
               if \<not> object_data then (EINVAL, w)
               else if st_config state \<noteq> None then (EBUSY, w)
               else if \<not> st_freplace_required state then (ENOENT, w)
               else if st_freplace_attached state then (EALREADY, w)
               else case attach_targets F (hw_objects w oid) (ob_programs (hw_objects w oid)) [] w of
                 (Some e, attached, w) \<Rightarrow> (e, destroy_extensions attached w)
               | (None, attached, w) \<Rightarrow>
                   if attached = [] then (ENOENT, w)
                   else (0, put_state (state\<lparr>st_extensions := fold (#) attached (st_extensions state),
                          st_freplace_attached := True\<rparr>) w))
      | _ \<Rightarrow> (EINVAL, w))"

definition bpf_capsule_release :: "host_os \<Rightarrow> 'a freplace_world_scheme \<Rightarrow> int \<times> 'a freplace_world_scheme" where
  "bpf_capsule_release os w =
     (case hw_capsule w of
        None \<Rightarrow> (EINVAL, w)
      | Some capsule \<Rightarrow>
          (case cap_private_data capsule of
             None \<Rightarrow> (0, w\<lparr>hw_capsule := Some (capsule\<lparr>cap_object := None\<rparr>)\<rparr>)
           | Some state \<Rightarrow>
               (let w = put_state (state\<lparr>st_extensions := []\<rparr>) (destroy_extensions (st_extensions state) w);
                    e = (if st_window state \<noteq> 0 then os_munmap os (st_window state) BPF_CAPSULE_MEMORY_WINDOW_SIZE else 0);
                    vm = (if st_window state \<noteq> 0
                          then unmap_span (st_window state) BPF_CAPSULE_MEMORY_WINDOW_SIZE (hw_vm w) else hw_vm w)
                in if e \<noteq> 0 then (e, w)
                   else (0, w\<lparr>hw_vm := vm, hw_capsule := Some \<lparr>cap_object = None, cap_private_data = None\<rparr>\<rparr>))))"

section \<open>What is alive\<close>

definition held_objects :: "bpf_capsule_extension list \<Rightarrow> nat multiset" where
  "held_objects extensions = mset (map ex_object extensions)"

definition held_links :: "bpf_capsule_extension list \<Rightarrow> nat multiset" where
  "held_links extensions = mset (concat (map ex_links extensions))"

text \<open>The two worlds agree but for what is held beyond the first.\<close>

definition holds_more :: "bpf_capsule_extension list \<Rightarrow> 'a freplace_world_scheme \<Rightarrow> 'a freplace_world_scheme \<Rightarrow> bool" where
  "holds_more extensions w w' \<longleftrightarrow> hw_capsule w' = hw_capsule w \<and> hw_objects w' = hw_objects w \<and> hw_vm w' = hw_vm w \<and>
     fw_objects w' = fw_objects w + held_objects extensions \<and> fw_links w' = fw_links w + held_links extensions"

lemma holds_nothing_refl [simp]: "holds_more [] w w"
  by (simp add: holds_more_def held_objects_def held_links_def)

lemma fold_push: "fold (#) xs ys = rev xs @ ys"
  by (induction xs arbitrary: ys) simp_all

lemma held_rev [simp]: "held_objects (rev es) = held_objects es" "held_links (rev es) = held_links es"
  by (induction es) (simp_all add: held_objects_def held_links_def add.commute)

lemma destroy_links_eq: "destroy_links links w = w\<lparr>fw_links := fw_links w - mset links\<rparr>"
  by (induction links arbitrary: w) (simp_all add: diff_diff_add_mset)

lemma destroy_extension_holds:
  assumes "holds_more (extension # extensions) w w'"
  shows "holds_more extensions w (bpf_capsule_destroy_extension extension w')"
  using assms
  by (simp add: holds_more_def held_objects_def held_links_def bpf_capsule_destroy_extension_def Let_def
      destroy_links_eq add.left_commute)

lemma destroy_extensions_holds:
  "holds_more extensions w w' \<Longrightarrow> holds_more [] w (destroy_extensions extensions w')"
  by (induction extensions arbitrary: w') (auto dest: destroy_extension_holds)

lemma attach_steps_holds:
  assumes "attach_steps F target programs links w' = (e, links', w'')"
    and "holds_more (\<lparr>ex_object = object, ex_links = links\<rparr> # extensions) w w'"
  shows "holds_more (\<lparr>ex_object = object, ex_links = links'\<rparr> # extensions) w w'' \<and>
    length links' \<le> length links + length (filter bp_autoload programs)"
  using assms
proof (induction programs arbitrary: links w')
  case (Cons program programs)
  show ?case
  proof (cases "bp_autoload program \<and> fl_attach F target program = 0")
    case True
    obtain link w1 where link: "create_link w' = (link, w1)" by (cases "create_link w'")
    have "holds_more (\<lparr>ex_object = object, ex_links = links @ [link]\<rparr> # extensions) w w1"
      using Cons.prems(2) link by (auto simp: create_link_def holds_more_def held_objects_def held_links_def)
    then show ?thesis using Cons.IH [of "links @ [link]" w1] Cons.prems(1) True link by auto
  qed (use Cons in \<open>auto split: if_splits\<close>)
qed auto

lemma select_steps_count:
  "select_steps F target functions programs = (0, n, programs') \<Longrightarrow> length (filter bp_autoload programs') \<le> n"
proof (induction programs arbitrary: n programs')
  case (Cons program programs)
  then show ?case by (auto simp: Let_def split: if_splits prod.splits)
qed simp

text \<open>What one load leaves: an extension, whose links are no more than the steps selected for the target,
  or nothing at all.\<close>

lemma load_freplace_holds:
  assumes "bpf_capsule_load_freplace F base target w' = (r, w'')" and "holds_more extensions w w'"
  shows "case r of
      Inr (Some extension) \<Rightarrow> holds_more (extension # extensions) w w'' \<and>
        (\<exists>reopened functions n programs. fl_open_mem F target = Inr reopened \<and>
          bpf_capsule_read_target_functions F target = Inr functions \<and>
          select_steps F target functions (ro_programs reopened) = (0, n, programs) \<and>
          length (ex_links extension) \<le> n)
    | _ \<Rightarrow> holds_more extensions w w''"
proof (cases "fl_extension_alloc F target")
  case False
  then show ?thesis using assms by (simp add: bpf_capsule_load_freplace_def split: prod.splits) auto
next
  case alloc: True
  show ?thesis
  proof (cases "fl_open_mem F target")
    case (Inl e)
    then show ?thesis using assms alloc by (auto simp: bpf_capsule_load_freplace_def)
  next
    case reopened: (Inr reopened)
    obtain object w1 where op: "open_object w' = (object, w1)" by (cases "open_object w'")
    let ?ext = "\<lparr>ex_object = object, ex_links = []\<rparr>"
    have w1: "holds_more (?ext # extensions) w w1"
      using assms(2) op by (auto simp: open_object_def holds_more_def held_objects_def held_links_def)
    note gone = destroy_extension_holds [OF w1]
    note def = bpf_capsule_load_freplace_def alloc reopened op Let_def
    show ?thesis
    proof (cases "bpf_capsule_read_target_functions F target")
      case (Inl e)
      then show ?thesis using assms(1) gone by (auto simp: def)
    next
      case (Inr fns)
      obtain e1 n programs where sel: "select_steps F target fns (ro_programs reopened) = (e1, n, programs)"
        by (cases "select_steps F target fns (ro_programs reopened)")
      obtain e2 links w2 where att: "attach_steps F target programs [] w1 = (e2, links, w2)"
        by (cases "attach_steps F target programs [] w1")
      note w2 = attach_steps_holds [OF att w1]
      have "length links \<le> n" if "e1 = 0"
        using w2 select_steps_count [OF sel [unfolded that]] by simp
      then show ?thesis
        using assms(1) gone destroy_extension_holds [OF w2 [THEN conjunct1]] w2 Inr sel att
        by (auto simp: def split: if_splits)
    qed
  qed
qed

lemma attach_targets_holds:
  assumes "attach_targets F base targets attached w' = (r, attached', w'')" and "holds_more attached w w'"
  shows "holds_more attached' w w''"
  using assms
proof (induction targets arbitrary: attached w')
  case (Cons target targets)
  obtain r1 w1 where load: "bpf_capsule_load_freplace F base target w' = (r1, w1)"
    by (cases "bpf_capsule_load_freplace F base target w'")
  note held = load_freplace_holds [OF load Cons.prems(2)]
  show ?case
    using Cons.prems Cons.IH held load by (auto split: if_splits sum.splits option.splits)
qed simp

text \<open>Documented of the calls that report through errno: a failure sets it.\<close>

definition errors_set :: "freplace_lib \<Rightarrow> bool" where
  "errors_set F \<longleftrightarrow> (\<forall>p. fl_open_mem F p \<noteq> Inl 0) \<and> (\<forall>fd k. fl_prog_info F fd k \<noteq> Inl 0) \<and>
     (\<forall>i. fl_btf_load F i \<noteq> Inl 0)"

lemma reuse_maps_nonzero: "reuse_maps F base maps = e \<Longrightarrow> e \<noteq> 0 \<Longrightarrow> 0 < e"
  by (induction maps) (auto simp: Let_def ENOENT_def split: if_splits)

lemma read_target_error:
  assumes "errors_set F"
  shows "bpf_capsule_read_target_functions F target \<noteq> Inl 0"
  using assms
  by (auto simp: errors_set_def bpf_capsule_read_target_functions_def ENODATA_def EOVERFLOW_def ENOMEM_def
      split: sum.splits if_splits)

lemma load_freplace_error:
  assumes "errors_set F" and "bpf_capsule_load_freplace F base target w = (Inl e, w')"
  shows "e \<noteq> 0"
proof
  assume "e = 0"
  then show False
    using assms read_target_error [OF assms(1), of target]
    by (auto simp: bpf_capsule_load_freplace_def errors_set_def ENOMEM_def Let_def split: sum.splits if_splits prod.splits)
qed

lemma attach_targets_error:
  assumes "errors_set F" and "attach_targets F base targets attached w = (Some e, attached', w')"
  shows "e \<noteq> 0"
  using assms(2)
proof (induction targets arbitrary: attached w)
  case (Cons target targets)
  then show ?case
    using load_freplace_error [OF assms(1), of base target w]
    by (auto split: if_splits sum.splits option.splits prod.splits)
qed simp

lemma attach_freplace_cases:
  assumes "errors_set F" and "bpf_capsule_attach_freplace F object_data w = (e, w')"
  shows "if e \<noteq> 0 then holds_more [] w w'
    else \<exists>state made. bpf_capsule_state_of (hw_capsule w) = Some state \<and> made \<noteq> [] \<and>
      holds_more made (put_state (state\<lparr>st_extensions := made @ st_extensions state, st_freplace_attached := True\<rparr>) w) w'"
proof (cases "hw_capsule w")
  case None
  then show ?thesis using assms by (auto simp: bpf_capsule_attach_freplace_def EINVAL_def)
next
  case cap: (Some capsule)
  note def = bpf_capsule_attach_freplace_def bpf_capsule_state_of_def cap EINVAL_def EBUSY_def ENOENT_def EALREADY_def
  show ?thesis
  proof (cases "cap_private_data capsule = None \<or> cap_object capsule = None")
    case True
    then show ?thesis using assms(2) by (auto simp: def split: option.splits)
  next
    case False
    then obtain state oid where st: "cap_private_data capsule = Some state" "cap_object capsule = Some oid" by auto
    obtain r attached w1 where att: "attach_targets F (hw_objects w oid) (ob_programs (hw_objects w oid)) [] w = (r, attached, w1)"
      by (cases "attach_targets F (hw_objects w oid) (ob_programs (hw_objects w oid)) [] w")
    have held: "holds_more attached w w1" by (rule attach_targets_holds [OF att]) simp
    note gone = destroy_extensions_holds [OF held]
    have owned: "holds_more (rev attached) (put_state st' w) (put_state st' w1)" for st'
      using held by (simp add: holds_more_def put_state_def)
    show ?thesis
    proof (cases "object_data \<and> st_config state = None \<and> st_freplace_required state \<and> \<not> st_freplace_attached state")
      case False
      then show ?thesis using assms(2) st by (auto simp: def split: if_splits)
    next
      case ready: True
      show ?thesis
      proof (cases r)
        case None
        then show ?thesis
          using assms(2) st att ready held owned by (auto simp: def fold_push split: if_splits)
      next
        case (Some err)
        then show ?thesis
          using assms(2) st att ready gone attach_targets_error [OF assms(1) att [unfolded Some]] by (auto simp: def)
      qed
    qed
  qed
qed

text \<open>C29: attaching the freplace steps is all or nothing. When \<open>bpf_capsule_attach_freplace\<close> fails,
  whichever target and call it fails at, every object it reopened is closed and every link it made is
  destroyed, and the handle, the object and the address space are unchanged. When it succeeds the
  handle owns exactly the objects and links it made, beyond the ones it had, and at least one.\<close>

theorem attach_freplace_all_or_nothing:
  assumes "errors_set F" and "bpf_capsule_attach_freplace F object_data w = (e, w')"
  shows "if e \<noteq> 0 then holds_more [] w w'
    else \<exists>state made. bpf_capsule_state_of (hw_capsule w) = Some state \<and> made \<noteq> [] \<and>
      holds_more made (put_state (state\<lparr>st_extensions := made @ st_extensions state, st_freplace_attached := True\<rparr>) w) w'"
  by (rule attach_freplace_cases [OF assms])

text \<open>an extension's link array is never overrun. Whatever the reopened object contains and whatever
  libbpf answers, the extension that \<open>__bpf_capsule_load_freplace\<close> returns holds at most as many links
  as the number of selected steps, the size its array was allocated with.\<close>

lemma links_fit_allocation:
  assumes "bpf_capsule_load_freplace F base target w = (Inr (Some extension), w')"
  shows "\<exists>reopened functions n programs. fl_open_mem F target = Inr reopened \<and>
    bpf_capsule_read_target_functions F target = Inr functions \<and>
    select_steps F target functions (ro_programs reopened) = (0, n, programs) \<and> length (ex_links extension) \<le> n"
  using load_freplace_holds [OF assms holds_nothing_refl] by simp

definition sample_freplace_lib :: freplace_lib where
  "sample_freplace_lib = libbpf.extend sample_lib (freplace_lib.fields (\<lambda>_. True)
     (\<lambda>_. Inr \<lparr>ro_maps = [], ro_programs = [sample_step]\<rparr>)
     (\<lambda>_ _. Inr \<lparr>pi_btf_id = 1, pi_nr_func_info = 1, pi_func_info_rec_size = 8, pi_records = [7]\<rparr>)
     (\<lambda>_. True) (\<lambda>_. Inr [7 \<mapsto> \<lparr>bt_func = True, bt_name = Some ''bpf_dispatch_output_1''\<rparr>])
     (\<lambda>_ _. 0) (\<lambda>_ _ _. 0) (\<lambda>_. True) (\<lambda>_. 0) (\<lambda>_ _. 0))"

definition sample_entry_program :: bpf_program where
  "sample_entry_program = \<lparr>bp_name = ''entry'', bp_section = Some ''xdp'', bp_flags = 0, bp_autoload = True, bp_fd = 5\<rparr>"

definition sample_lifetime :: freplace_world where
  "sample_lifetime = host_world.extend
     (sample_world\<lparr>hw_capsule := Some \<lparr>cap_object = Some 0, cap_private_data =
         Some (new_state\<lparr>st_window := 0x100000000, st_freplace_required := True\<rparr>)\<rparr>,
       hw_objects := \<lambda>_. sample_opened\<lparr>ob_programs := [sample_entry_program, configured_program sample_step]\<rparr>\<rparr>)
     (freplace_world.fields {#} {#} 0)"

lemma sample_steps_load:
  "bpf_capsule_load_freplace sample_freplace_lib base sample_entry_program w =
     (Inr (Some \<lparr>ex_object = fw_next w, ex_links = [Suc (fw_next w)]\<rparr>),
      w\<lparr>fw_objects := add_mset (fw_next w) (fw_objects w), fw_links := add_mset (Suc (fw_next w)) (fw_links w),
        fw_next := Suc (Suc (fw_next w))\<rparr>)"
  by (simp add: bpf_capsule_load_freplace_def sample_freplace_lib_def libbpf.defs freplace_lib.defs
      open_object_def create_link_def bpf_capsule_read_target_functions_def func_info_bytes_def sample_lib_def
      sample_step_def sample_entry_program_def bpf_capsule_target_has_function_def target_name_of_def
      bpf_capsule_is_freplace_program_def strict_alignment_def BPF_CAPSULE_FREPLACE_PROGRAM_PREFIX_def
      BPF_CAPSULE_FREPLACE_SECTION_PREFIX_def)

lemma links_fit_allocation_witness:
  "\<exists>reopened functions n programs. fl_open_mem sample_freplace_lib sample_entry_program = Inr reopened \<and>
    bpf_capsule_read_target_functions sample_freplace_lib sample_entry_program = Inr functions \<and>
    select_steps sample_freplace_lib sample_entry_program functions (ro_programs reopened) = (0, n, programs) \<and> 1 \<le> n"
  using links_fit_allocation [OF sample_steps_load [of sample_opened sample_lifetime]] by simp

lemma sample_errors_set: "errors_set sample_freplace_lib"
  by (simp add: errors_set_def sample_freplace_lib_def libbpf.defs freplace_lib.defs)

lemma sample_attached: "fst (bpf_capsule_attach_freplace sample_freplace_lib True sample_lifetime) = 0"
proof -
  have target: "\<not> bpf_capsule_is_freplace_program sample_entry_program" "bp_fd sample_entry_program = 5"
    by (simp_all add: sample_entry_program_def bpf_capsule_is_freplace_program_def
        BPF_CAPSULE_FREPLACE_PROGRAM_PREFIX_def BPF_CAPSULE_FREPLACE_SECTION_PREFIX_def)
  have step: "bpf_capsule_is_freplace_program (configured_program sample_step)"
    by (simp add: sample_step_def configured_program_def bpf_capsule_is_freplace_program_def
        strict_alignment_def BPF_CAPSULE_FREPLACE_PROGRAM_PREFIX_def BPF_CAPSULE_FREPLACE_SECTION_PREFIX_def)
  have w: "hw_capsule sample_lifetime = Some \<lparr>cap_object = Some 0, cap_private_data =
         Some (new_state\<lparr>st_window := 0x100000000, st_freplace_required := True\<rparr>)\<rparr>"
    "ob_programs (hw_objects sample_lifetime 0) = [sample_entry_program, configured_program sample_step]"
    by (simp_all add: sample_lifetime_def host_world.defs freplace_world.defs)
  have st: "st_config new_state = None" "\<not> st_freplace_attached new_state" by (simp_all add: new_state_def)
  show ?thesis
    using target step by (simp add: bpf_capsule_attach_freplace_def bpf_capsule_state_of_def w st sample_steps_load)
qed

theorem attach_freplace_all_or_nothing_witness:
  "\<exists>made w'. bpf_capsule_attach_freplace sample_freplace_lib True sample_lifetime = (0, w') \<and> made \<noteq> [] \<and>
    fw_objects w' = held_objects made"
proof -
  obtain w' where run: "bpf_capsule_attach_freplace sample_freplace_lib True sample_lifetime = (0, w')"
    using sample_attached by (metis prod.collapse)
  have "fw_objects sample_lifetime = {#}"
    by (simp add: sample_lifetime_def host_world.defs freplace_world.defs)
  then show ?thesis
    using attach_freplace_all_or_nothing [OF sample_errors_set run] run by (auto simp: holds_more_def put_state_def)
qed

end
