(* ===== verification/Host_Memory.thy ===== *)
theory Host_Memory
  imports Host_Freplace
begin

text \<open>
  Binding and initializing a loaded object (\<open>bpf_capsule_host.c\<close>): \<open>__bpf_capsule_memory_region\<close>,
  \<open>__bpf_capsule_prepare_memory\<close>, \<open>bpf_capsule_initialize\<close> with the pointer fixups of the fixed tier,
  and the queries \<open>bpf_capsule_memory_start\<close> and \<open>bpf_capsule_memory_size\<close>. The memory the host writes
  through its view is the flat memory that \<open>host_view_is_guest_memory\<close> identifies with the guest's; the
  run of the generated initializer is an argument.
\<close>

section \<open>Binding the maps\<close>

definition BPF_CAPSULE_SECTION_READY :: string where "BPF_CAPSULE_SECTION_READY = ''.data.bpfrdy''"
definition BPF_CAPSULE_SECTION_FIXUPS :: string where "BPF_CAPSULE_SECTION_FIXUPS = ''.rodata.bpffix''"
definition BPF_CAPSULE_SECTION_ARENA_CONTROL :: string where
  "BPF_CAPSULE_SECTION_ARENA_CONTROL = ''.data.bpfctrl''"
definition BPF_CAPSULE_SECTION_DATA_HEAP_PREFIX :: string where
  "BPF_CAPSULE_SECTION_DATA_HEAP_PREFIX = ''.data.heap''"
definition BPF_CAPSULE_SECTION_BSS_HEAP_PREFIX :: string where
  "BPF_CAPSULE_SECTION_BSS_HEAP_PREFIX = ''.bss.heap''"
definition BPF_CAPSULE_PROGRAM_INIT :: string where "BPF_CAPSULE_PROGRAM_INIT = ''bpf_capsule_init''"
definition arena_control_bytes :: nat where "arena_control_bytes = 16"

text \<open>The decimal conversion of \<open>snprintf\<close>.\<close>

fun decimal :: "nat \<Rightarrow> string" where
  "decimal n = (if n < 10 then [char_of (48 + n)] else decimal (n div 10) @ [char_of (48 + n mod 10)])"

declare decimal.simps [simp del]

definition bpf_capsule_memory_region :: "bpf_object \<Rightarrow> nat \<Rightarrow> bpf_map option" where
  "bpf_capsule_memory_region ob index =
     (case ob_maps ob (BPF_CAPSULE_SECTION_DATA_HEAP_PREFIX @ decimal index) of
        Some m \<Rightarrow> Some m
      | None \<Rightarrow> ob_maps ob (BPF_CAPSULE_SECTION_BSS_HEAP_PREFIX @ decimal index))"

primrec region_fds :: "bpf_object \<Rightarrow> nat \<Rightarrow> nat \<Rightarrow> int + int list" where
  "region_fds ob 0 region_count = Inr []"
| "region_fds ob (Suc k) region_count =
     (case bpf_capsule_memory_region ob region_count of
        None \<Rightarrow> Inl ENOENT
      | Some m \<Rightarrow>
          if bm_value_size m \<noteq> BPF_CAPSULE_MEMORY_REGION_SIZE then Inl EFAULT
          else (case region_fds ob k (Suc region_count) of
                  Inl e \<Rightarrow> Inl e | Inr fds \<Rightarrow> Inr (bm_fd m # fds)))"

definition overflow_of :: "bpf_object \<Rightarrow> overflow_map" where
  "overflow_of ob =
     (case ob_maps ob BPF_CAPSULE_MAP_HEAP_ARRAY of
        None \<Rightarrow> \<lparr>ov_fd = -1, ov_value_size = 0, ov_entries = 0\<rparr>
      | Some m \<Rightarrow> \<lparr>ov_fd = bm_fd m, ov_value_size = bm_value_size m, ov_entries = bm_max_entries m\<rparr>)"

text \<open>The record is checked again after the load.\<close>

definition record_consistent :: "object_config \<Rightarrow> bool" where
  "record_consistent config =
     (let heap_end = (ucast (cfg_heap_base config) :: u64) + ucast (cfg_heap_bytes config);
          stack_bytes = (ucast (cfg_stack_bytes_per_fiber config) :: u64) * ucast (cfg_fiber_count config)
      in \<not> (\<not> bpf_capsule_layout_header_valid config \<or> cfg_fiber_count config = 0 \<or>
           cfg_fiber_count config > cfg_max_fibers config \<or> heap_end > ucast (cfg_stack_base config) \<or>
           (ucast (cfg_stack_base config) :: u64) > 0xffffffff \<or>
           stack_bytes > push_bit 32 1 - ucast (cfg_stack_base config) \<or>
           ucast (cfg_memory_end config) \<noteq> ucast (cfg_stack_base config) + stack_bytes))"

definition prepare_arena ::
  "host_os \<Rightarrow> bpf_object \<Rightarrow> object_config \<Rightarrow> bpf_capsule_state \<Rightarrow> int \<times> bpf_capsule_state" where
  "prepare_arena os ob config st =
     (case ob_maps ob BPF_CAPSULE_MAP_ARENA of
        None \<Rightarrow> (ENOENT, st)
      | Some arena \<Rightarrow>
          (case (ob_maps ob BPF_CAPSULE_SECTION_ARENA_CONTROL, ob_arena_control ob) of
             (Some _, Some (_, control_size)) \<Rightarrow>
               if control_size < arena_control_bytes then (EFAULT, st)
               else if \<not> ob_arena_image ob \<or> os_page_size os = 0 \<or>
                    unat (bm_max_entries arena) > (2 ^ 64 - 1) div unat (os_page_size os) then (EFAULT, st)
               else (0, st\<lparr>st_arena_control := True, st_config := Some config\<rparr>)
           | _ \<Rightarrow> (EFAULT, st)))"

definition prepare_fixed ::
  "host_os \<Rightarrow> bpf_object \<Rightarrow> object_config \<Rightarrow> bpf_capsule_state \<Rightarrow> address_space \<Rightarrow>
     int \<times> bpf_capsule_state \<times> address_space" where
  "prepare_fixed os ob config st vm =
     (if cfg_memory_backend config \<noteq> BPF_CAPSULE_MEMORY_FIXED \<or> ob_maps ob BPF_CAPSULE_MAP_ARENA \<noteq> None
      then (EINVAL, st, vm)
      else case region_fds ob (unat (cfg_direct_memory_regions config)) 0 of
        Inl e \<Rightarrow> (e, st, vm)
      | Inr fds \<Rightarrow>
          (case map_view os config fds (overflow_of ob) vm of
             (e, vm) \<Rightarrow> (e, if e = 0 then st\<lparr>st_config := Some config\<rparr> else st, vm)))"

definition bpf_capsule_prepare_memory :: "host_os \<Rightarrow> 'a host_world_scheme \<Rightarrow> int \<times> 'a host_world_scheme" where
  "bpf_capsule_prepare_memory os w =
     (case (hw_capsule w, bpf_capsule_state_of (hw_capsule w)) of
        (Some capsule, Some state) \<Rightarrow>
          (case cap_object capsule of
             None \<Rightarrow> (EINVAL, w)
           | Some oid \<Rightarrow>
               if st_window state = 0 then (EINVAL, w)
               else if st_config state \<noteq> None then (0, w)
               else
                 (let ob = hw_objects w oid; state = state\<lparr>st_arena_control := False\<rparr>; w = put_state state w
                  in case (ob_maps ob BPF_CAPSULE_SECTION_CONFIG, ob_config ob) of
                       (Some _, Some (config, config_size)) \<Rightarrow>
                         if config_size < config_bytes then (ENOENT, w)
                         else if cfg_memory_view_base config \<noteq> st_window state then (EINVAL, w)
                         else if \<not> record_consistent config then (EINVAL, w)
                         else if cfg_memory_backend config = BPF_CAPSULE_MEMORY_ARENA then
                           (case prepare_arena os ob config state of (e, state) \<Rightarrow> (e, put_state state w))
                         else
                           (case prepare_fixed os ob config state (hw_vm w) of
                              (e, state, vm) \<Rightarrow> (e, put_state state (w\<lparr>hw_vm := vm\<rparr>)))
                     | _ \<Rightarrow> (ENOENT, w)))
      | _ \<Rightarrow> (EINVAL, w))"

section \<open>Initializing\<close>

record memory_world = freplace_world +
  mw_memory :: bytes

text \<open>Adding the window to every slot of the fixup table; the table was checked slot by slot.\<close>

fun apply_fixups :: "object_config \<Rightarrow> u64 \<Rightarrow> u64 list \<Rightarrow> bytes \<Rightarrow> int \<times> bytes" where
  "apply_fixups config window [] m = (0, m)"
| "apply_fixups config window (slot # slots) m =
     (if slot < ucast BPF_CAPSULE_ARENA_PAGE_SIZE \<or> slot > ucast (cfg_heap_base config) - 8 then (EFAULT, m)
      else (let v = load_le m (unat slot) 8 + window
            in apply_fixups config window slots (store_le m (unat slot) 8 v)))"

definition find_program :: "bpf_object \<Rightarrow> string \<Rightarrow> bpf_program option" where
  "find_program ob name = find (\<lambda>p. bp_name p = name) (ob_programs ob)"

text \<open>Running the generated initializer: \<open>test_run\<close> answers the error, the program's return value and the
  world it leaves.\<close>

definition run_initializer ::
  "(int \<Rightarrow> memory_world \<Rightarrow> int \<times> int \<times> memory_world) \<Rightarrow> bpf_object \<Rightarrow> memory_world \<Rightarrow> int \<times> memory_world" where
  "run_initializer test_run ob w =
     (case find_program ob BPF_CAPSULE_PROGRAM_INIT of
        None \<Rightarrow> (0, w)
      | Some initializer \<Rightarrow>
          if bp_fd initializer < 0 then (- bp_fd initializer, w)
          else (case test_run (bp_fd initializer) w of
                  (error, retval, w) \<Rightarrow>
                    if error \<noteq> 0 then (\<bar>error\<bar>, w) else if retval < 0 then (- retval, w) else (0, w)))"

definition publish_ready :: "nat \<Rightarrow> bpf_object \<Rightarrow> bpf_capsule_state \<Rightarrow> memory_world \<Rightarrow> int \<times> memory_world" where
  "publish_ready oid ob state w =
     (let finished = put_state (state\<lparr>st_initialized := True\<rparr>)
      in case ob_maps ob BPF_CAPSULE_SECTION_READY of
           None \<Rightarrow> (0, finished w)
         | Some _ \<Rightarrow>
             (case ob_ready ob of
                None \<Rightarrow> (EFAULT, w)
              | Some (ready, ready_size) \<Rightarrow>
                  if ready_size < 4 then (EFAULT, w)
                  else if ready \<noteq> 0 then (0, finished w)
                  else
                    (let publish = \<lambda>w. finished (put_object oid (ob\<lparr>ob_ready := Some (1, ready_size)\<rparr>) w)
                     in case (ob_maps ob BPF_CAPSULE_SECTION_FIXUPS, st_config state) of
                          (Some _, Some config) \<Rightarrow>
                            (case ob_fixups ob of
                               None \<Rightarrow> (EFAULT, w)
                             | Some slots \<Rightarrow>
                                 (case apply_fixups config (cfg_memory_view_base config) slots (mw_memory w) of
                                    (e, m) \<Rightarrow> if e \<noteq> 0 then (e, w\<lparr>mw_memory := m\<rparr>)
                                              else (0, publish (w\<lparr>mw_memory := m\<rparr>))))
                        | _ \<Rightarrow> (0, publish w))))"

definition bpf_capsule_initialize ::
  "host_os \<Rightarrow> (int \<Rightarrow> memory_world \<Rightarrow> int \<times> int \<times> memory_world) \<Rightarrow> memory_world \<Rightarrow> int \<times> memory_world" where
  "bpf_capsule_initialize os test_run w =
     (case (hw_capsule w, bpf_capsule_state_of (hw_capsule w)) of
        (Some capsule, Some state) \<Rightarrow>
          (case cap_object capsule of
             None \<Rightarrow> (EINVAL, w)
           | Some oid \<Rightarrow>
               if st_window state = 0 then (EINVAL, w)
               else if st_freplace_required state \<and> \<not> st_freplace_attached state then (ENOLINK, w)
               else
                 (case run_initializer test_run (hw_objects w oid) w of
                    (e, w) \<Rightarrow>
                      if e \<noteq> 0 then (e, w)
                      else (case bpf_capsule_prepare_memory os w of
                              (e, w) \<Rightarrow>
                                if e \<noteq> 0 then (e, w)
                                else (case bpf_capsule_state_of (hw_capsule w) of
                                        None \<Rightarrow> (EINVAL, w)
                                      | Some state \<Rightarrow> publish_ready oid (hw_objects w oid) state w))))
      | _ \<Rightarrow> (EINVAL, w))"

definition bpf_capsule_memory_size :: "'a host_world_scheme \<Rightarrow> u64" where
  "bpf_capsule_memory_size w =
     (case bpf_capsule_state_of (hw_capsule w) of
        None \<Rightarrow> 0
      | Some state \<Rightarrow> (case st_config state of None \<Rightarrow> 0 | Some config \<Rightarrow> ucast (cfg_memory_end config)))"

text \<open>On the arena tier the base is read from the control words the object publishes.\<close>

definition bpf_capsule_memory_start :: "'a host_world_scheme \<Rightarrow> u64" where
  "bpf_capsule_memory_start w =
     (case (hw_capsule w, bpf_capsule_state_of (hw_capsule w)) of
        (Some capsule, Some state) \<Rightarrow>
          (case (st_config state, cap_object capsule) of
             (Some config, Some oid) \<Rightarrow>
               if st_arena_control state
               then (case ob_arena_control (hw_objects w oid) of Some ((_, virtual_base), _) \<Rightarrow> virtual_base | None \<Rightarrow> 0)
               else cfg_memory_view_base config
           | _ \<Rightarrow> 0)
      | _ \<Rightarrow> 0)"

section \<open>The fixups\<close>

text \<open>Slots that do not overlap.\<close>

definition slots_apart :: "u64 list \<Rightarrow> bool" where
  "slots_apart = sorted_wrt (\<lambda>a b. unat a + 8 \<le> unat b \<or> unat b + 8 \<le> unat a)"

definition in_slots :: "u64 list \<Rightarrow> nat \<Rightarrow> bool" where
  "in_slots slots x \<longleftrightarrow> (\<exists>slot\<in>set slots. unat slot \<le> x \<and> x < unat slot + 8)"

lemma apply_fixups_spec:
  assumes "apply_fixups config window slots m = (0, m')" and "slots_apart slots"
  shows "(\<forall>slot\<in>set slots. load_le m' (unat slot) 8 = load_le m (unat slot) 8 + window) \<and>
    (\<forall>x. \<not> in_slots slots x \<longrightarrow> m' x = m x)"
  using assms
proof (induction slots arbitrary: m)
  case (Cons slot slots)
  let ?m = "store_le m (unat slot) 8 (load_le m (unat slot) 8 + window)"
  have run: "apply_fixups config window slots ?m = (0, m')"
    using Cons.prems(1) by (auto simp: Let_def EFAULT_def split: if_splits)
  have apart: "slots_apart slots" "\<And>s. s \<in> set slots \<Longrightarrow> unat slot + 8 \<le> unat s \<or> unat s + 8 \<le> unat slot"
    using Cons.prems(2) by (auto simp: slots_apart_def)
  note ih = Cons.IH [OF run apart(1)]
  have other: "load_le ?m (unat s) 8 = load_le m (unat s) 8" if "s \<in> set slots" for s
    by (rule load_store_other) (use apart(2) [OF that] in auto)
  have "load_le m' (unat slot) 8 = load_le ?m (unat slot) 8"
  proof (rule load_le_cong)
    fix i :: nat assume "i < 8"
    then have "\<not> in_slots slots (unat slot + i)" using apart(2) by (fastforce simp: in_slots_def)
    then show "m' (unat slot + i) = ?m (unat slot + i)" using ih by blast
  qed
  moreover have "load_le ?m (unat slot) 8 = load_le m (unat slot) 8 + window"
    using load_store_same [of 8 m "unat slot" "load_le m (unat slot) 8 + window"]
      take_bit_length_eq [of "load_le m (unat slot) 8 + window"] by simp
  moreover have "m' x = m x" if "\<not> in_slots (slot # slots) x" for x
    using that ih store_le_other [of x "unat slot" 8 m] by (auto simp: in_slots_def not_le not_less)
  ultimately show ?case using ih other by simp
qed simp

lemma put_state_simps [simp]:
  "hw_objects (put_state st w) = hw_objects w" "hw_vm (put_state st w) = hw_vm w"
  "host_world.more (put_state st w) = host_world.more w"
  "hw_capsule (put_state st w) = map_option (\<lambda>c. c\<lparr>cap_private_data := Some st\<rparr>) (hw_capsule w)"
  by (simp_all add: put_state_def)

lemma prepare_keeps_rest:
  assumes "bpf_capsule_prepare_memory os w = (e, w')"
  shows "hw_objects w' = hw_objects w" and "host_world.more w' = host_world.more w"
    and "map_option cap_object (hw_capsule w') = map_option cap_object (hw_capsule w)"
  using assms
  by (auto simp: bpf_capsule_prepare_memory_def bpf_capsule_state_of_def Let_def split: option.splits prod.splits if_splits)


lemma region_fds_error: "region_fds ob k i \<noteq> Inl 0"
  by (induction k arbitrary: i) (auto simp: ENOENT_def EFAULT_def split: option.splits sum.splits)

text \<open>A bound state: the record it is bound to carries its window.\<close>

definition state_bound :: "bpf_capsule_state \<Rightarrow> bool" where
  "state_bound state = (case st_config state of None \<Rightarrow> True | Some config \<Rightarrow> cfg_memory_view_base config = st_window state)"

lemma prepare_binds:
  assumes "bpf_capsule_prepare_memory os w = (0, w')" and "hw_capsule w = Some capsule"
    and "cap_private_data capsule = Some state" and "state_bound state"
  obtains state' config where "hw_capsule w' = Some (capsule\<lparr>cap_private_data := Some state'\<rparr>)"
    and "st_config state' = Some config" and "st_window state' = st_window state" and "state_bound state'"
    and "st_freplace_required state' = st_freplace_required state"
    and "st_freplace_attached state' = st_freplace_attached state"
proof (cases "st_config state")
  case (Some config)
  then show ?thesis
    using that [of state config] assms
    unfolding state_bound_def by (auto simp: bpf_capsule_prepare_memory_def bpf_capsule_state_of_def EINVAL_def split: option.splits if_splits)
next
  case None
  note def = bpf_capsule_prepare_memory_def bpf_capsule_state_of_def prepare_arena_def prepare_fixed_def Let_def
    EINVAL_def ENOENT_def EFAULT_def
  show ?thesis
    using that assms None region_fds_error
    unfolding state_bound_def by (auto simp: def split: option.splits if_splits prod.splits sum.splits)
qed

text \<open>C30: on the fixed tier initialization rebases every pointer slot exactly once. When
  \<open>bpf_capsule_initialize\<close> first succeeds on an object that is not ready, each slot of the fixup table
  holds its baked displacement plus the window base, every byte outside the slots is as loaded, and
  the readiness word is set; every later call succeeds and changes no memory.\<close>

theorem initialize_rebases_once:
  assumes "bpf_capsule_initialize os test_run w = (0, w')"
    and "hw_capsule w = Some capsule" and "cap_object capsule = Some oid"
    and "cap_private_data capsule = Some state" and "state_bound state"
    and "find_program (hw_objects w oid) BPF_CAPSULE_PROGRAM_INIT = None"
    and "ob_maps (hw_objects w oid) BPF_CAPSULE_SECTION_READY \<noteq> None" and "ob_ready (hw_objects w oid) = Some (0, n)"
    and "ob_maps (hw_objects w oid) BPF_CAPSULE_SECTION_FIXUPS \<noteq> None" and "ob_fixups (hw_objects w oid) = Some slots"
    and "slots_apart slots"
  shows "(\<forall>slot\<in>set slots. load_le (mw_memory w') (unat slot) 8 =
      load_le (mw_memory w) (unat slot) 8 + st_window state) \<and>
    (\<forall>x. \<not> in_slots slots x \<longrightarrow> mw_memory w' x = mw_memory w x) \<and>
    ob_ready (hw_objects w' oid) = Some (1, n) \<and>
    (\<exists>w''. bpf_capsule_initialize os test_run w' = (0, w'') \<and> mw_memory w'' = mw_memory w')"
proof -
  note st = assms(4)
  note def = bpf_capsule_initialize_def bpf_capsule_state_of_def run_initializer_def
  have ok: "st_window state \<noteq> 0" "st_freplace_required state \<longrightarrow> st_freplace_attached state"
    using assms(1-6) by (auto simp: def EINVAL_def ENOLINK_def split: if_splits)
  obtain e w1 where prep: "bpf_capsule_prepare_memory os w = (e, w1)" by (cases "bpf_capsule_prepare_memory os w")
  have e: "e = 0" using assms(1-6) ok prep by (auto simp: def split: if_splits)
  obtain state' config where s': "hw_capsule w1 = Some (capsule\<lparr>cap_private_data := Some state'\<rparr>)"
    "st_config state' = Some config" "st_window state' = st_window state" "state_bound state'"
    "st_freplace_required state' = st_freplace_required state" "st_freplace_attached state' = st_freplace_attached state"
    by (rule prepare_binds [OF prep [unfolded e] assms(2,4,5)])
  have window: "cfg_memory_view_base config = st_window state" using s'(2-4) by (simp add: state_bound_def)
  note keep = prepare_keeps_rest [OF prep]
  have mem: "mw_memory w1 = mw_memory w" using keep(2) by (cases w; cases w1) simp
  have pub: "publish_ready oid (hw_objects w oid) state' w1 = (0, w')"
    using assms(1-6) ok prep e s' keep(1) by (auto simp: def)
  obtain m where m: "apply_fixups config (st_window state) slots (mw_memory w) = (0, m)"
    and w': "w' = put_state (state'\<lparr>st_initialized := True\<rparr>)
      (put_object oid ((hw_objects w oid)\<lparr>ob_ready := Some (1, n)\<rparr>) (w1\<lparr>mw_memory := m\<rparr>))"
    and n: "\<not> n < 4"
    using pub assms(7-10) s'(2) mem window
    by (auto simp: publish_ready_def Let_def EFAULT_def split: if_splits prod.splits)
  have again: "bpf_capsule_initialize os test_run w' = (0, put_state (state'\<lparr>st_initialized := True\<rparr>) w')"
    using assms(3,6,7) ok s' n
    by (auto simp: w' def bpf_capsule_prepare_memory_def publish_ready_def put_object_def find_program_def Let_def)
  have w'_mem: "mw_memory w' = m" "mw_memory (put_state st'' w') = m" for st''
    by (simp_all add: w' put_state_def put_object_def)
  show ?thesis
    using apply_fixups_spec [OF m assms(11)] again w'_mem by (auto simp: w' put_object_def)
qed

definition sample_loaded :: bpf_object where
  "sample_loaded = \<lparr>ob_maps = [BPF_CAPSULE_SECTION_CONFIG \<mapsto> sample_map\<lparr>bm_fd := 3\<rparr>,
       ''.data.heap0'' \<mapsto> sample_map\<lparr>bm_fd := 7\<rparr>, ''.bss.heap1'' \<mapsto> sample_map\<lparr>bm_fd := 8\<rparr>,
       BPF_CAPSULE_MAP_HEAP_ARRAY \<mapsto> sample_map\<lparr>bm_fd := 9, bm_max_entries := 1\<rparr>,
       BPF_CAPSULE_SECTION_READY \<mapsto> sample_map, BPF_CAPSULE_SECTION_FIXUPS \<mapsto> sample_map],
     ob_programs = [], ob_config = Some (sample_bound, 56), ob_arena_control = None, ob_arena_image = False,
     ob_ready = Some (0, 4), ob_fixups = Some [0x1000, 0x1010]\<rparr>"

definition sample_memory :: bytes where
  "sample_memory a = (if a = 0x1001 then 0x20 else if a = 0x1011 then 0x30 else 0)"

definition sample_started :: memory_world where
  "sample_started = \<lparr>hw_capsule = Some \<lparr>cap_object = Some 0, cap_private_data = Some (new_state\<lparr>st_window := 0x100000000\<rparr>)\<rparr>,
     hw_objects = \<lambda>_. sample_loaded, hw_vm = Map.empty, fw_objects = {#}, fw_links = {#}, fw_next = 0,
     mw_memory = sample_memory\<rparr>"

lemma sample_loaded_maps:
  "ob_maps sample_loaded BPF_CAPSULE_SECTION_CONFIG = Some (sample_map\<lparr>bm_fd := 3\<rparr>)"
  "ob_maps sample_loaded BPF_CAPSULE_MAP_ARENA = None"
  "overflow_of sample_loaded = \<lparr>ov_fd = 9, ov_value_size = 0x400000, ov_entries = 1\<rparr>"
  "region_fds sample_loaded 2 0 = Inr [7, 8]"
  by (simp_all add: sample_loaded_def name_defs overflow_of_def sample_map_def numeral_2_eq_2 decimal.simps
      bpf_capsule_memory_region_def BPF_CAPSULE_SECTION_DATA_HEAP_PREFIX_def BPF_CAPSULE_SECTION_BSS_HEAP_PREFIX_def
      BPF_CAPSULE_SECTION_READY_def BPF_CAPSULE_SECTION_FIXUPS_def layout_constants char_of_def bit_Suc_0_iff)

lemma sample_bound_consistent:
  "record_consistent sample_bound" "cfg_memory_backend sample_bound = BPF_CAPSULE_MEMORY_FIXED"
  "cfg_direct_memory_regions sample_bound = 2" "cfg_memory_view_base sample_bound = 0x100000000"
  "cfg_heap_base sample_bound = 0x5000"
  by (simp_all add: sample_bound_def sample_object_def record_consistent_def bpf_capsule_layout_header_valid_def
      BPF_CAPSULE_MAX_FIBERS_LIMIT_def layout_constants Let_def)

lemma sample_initialized: "fst (bpf_capsule_initialize sample_os test_run sample_started) = 0"
proof -
  obtain vm' where view: "map_view sample_os sample_bound [7, 8] \<lparr>ov_fd = 9, ov_value_size = 0x400000, ov_entries = 1\<rparr>
      (Map.empty :: address_space) = (0, vm')"
    using sample_view_mapped [of Map.empty] by (metis prod.collapse)
  have fixed: "BPF_CAPSULE_MEMORY_FIXED \<noteq> BPF_CAPSULE_MEMORY_ARENA" by (simp add: layout_constants)
  have ob: "ob_config sample_loaded = Some (sample_bound, 56)" "ob_programs sample_loaded = []"
    "ob_ready sample_loaded = Some (0, 4)" "ob_fixups sample_loaded = Some [0x1000, 0x1010]"
    "ob_maps sample_loaded BPF_CAPSULE_SECTION_READY = Some sample_map"
    "ob_maps sample_loaded BPF_CAPSULE_SECTION_FIXUPS = Some sample_map"
    by (simp_all add: sample_loaded_def name_defs BPF_CAPSULE_SECTION_READY_def BPF_CAPSULE_SECTION_FIXUPS_def)
  show ?thesis
    by (simp add: bpf_capsule_initialize_def bpf_capsule_prepare_memory_def bpf_capsule_state_of_def sample_started_def
        new_state_def run_initializer_def find_program_def ob sample_loaded_maps sample_bound_consistent prepare_fixed_def
        fixed view config_bytes_def publish_ready_def put_state_def Let_def layout_constants)
qed

theorem initialize_rebases_once_witness:
  "\<exists>w'. bpf_capsule_initialize sample_os (\<lambda>_ w. (0, 0, w)) sample_started = (0, w') \<and>
    load_le (mw_memory w') 0x1000 8 = load_le sample_memory 0x1000 8 + 0x100000000"
proof -
  obtain w' where run: "bpf_capsule_initialize sample_os (\<lambda>_ w. (0, 0, w)) sample_started = (0, w')"
    using sample_initialized by (metis prod.collapse)
  let ?capsule = "\<lparr>cap_object = Some 0, cap_private_data = Some (new_state\<lparr>st_window := 0x100000000\<rparr>)\<rparr>"
  have "hw_capsule sample_started = Some ?capsule" "cap_object ?capsule = Some 0"
    "cap_private_data ?capsule = Some (new_state\<lparr>st_window := 0x100000000\<rparr>)"
    "state_bound (new_state\<lparr>st_window := 0x100000000\<rparr>)"
    "find_program (hw_objects sample_started 0) BPF_CAPSULE_PROGRAM_INIT = None"
    "ob_maps (hw_objects sample_started 0) BPF_CAPSULE_SECTION_READY \<noteq> None" "ob_ready (hw_objects sample_started 0) = Some (0, 4)"
    "ob_maps (hw_objects sample_started 0) BPF_CAPSULE_SECTION_FIXUPS \<noteq> None"
    "ob_fixups (hw_objects sample_started 0) = Some [0x1000, 0x1010]" "slots_apart [0x1000, 0x1010]"
    by (simp_all add: sample_started_def state_bound_def new_state_def sample_loaded_def find_program_def slots_apart_def
        BPF_CAPSULE_SECTION_READY_def BPF_CAPSULE_SECTION_FIXUPS_def name_defs)
  note once = initialize_rebases_once [OF run this]
  show ?thesis using run once by (auto simp: sample_started_def)
qed

section \<open>A whole lifetime\<close>

text \<open>The page size is a power of two.\<close>

definition page_ok :: "host_os \<Rightarrow> bool" where
  "page_ok os \<longleftrightarrow> (\<exists>k. os_page_size os = 2 ^ k)"

lemma usable_page:
  assumes "view_usable os config n overflow" and "page_ok os"
  shows "unat (os_page_size os) \<le> 2 ^ 22"
proof -
  obtain k where k: "os_page_size os = 2 ^ k" using assms(2) by (auto simp: page_ok_def)
  have "(ucast BPF_CAPSULE_MEMORY_REGION_SIZE :: u64) = push_bit 22 1"
    by (simp add: BPF_CAPSULE_MEMORY_REGION_SIZE_def BPF_CAPSULE_MEMORY_REGION_SHIFT_def push_bit_eq_mult)
  then have "push_bit 22 1 AND mask k = (0 :: u64)"
    using assms(1) k by (simp add: view_usable_def Let_def mask_eq_exp_minus_1)
  then have "\<not> bit (push_bit 22 1 AND mask k :: u64) 22" by simp
  then have "k \<le> 22" by (auto simp: bit_simps)
  then have "(2::nat) ^ k \<le> 2 ^ 22" by (intro power_increasing) simp_all
  moreover have "unat (2 ^ k :: u64) = 2 ^ k"
    using unat_of_nat_small [of "2 ^ k", where 'a = 64] calculation by simp
  ultimately show ?thesis using k by simp
qed

lemma map_view_outside:
  assumes "map_view os config fds overflow vm = (e, vm')" and "page_ok os"
    and "2 ^ 32 \<le> unat (a - cfg_memory_view_base config)"
  shows "vm' a = vm a"
proof (cases "cfg_memory_view_base config = 0 \<or> \<not> view_usable os config (length fds) overflow")
  case True
  then show ?thesis using assms(1) by (auto simp: map_view_def Let_def split: if_splits)
next
  case False
  let ?base = "cfg_memory_view_base config" and ?n = "length fds + unat (ov_entries overflow)"
  obtain e1 r vm1 where loop: "view_loop os ?base fds (ov_fd overflow) ?n 0 vm = (e1, r, vm1)"
    by (cases "view_loop os ?base fds (ov_fd overflow) ?n 0 vm")
  have n: "?n \<le> 1024" using False by (simp add: view_usable_def Let_def)
  note maps = view_loop_maps [OF loop, simplified, OF n]
  have r: "r * 2 ^ 22 \<le> 1024 * 2 ^ 22" using maps n by (intro mult_le_mono1) linarith
  then have out: "\<not> unat (a - ?base) < r * 2 ^ 22" using assms(3) by simp
  have "r \<le> 1024" using maps n by simp
  note size = region_bytes_nat [OF this]
  have page: "\<not> unat (a - ?base) < unat (os_page_size os)"
    using usable_page [OF _ assms(2)] False assms(3) by fastforce
  have "vm1 a = vm a" using maps out by simp
  moreover have "vm' a = vm1 a"
    using assms(1) False loop out page size
    by (auto simp: map_view_def Let_def bpf_capsule_restore_reservation_def map_span_def in_span_def word_less_nat_alt
        split: if_splits)
  ultimately show ?thesis by simp
qed

text \<open>A handle in a world that began as \<open>w\<close>: empty, with nothing left of it, or owning a window that was
  unmapped at the start, outside of which the address space is as it was, and exactly the objects and
  links of its extensions.\<close>

definition lifetime_inv :: "'a freplace_world_scheme \<Rightarrow> 'a freplace_world_scheme \<Rightarrow> bool" where
  "lifetime_inv w w' \<longleftrightarrow>
     (hw_capsule w' = Some \<lparr>cap_object = None, cap_private_data = None\<rparr> \<and> hw_vm w' = hw_vm w \<and>
      fw_objects w' = fw_objects w \<and> fw_links w' = fw_links w) \<or>
     (\<exists>oid st. hw_capsule w' = Some \<lparr>cap_object = Some oid, cap_private_data = Some st\<rparr> \<and> st_window st \<noteq> 0 \<and>
      state_bound st \<and>
      (\<forall>a. if in_span (st_window st) BPF_CAPSULE_MEMORY_WINDOW_SIZE a then hw_vm w a = None
           else hw_vm w' a = hw_vm w a) \<and>
      fw_objects w' = fw_objects w + held_objects (st_extensions st) \<and>
      fw_links w' = fw_links w + held_links (st_extensions st))"

lemma lifetime_cong:
  assumes "hw_capsule w2 = hw_capsule w1" and "hw_vm w2 = hw_vm w1" and "fw_objects w2 = fw_objects w1"
    and "fw_links w2 = fw_links w1"
  shows "lifetime_inv w w2 = lifetime_inv w w1"
  using assms by (simp only: lifetime_inv_def)

lemma state_bound_initialized [simp]: "state_bound (st\<lparr>st_initialized := b\<rparr>) = state_bound st"
  by (cases "st_config st") (simp_all add: state_bound_def)

lemma outside_window: "\<not> in_span window BPF_CAPSULE_MEMORY_WINDOW_SIZE a \<Longrightarrow> 2 ^ 32 \<le> unat (a - window)"
  by (simp add: in_span_def word_less_nat_alt)

lemma same_extension:
  assumes "host_world.more (w' :: 'a freplace_world_scheme) = host_world.more w"
  shows "fw_objects w' = fw_objects w" and "fw_links w' = fw_links w"
  using assms by (cases w; cases w'; simp)+

lemma configure_lifetime:
  assumes "libbpf_ok L" and "os_ok os" and "hw_capsule w = Some \<lparr>cap_object = None, cap_private_data = None\<rparr>"
    and "bpf_capsule_configure L os memory object requested (w :: 'a freplace_world_scheme) = (e, w')"
  shows "lifetime_inv w w'"
proof (cases "e = 0")
  case False
  then have same: "same_but_programs w w'" using configure_cases [OF assms(1,2,4)] by simp
  then show ?thesis
    using assms(3) same_extension [of w' w] by (auto simp: lifetime_inv_def same_but_programs_def)
next
  case True
  then obtain oid bytes plan required window w1 where ok: "window \<noteq> 0"
    "\<And>a. in_span window BPF_CAPSULE_MEMORY_WINDOW_SIZE a \<Longrightarrow> hw_vm w a = None"
    "w' = configured_world oid (req_fiber_count requested) plan bytes required None window w1"
    "hw_vm w1 = hw_vm w" "host_world.more w1 = host_world.more w"
    using configure_cases [OF assms(1,2,4)] assms(3) by (auto simp: put_object_def)
  have "host_world.more w' = host_world.more w"
    using ok(3,5) by (simp add: configured_world_def Let_def put_object_def)
  note rest = same_extension [OF this]
  show ?thesis
    unfolding lifetime_inv_def
    using ok rest
    by (intro disjI2 exI [of _ oid])
      (auto simp: configured_world_def Let_def put_object_def new_state_def state_bound_def reserved_window_def map_span_def
        held_objects_def held_links_def)
qed

lemma attach_lifetime:
  assumes "errors_set F" and "bpf_capsule_attach_freplace F object_data w1 = (e, w2)" and "lifetime_inv w w1"
  shows "lifetime_inv w w2"
proof (cases "e = 0")
  case False
  then have "holds_more [] w1 w2" using attach_freplace_cases [OF assms(1,2)] by simp
  then show ?thesis
    using assms(3) by (auto simp: lifetime_inv_def holds_more_def held_objects_def held_links_def)
next
  case True
  then obtain st made where made: "bpf_capsule_state_of (hw_capsule w1) = Some st"
    "holds_more made (put_state (st\<lparr>st_extensions := made @ st_extensions st, st_freplace_attached := True\<rparr>) w1) w2"
    using attach_freplace_cases [OF assms(1,2)] by auto
  let ?st = "st\<lparr>st_extensions := made @ st_extensions st, st_freplace_attached := True\<rparr>"
  have put: "fw_objects (put_state st' w1) = fw_objects w1" "fw_links (put_state st' w1) = fw_links w1" for st'
    by (simp_all add: put_state_def)
  obtain oid where oid: "hw_capsule w1 = Some \<lparr>cap_object = Some oid, cap_private_data = Some st\<rparr>" "st_window st \<noteq> 0"
    "state_bound st" "\<forall>a. if in_span (st_window st) BPF_CAPSULE_MEMORY_WINDOW_SIZE a then hw_vm w a = None
           else hw_vm w1 a = hw_vm w a"
    "fw_objects w1 = fw_objects w + held_objects (st_extensions st)"
    "fw_links w1 = fw_links w + held_links (st_extensions st)"
    using assms(3) made(1) unfolding lifetime_inv_def bpf_capsule_state_of_def by (elim disjE exE conjE) simp_all
  have bound: "state_bound ?st" using oid(3) by (cases "st_config st") (simp_all add: state_bound_def)
  show ?thesis
    unfolding lifetime_inv_def
    by (intro disjI2 exI [of _ oid] exI [of _ ?st])
      (use made(2) oid bound put in \<open>auto simp: holds_more_def held_objects_def held_links_def\<close>)
qed

lemma prepare_arena_state:
  "prepare_arena os ob config st = (e, st') \<Longrightarrow>
     st' = st \<or> st' = st\<lparr>st_arena_control := True, st_config := Some config\<rparr>"
  by (auto simp: prepare_arena_def split: option.splits if_splits prod.splits)

lemma prepare_fixed_state:
  assumes "prepare_fixed os ob config st vm = (e, st', vm')" and "page_ok os"
  shows "(st' = st \<or> st' = st\<lparr>st_config := Some config\<rparr>) \<and>
    (\<forall>a. 2 ^ 32 \<le> unat (a - cfg_memory_view_base config) \<longrightarrow> vm' a = vm a)"
  using assms map_view_outside by (auto simp: prepare_fixed_def split: sum.splits if_splits prod.splits)

lemma prepare_frame:
  assumes "page_ok os" and "bpf_capsule_prepare_memory os w1 = (e, w2)"
    and "hw_capsule w1 = Some \<lparr>cap_object = Some oid, cap_private_data = Some st\<rparr>" and "state_bound st"
  shows "\<exists>st'. hw_capsule w2 = Some \<lparr>cap_object = Some oid, cap_private_data = Some st'\<rparr> \<and>
    st_window st' = st_window st \<and> state_bound st' \<and> st_extensions st' = st_extensions st \<and>
    (\<forall>a. 2 ^ 32 \<le> unat (a - st_window st) \<longrightarrow> hw_vm w2 a = hw_vm w1 a)"
proof (cases "st_config st")
  case (Some config)
  then show ?thesis
    using assms by (auto simp: bpf_capsule_prepare_memory_def bpf_capsule_state_of_def split: if_splits)
next
  case None
  let ?st = "st\<lparr>st_arena_control := False\<rparr>"
  have bound: "state_bound (?st\<lparr>st_arena_control := c, st_config := Some config\<rparr>)" "state_bound (?st\<lparr>st_config := Some config\<rparr>)"
    if "cfg_memory_view_base config = st_window st" for c config
    using None that by (simp_all add: state_bound_def)
  have free: "state_bound ?st" using None by (simp add: state_bound_def)
  show ?thesis
    using assms(2-4) None bound free
    by (auto simp: bpf_capsule_prepare_memory_def bpf_capsule_state_of_def Let_def
        dest!: prepare_arena_state prepare_fixed_state [OF _ assms(1)] split: option.splits if_splits prod.splits)
qed

lemma prepare_lifetime:
  fixes w w1 w2 :: "'a freplace_world_scheme"
  assumes "page_ok os" and "bpf_capsule_prepare_memory os w1 = (e, w2)" and "lifetime_inv w w1"
  shows "lifetime_inv w w2"
  using assms(3) unfolding lifetime_inv_def [of w w1]
proof (elim disjE exE conjE)
  assume "hw_capsule w1 = Some \<lparr>cap_object = None, cap_private_data = None\<rparr>"
  then have "w2 = w1" using assms(2) by (simp add: bpf_capsule_prepare_memory_def bpf_capsule_state_of_def)
  then show ?thesis using assms(3) by simp
next
  fix oid st assume st: "hw_capsule w1 = Some \<lparr>cap_object = Some oid, cap_private_data = Some st\<rparr>" "st_window st \<noteq> 0"
    "state_bound st" "\<forall>a. if in_span (st_window st) BPF_CAPSULE_MEMORY_WINDOW_SIZE a then hw_vm w a = None
           else hw_vm w1 a = hw_vm w a"
    "fw_objects w1 = fw_objects w + held_objects (st_extensions st)"
    "fw_links w1 = fw_links w + held_links (st_extensions st)"
  note frame = prepare_frame [OF assms(1,2) st(1,3)]
  note rest = same_extension [OF prepare_keeps_rest(2) [OF assms(2)]]
  obtain st' where st': "hw_capsule w2 = Some \<lparr>cap_object = Some oid, cap_private_data = Some st'\<rparr>"
    "st_window st' = st_window st" "state_bound st'" "st_extensions st' = st_extensions st"
    "\<And>a. 2 ^ 32 \<le> unat (a - st_window st) \<Longrightarrow> hw_vm w2 a = hw_vm w1 a"
    using frame by blast
  show ?thesis
    unfolding lifetime_inv_def
    by (intro disjI2 exI [of _ oid] exI [of _ st'])
      (use st' rest st(2,4-6) outside_window [of "st_window st"] in auto)
qed

text \<open>Running a program in the kernel does not touch the handle, the host's mappings or its libbpf
  objects.\<close>

definition run_keeps :: "(int \<Rightarrow> memory_world \<Rightarrow> int \<times> int \<times> memory_world) \<Rightarrow> bool" where
  "run_keeps test_run \<longleftrightarrow> (\<forall>fd w e r w'. test_run fd w = (e, r, w') \<longrightarrow>
     hw_capsule w' = hw_capsule w \<and> hw_vm w' = hw_vm w \<and> fw_objects w' = fw_objects w \<and> fw_links w' = fw_links w)"

lemma publish_lifetime:
  assumes "publish_ready oid ob state w1 = (e, w2)" and "bpf_capsule_state_of (hw_capsule w1) = Some state"
    and "lifetime_inv w w1"
  shows "lifetime_inv w w2"
proof -
  have "hw_vm w2 = hw_vm w1 \<and> fw_objects w2 = fw_objects w1 \<and> fw_links w2 = fw_links w1 \<and>
      (hw_capsule w2 = hw_capsule w1 \<or>
       hw_capsule w2 = map_option (\<lambda>c. c\<lparr>cap_private_data := Some (state\<lparr>st_initialized := True\<rparr>)\<rparr>) (hw_capsule w1))"
    using assms(1)
    by (auto simp: publish_ready_def put_state_def put_object_def Let_def split: option.splits if_splits prod.splits)
  then show ?thesis
  proof (elim conjE disjE)
    assume "hw_vm w2 = hw_vm w1" "fw_objects w2 = fw_objects w1" "fw_links w2 = fw_links w1" "hw_capsule w2 = hw_capsule w1"
    then show ?thesis using assms(3) lifetime_cong by blast
  next
    assume same: "hw_vm w2 = hw_vm w1" "fw_objects w2 = fw_objects w1" "fw_links w2 = fw_links w1"
      and st: "hw_capsule w2 = map_option (\<lambda>c. c\<lparr>cap_private_data := Some (state\<lparr>st_initialized := True\<rparr>)\<rparr>) (hw_capsule w1)"
    show ?thesis
      using assms(3) unfolding lifetime_inv_def same
    proof (elim disjE exE conjE, goal_cases)
      case 1
      then show ?case using assms(2) by (simp add: bpf_capsule_state_of_def)
    next
      case (2 oid st0)
      then show ?case
        using assms(2) st by (intro disjI2) (simp add: bpf_capsule_state_of_def)
    qed
  qed
qed

lemma initialize_lifetime:
  assumes "page_ok os" and "run_keeps test_run" and "bpf_capsule_initialize os test_run w1 = (e, w2)" and "lifetime_inv w w1"
  shows "lifetime_inv w w2"
proof -
  have init: "lifetime_inv w w'" if "run_initializer test_run ob w1 = (e', w')" for ob e' w'
  proof -
    have "hw_capsule w' = hw_capsule w1 \<and> hw_vm w' = hw_vm w1 \<and> fw_objects w' = fw_objects w1 \<and> fw_links w' = fw_links w1"
      using that assms(2)
      by (auto simp: run_initializer_def run_keeps_def split: option.splits if_splits prod.splits)
    then show ?thesis using assms(4) lifetime_cong by blast
  qed
  have bind: "lifetime_inv w w''" if "lifetime_inv w w'" "bpf_capsule_prepare_memory os w' = (e', w'')" for e' w' w''
    by (rule prepare_lifetime [OF assms(1) that(2,1)])
  have step: "lifetime_inv w w''"
    if "lifetime_inv w w'" "(case bpf_capsule_prepare_memory os w' of
         (e, w) \<Rightarrow> if e \<noteq> 0 then (e, w)
                   else (case bpf_capsule_state_of (hw_capsule w) of
                           None \<Rightarrow> (EINVAL, w)
                         | Some state \<Rightarrow> publish_ready oid (hw_objects w oid) state w)) = (e', w'')" for oid e' w' w''
  proof -
    obtain e1 v where v: "bpf_capsule_prepare_memory os w' = (e1, v)" by (cases "bpf_capsule_prepare_memory os w'")
    note held = bind [OF that(1) v]
    show ?thesis
    proof (cases "bpf_capsule_state_of (hw_capsule v)")
      case None
      then show ?thesis using that(2) v held by (auto split: if_splits)
    next
      case (Some st)
      then show ?thesis using that(2) v held publish_lifetime [OF _ Some held] by (auto split: if_splits)
    qed
  qed
  show ?thesis
  proof (cases "hw_capsule w1 = None \<or> bpf_capsule_state_of (hw_capsule w1) = None")
    case True
    then show ?thesis
      using assms(3,4) by (auto simp: bpf_capsule_initialize_def split: option.splits)
  next
    case False
    then obtain capsule st where st: "hw_capsule w1 = Some capsule" "bpf_capsule_state_of (hw_capsule w1) = Some st" by auto
    show ?thesis
    proof (cases "cap_object capsule")
      case None
      then show ?thesis using assms(3,4) st by (simp add: bpf_capsule_initialize_def)
    next
      case (Some oid)
      obtain e1 v where v: "run_initializer test_run (hw_objects w1 oid) w1 = (e1, v)"
        by (cases "run_initializer test_run (hw_objects w1 oid) w1")
      show ?thesis
        using assms(3,4) st Some v init [OF v] step [OF init [OF v], of oid e w2]
        by (auto simp: bpf_capsule_initialize_def split: if_splits)
    qed
  qed
qed

lemma destroy_all_held:
  "destroy_extensions es v = v\<lparr>fw_objects := fw_objects v - held_objects es, fw_links := fw_links v - held_links es\<rparr>"
proof (induction es arbitrary: v)
  case (Cons x es)
  then show ?case
    by (simp add: bpf_capsule_destroy_extension_def Let_def destroy_links_eq held_objects_def held_links_def diff_diff_add_mset)
qed (simp add: held_objects_def held_links_def)

lemma release_lifetime:
  assumes "bpf_capsule_release os w1 = (0, w2)" and "lifetime_inv w w1"
  shows "hw_capsule w2 = Some \<lparr>cap_object = None, cap_private_data = None\<rparr>" and "hw_vm w2 = hw_vm w"
    and "fw_objects w2 = fw_objects w" and "fw_links w2 = fw_links w"
proof -
  have "hw_capsule w2 = Some \<lparr>cap_object = None, cap_private_data = None\<rparr> \<and> hw_vm w2 = hw_vm w \<and>
      fw_objects w2 = fw_objects w \<and> fw_links w2 = fw_links w"
    using assms(2) unfolding lifetime_inv_def
  proof (elim disjE exE conjE, goal_cases)
    case 1
    then show ?case using assms(1) by (auto simp: bpf_capsule_release_def)
  next
    case (2 oid st)
    have w2: "w2 = (put_state (st\<lparr>st_extensions := []\<rparr>) (destroy_extensions (st_extensions st) w1))
        \<lparr>hw_vm := unmap_span (st_window st) BPF_CAPSULE_MEMORY_WINDOW_SIZE (hw_vm w1),
         hw_capsule := Some \<lparr>cap_object = None, cap_private_data = None\<rparr>\<rparr>"
      using assms(1) 2(1,2) by (auto simp: bpf_capsule_release_def Let_def destroy_all_held split: if_splits)
    have "unmap_span (st_window st) BPF_CAPSULE_MEMORY_WINDOW_SIZE (hw_vm w1) = hw_vm w"
      using 2(4) by (auto simp: unmap_span_def fun_eq_iff split: if_splits)
    then show ?case using 2(5,6) by (simp add: w2 put_state_def destroy_all_held)
  qed
  then show "hw_capsule w2 = Some \<lparr>cap_object = None, cap_private_data = None\<rparr>" "hw_vm w2 = hw_vm w"
    "fw_objects w2 = fw_objects w" "fw_links w2 = fw_links w" by simp_all
qed


definition sample_fresh :: memory_world where
  "sample_fresh = \<lparr>hw_capsule = Some \<lparr>cap_object = None, cap_private_data = None\<rparr>,
     hw_objects = \<lambda>_. sample_opened, hw_vm = Map.empty, fw_objects = {#}, fw_links = {#}, fw_next = 0,
     mw_memory = sample_memory\<rparr>"

lemma sample_release: "hw_capsule w \<noteq> None \<Longrightarrow> fst (bpf_capsule_release sample_os w) = 0"
  by (auto simp: bpf_capsule_release_def sample_os_def Let_def split: option.splits)

lemma sample_page: "page_ok sample_os"
  by (auto simp: page_ok_def sample_os_def intro!: exI [of _ 12])


end
