(* ===== verification/Host_Alloc.thy ===== *)
theory Host_Alloc
  imports Host_Memory
begin

text \<open>
  Allocation from the host: the syscall program \<open>bpf_capsule_alloc\<close> and its body in \<open>bpf_capsule.c\<close>, and
  the loop that drives it, \<open>__bpf_capsule_alloc_run\<close>, with \<open>bpf_capsule_malloc\<close> and \<open>bpf_capsule_free\<close> in
  \<open>bpf_capsule_host.c\<close>; and the names of statuses and codes. The kernel may refuse a run: \<open>refuse n\<close> is
  the errno of the n-th one, zero when the program runs. The loop may drive a computation for ever,
  so it is a partial function.
\<close>

section \<open>The syscall program\<close>

definition BPF_CAPSULE_ALLOC_MALLOC :: u64 where "BPF_CAPSULE_ALLOC_MALLOC = 0"
definition BPF_CAPSULE_ALLOC_FREE :: u64 where "BPF_CAPSULE_ALLOC_FREE = 1"
definition BPF_CAPSULE_ALLOC_CONTINUE :: u64 where "BPF_CAPSULE_ALLOC_CONTINUE = 2"
definition BPF_CAPSULE_ALLOC_RESET :: u64 where "BPF_CAPSULE_ALLOC_RESET = 3"

lemmas alloc_operations = BPF_CAPSULE_ALLOC_MALLOC_def BPF_CAPSULE_ALLOC_FREE_def
  BPF_CAPSULE_ALLOC_CONTINUE_def BPF_CAPSULE_ALLOC_RESET_def

record alloc_output =
  out_pointer :: u64
  out_error :: int

record alloc_request =
  rq_operation :: u64
  rq_size :: u64
  rq_pointer :: u64
  rq_result :: capsule_result
  rq_output :: alloc_output

text \<open>The managed body; \<open>malloc\<close> answers the pointer and the errno it leaves, which is cleared before.\<close>

definition bpf_capsule_alloc_body ::
  "(u64 \<Rightarrow> 'm \<Rightarrow> u64 \<times> int \<times> 'm) \<Rightarrow> (u64 \<Rightarrow> 'm \<Rightarrow> 'm) \<Rightarrow> u64 \<Rightarrow> u64 \<Rightarrow> u64 \<Rightarrow> 'm \<Rightarrow> alloc_output \<times> 'm" where
  "bpf_capsule_alloc_body malloc free operation bytes pointer m =
     (if operation = BPF_CAPSULE_ALLOC_MALLOC then
        (case malloc (if bytes \<noteq> 0 then bytes else 1) m of
           (p, err, m) \<Rightarrow>
             (\<lparr>out_pointer = p, out_error = (if p = 0 then (if err \<noteq> 0 then err else ENOMEM) else 0)\<rparr>, m))
      else (\<lparr>out_pointer = 0, out_error = 0\<rparr>, free pointer m))"

text \<open>A request ends with a pointer exactly when it ends without an error.\<close>

lemma alloc_body_pointer:
  assumes "bpf_capsule_alloc_body malloc free BPF_CAPSULE_ALLOC_MALLOC bytes pointer m = (out, m')"
  shows "out_pointer out \<noteq> 0 \<longleftrightarrow> out_error out = 0"
  using assms by (auto simp: bpf_capsule_alloc_body_def ENOMEM_def split: prod.splits if_splits)

text \<open>What the compiler supplies for the program: the root of the call on the body with its arguments,
  and the program's local output record: its address, its clearing and its contents.\<close>

record 'w alloc_code = "'w entry_code" +
  al_root :: "u64 \<Rightarrow> u64 \<Rightarrow> u64 \<Rightarrow> 'w root"
  al_output_address :: u64
  al_clear_output :: "'w \<Rightarrow> 'w"
  al_read_output :: "'w \<Rightarrow> alloc_output"

definition entry_of :: "'w alloc_code \<Rightarrow> 'w entry_code" where
  "entry_of C = entry_code.truncate C"

definition alloc_dispatch ::
  "build \<Rightarrow> kernel \<Rightarrow> 'w alloc_code \<Rightarrow> alloc_request \<Rightarrow> 'w machine \<Rightarrow> (capsule_result \<times> 'w machine) option" where
  "alloc_dispatch B K C request s =
     (let s = s\<lparr>m_world := al_clear_output C (m_world s)\<rparr>; op = rq_operation request;
          continuation = res_continuation (rq_result request)
      in if op = BPF_CAPSULE_ALLOC_MALLOC \<or> op = BPF_CAPSULE_ALLOC_FREE
         then Some (bpf_capsule_begin B K (entry_of C) (al_root C op (rq_size request) (rq_pointer request)) None s)
         else if op = BPF_CAPSULE_ALLOC_CONTINUE
         then Some (bpf_capsule_continue B K (entry_of C) (al_output_address C) 16 8 continuation s)
         else if op = BPF_CAPSULE_ALLOC_RESET then Some (bpf_capsule_reset B K (entry_of C) continuation s)
         else None)"

definition bpf_capsule_alloc ::
  "build \<Rightarrow> kernel \<Rightarrow> 'w alloc_code \<Rightarrow> alloc_request \<Rightarrow> 'w machine \<Rightarrow> int \<times> alloc_request \<times> 'w machine" where
  "bpf_capsule_alloc B K C request s =
     (case alloc_dispatch B K C request s of
        None \<Rightarrow> (- EINVAL, request, s\<lparr>m_world := al_clear_output C (m_world s)\<rparr>)
      | Some (result, s) \<Rightarrow>
          (let request = request\<lparr>rq_result := result\<rparr>
           in (0, if res_status result = CAPSULE_OK
                  then request\<lparr>rq_output := al_read_output C (m_world s)\<rparr> else request, s)))"

section \<open>Driving it\<close>

text \<open>One run: the kernel's refusal, or the program's return value.\<close>

definition test_run ::
  "(nat \<Rightarrow> int) \<Rightarrow> (alloc_request \<Rightarrow> 's \<Rightarrow> int \<times> alloc_request \<times> 's) \<Rightarrow> nat \<Rightarrow> alloc_request \<Rightarrow> 's \<Rightarrow>
     int \<times> int \<times> alloc_request \<times> 's" where
  "test_run refuse program n request s =
     (if refuse n \<noteq> 0 then (refuse n, 0, request, s) else (0, program request s))"

text \<open>The path of a run that failed: a fiber that is still known is reset, and the first error kept.\<close>

definition abandon ::
  "(nat \<Rightarrow> int) \<Rightarrow> (alloc_request \<Rightarrow> 's \<Rightarrow> int \<times> alloc_request \<times> 's) \<Rightarrow> nat \<Rightarrow> int \<Rightarrow> alloc_request \<Rightarrow> 's \<Rightarrow>
     int \<times> alloc_request \<times> 's" where
  "abandon refuse program n saved_errno request s =
     (if res_continuation (rq_result request) \<noteq> BPF_CAPSULE_NO_CONTINUATION
      then (saved_errno, snd (snd (test_run refuse program (Suc n)
              (request\<lparr>rq_operation := BPF_CAPSULE_ALLOC_RESET\<rparr>) s)))
      else (saved_errno, request, s))"

partial_function (option) bpf_capsule_alloc_run ::
  "(nat \<Rightarrow> int) \<Rightarrow> (alloc_request \<Rightarrow> 's \<Rightarrow> int \<times> alloc_request \<times> 's) \<Rightarrow> nat \<Rightarrow> alloc_request \<Rightarrow> 's \<Rightarrow>
     (int \<times> alloc_request \<times> 's) option" where
  "bpf_capsule_alloc_run refuse program n request s =
     (case test_run refuse program n request s of
        (error, retval, request, s) \<Rightarrow>
          if error \<noteq> 0 \<or> retval < 0
          then Some (abandon refuse program n (if error \<noteq> 0 then error else - retval) request s)
          else if res_status (rq_result request) = CAPSULE_OK
          then Some (out_error (rq_output request), request, s)
          else if res_status (rq_result request) = CAPSULE_PENDING \<or> res_status (rq_result request) = CAPSULE_YIELD
          then bpf_capsule_alloc_run refuse program (Suc n) (request\<lparr>rq_operation := BPF_CAPSULE_ALLOC_CONTINUE\<rparr>) s
          else if res_status (rq_result request) = CAPSULE_EXITED
          then Some (if res_code (rq_result request) = CAPSULE_ERROR_POOL_EXHAUSTED then EAGAIN else ECANCELED, request, s)
          else Some (EPROTO, request, s))"

definition alloc_request_of :: "u64 \<Rightarrow> u64 \<Rightarrow> u64 \<Rightarrow> alloc_request" where
  "alloc_request_of operation bytes pointer =
     \<lparr>rq_operation = operation, rq_size = bytes, rq_pointer = pointer,
      rq_result = \<lparr>res_code = 0, res_status = 0, res_continuation = BPF_CAPSULE_NO_CONTINUATION\<rparr>,
      rq_output = \<lparr>out_pointer = 0, out_error = 0\<rparr>\<rparr>"

definition BPF_CAPSULE_PROGRAM_ALLOC :: string where "BPF_CAPSULE_PROGRAM_ALLOC = ''bpf_capsule_alloc''"

text \<open>\<open>program\<close> is what the descriptor of the object's allocation program runs.\<close>

definition bpf_capsule_allocate ::
  "(nat \<Rightarrow> int) \<Rightarrow> (alloc_request \<Rightarrow> 's \<Rightarrow> int \<times> alloc_request \<times> 's) \<Rightarrow> 'a host_world_scheme \<Rightarrow> alloc_request \<Rightarrow> 's \<Rightarrow>
     (int \<times> alloc_request \<times> 's) option" where
  "bpf_capsule_allocate refuse program w request s =
     (case (hw_capsule w, bpf_capsule_state_of (hw_capsule w)) of
        (Some capsule, Some state) \<Rightarrow>
          if \<not> st_initialized state then Some (EINVAL, request, s)
          else (case cap_object capsule of
                  None \<Rightarrow> Some (ENOENT, request, s)
                | Some oid \<Rightarrow>
                    (case find_program (hw_objects w oid) BPF_CAPSULE_PROGRAM_ALLOC of
                       None \<Rightarrow> Some (ENOENT, request, s)
                     | Some p \<Rightarrow> if bp_fd p < 0 then Some (ENOENT, request, s)
                                 else bpf_capsule_alloc_run refuse program 0 request s))
      | _ \<Rightarrow> Some (EINVAL, request, s))"

text \<open>The pointer and the errno of \<open>bpf_capsule_malloc\<close>; the errno of \<open>bpf_capsule_free\<close>.\<close>

definition bpf_capsule_malloc ::
  "(nat \<Rightarrow> int) \<Rightarrow> (alloc_request \<Rightarrow> 's \<Rightarrow> int \<times> alloc_request \<times> 's) \<Rightarrow> 'a host_world_scheme \<Rightarrow> u64 \<Rightarrow> 's \<Rightarrow>
     (u64 \<times> int \<times> 's) option" where
  "bpf_capsule_malloc refuse program w bytes s =
     (case bpf_capsule_allocate refuse program w (alloc_request_of BPF_CAPSULE_ALLOC_MALLOC bytes 0) s of
        None \<Rightarrow> None
      | Some (e, request, s) \<Rightarrow> Some (if e \<noteq> 0 then 0 else out_pointer (rq_output request), e, s))"

definition bpf_capsule_free ::
  "(nat \<Rightarrow> int) \<Rightarrow> (alloc_request \<Rightarrow> 's \<Rightarrow> int \<times> alloc_request \<times> 's) \<Rightarrow> 'a host_world_scheme \<Rightarrow> u64 \<Rightarrow> 's \<Rightarrow>
     (int \<times> 's) option" where
  "bpf_capsule_free refuse program w pointer s =
     (if pointer = 0 then Some (0, s)
      else case bpf_capsule_allocate refuse program w (alloc_request_of BPF_CAPSULE_ALLOC_FREE 0 pointer) s of
        None \<Rightarrow> None | Some (e, request, s) \<Rightarrow> Some (e, s))"

section \<open>When the loop ends\<close>

text \<open>A run that is the loop's last, and the request and state that the next run starts from.\<close>

definition last_trip ::
  "(nat \<Rightarrow> int) \<Rightarrow> (alloc_request \<Rightarrow> 's \<Rightarrow> int \<times> alloc_request \<times> 's) \<Rightarrow> nat \<Rightarrow> alloc_request \<times> 's \<Rightarrow> bool" where
  "last_trip refuse program n st =
     (case test_run refuse program n (fst st) (snd st) of
        (error, retval, request, s) \<Rightarrow> error \<noteq> 0 \<or> retval < 0 \<or>
          res_status (rq_result request) \<noteq> CAPSULE_PENDING \<and> res_status (rq_result request) \<noteq> CAPSULE_YIELD)"

definition next_trip ::
  "(alloc_request \<Rightarrow> 's \<Rightarrow> int \<times> alloc_request \<times> 's) \<Rightarrow> alloc_request \<times> 's \<Rightarrow> alloc_request \<times> 's" where
  "next_trip program st =
     (case program (fst st) (snd st) of
        (retval, request, s) \<Rightarrow> (request\<lparr>rq_operation := BPF_CAPSULE_ALLOC_CONTINUE\<rparr>, s))"

lemma alloc_run_last:
  assumes "last_trip refuse program n (request, s)"
  shows "bpf_capsule_alloc_run refuse program n request s \<noteq> None"
proof -
  obtain error retval request' s' where "test_run refuse program n request s = (error, retval, request', s')"
    by (cases "test_run refuse program n request s")
  then show ?thesis
    using assms by (subst bpf_capsule_alloc_run.simps) (auto simp: last_trip_def simp del: not_None_eq)
qed

lemma alloc_run_next:
  assumes "\<not> last_trip refuse program n (request, s)"
  shows "bpf_capsule_alloc_run refuse program n request s =
    bpf_capsule_alloc_run refuse program (Suc n) (fst (next_trip program (request, s))) (snd (next_trip program (request, s)))"
  using assms
  by (subst bpf_capsule_alloc_run.simps)
    (auto simp: last_trip_def next_trip_def test_run_def status_defs split: prod.splits if_splits)

lemma alloc_run_returns:
  "last_trip refuse program (n + k) ((next_trip program ^^ k) (request, s)) \<Longrightarrow>
     bpf_capsule_alloc_run refuse program n request s \<noteq> None"
proof (induction k arbitrary: n request s)
  case 0
  then show ?case using alloc_run_last by simp
next
  case (Suc k)
  show ?case
  proof (cases "last_trip refuse program n (request, s)")
    case True
    then show ?thesis by (rule alloc_run_last)
  next
    case False
    have "(next_trip program ^^ Suc k) (request, s) = (next_trip program ^^ k) (next_trip program (request, s))"
      by (simp only: funpow_Suc_right comp_def)
    then show ?thesis
      using Suc.IH [of "Suc n" "fst (next_trip program (request, s))" "snd (next_trip program (request, s))"] Suc.prems
        alloc_run_next [OF False] by simp
  qed
qed

lemma alloc_run_induct:
  assumes "bpf_capsule_alloc_run refuse program n request s = Some y"
    and stop: "\<And>n request s y. last_trip refuse program n (request, s) \<Longrightarrow>
      bpf_capsule_alloc_run refuse program n request s = Some y \<Longrightarrow> P n request s y"
    and step: "\<And>n request s y. \<not> last_trip refuse program n (request, s) \<Longrightarrow>
      P (Suc n) (fst (next_trip program (request, s))) (snd (next_trip program (request, s))) y \<Longrightarrow> P n request s y"
  shows "P n request s y"
proof -
  have "refuse' = refuse \<and> program' = program \<longrightarrow> P n request s y"
    if "bpf_capsule_alloc_run refuse' program' n request s = Some y" for refuse' program'
  proof (rule bpf_capsule_alloc_run.raw_induct [where
      P = "\<lambda>refuse' program' n request s y. refuse' = refuse \<and> program' = program \<longrightarrow> P n request s y", OF _ that], goal_cases)
    case (1 run refuse' program' n request s y)
    show ?case
    proof (intro impI, elim conjE)
      assume [simp]: "refuse' = refuse" "program' = program"
      obtain error retval request' s' where t: "test_run refuse program n request s = (error, retval, request', s')"
        by (cases "test_run refuse program n request s")
      show "P n request s y"
      proof (cases "last_trip refuse program n (request, s)")
        case True
        then have "bpf_capsule_alloc_run refuse program n request s = Some y"
          using 1(2) t by (subst bpf_capsule_alloc_run.simps) (auto simp: last_trip_def split: if_splits)
        then show ?thesis by (rule stop [OF True])
      next
        case False
        have "run refuse program (Suc n) (fst (next_trip program (request, s))) (snd (next_trip program (request, s))) = Some y"
          using 1(2) t False
          by (auto simp: last_trip_def next_trip_def test_run_def status_defs split: if_splits prod.splits)
        then show ?thesis using 1(1) step [OF False] by blast
      qed
    qed
  qed
  then show ?thesis using assms(1) by blast
qed

text \<open>C32: the driving loop returns exactly when the computation it drives settles. It ends with a result if
  and only if one of its runs is refused or fails, or leaves a status other than PENDING and YIELD; it
  never stops on a computation that can go on, and never drives one that is over.\<close>

theorem alloc_run_returns_iff:
  "(\<exists>y. bpf_capsule_alloc_run refuse program n request s = Some y) \<longleftrightarrow>
     (\<exists>k. last_trip refuse program (n + k) ((next_trip program ^^ k) (request, s)))"
proof
  assume "\<exists>y. bpf_capsule_alloc_run refuse program n request s = Some y"
  then obtain y where "bpf_capsule_alloc_run refuse program n request s = Some y" ..
  then show "\<exists>k. last_trip refuse program (n + k) ((next_trip program ^^ k) (request, s))"
  proof (rule alloc_run_induct, goal_cases)
    case (1 n request s y)
    then have "last_trip refuse program (n + 0) ((next_trip program ^^ 0) (request, s))" by simp
    then show ?case ..
  next
    case (2 n request s y)
    then obtain k where "last_trip refuse program (Suc n + k) ((next_trip program ^^ k) (next_trip program (request, s)))"
      by auto
    then have "last_trip refuse program (n + Suc k) ((next_trip program ^^ Suc k) (request, s))"
      by (simp only: funpow_Suc_right comp_def add_Suc add_Suc_right)
    then show ?case ..
  qed
next
  assume "\<exists>k. last_trip refuse program (n + k) ((next_trip program ^^ k) (request, s))"
  then obtain k where "last_trip refuse program (n + k) ((next_trip program ^^ k) (request, s))" ..
  then have "bpf_capsule_alloc_run refuse program n request s \<noteq> None" by (rule alloc_run_returns)
  then show "\<exists>y. bpf_capsule_alloc_run refuse program n request s = Some y" by blast
qed

section \<open>Fibers of host allocations\<close>

lemma world_leased [simp]: "leased B (s\<lparr>m_world := x\<rparr>) = leased B s"
  by (simp add: leased_def)

lemma world_token [simp]: "current_token (s\<lparr>m_world := x\<rparr>) f = current_token s f"
  by (simp add: current_token_def)

lemma world_inv [simp]: "pool_inv B (s\<lparr>m_world := x\<rparr>) = pool_inv B s"
proof -
  have "bpf_capsule_fiber_count B (s\<lparr>m_world := x\<rparr>) = bpf_capsule_fiber_count B s"
    by (simp add: bpf_capsule_fiber_count_def)
  then show ?thesis by (simp add: pool_inv_def)
qed

lemma token_inj:
  assumes "build_ok B" and "pool_inv B s" and "f \<in> leased B s" and "g \<in> leased B s"
    and "current_token s f = current_token s g"
  shows "f = g"
proof -
  have "continuation_fiber (current_token s h) = h" if "h \<in> leased B s" for h
    unfolding current_token_def
    by (rule token_parts(1) [OF assms(1) leased_less_count [OF assms(2) that]]) (use assms(2) that in \<open>simp add: pool_inv_def\<close>)
  then show ?thesis using assms(3-5) by metis
qed

text \<open>Where an operation on the fiber of a request leaves it: still held with its current token while
  the computation is unfinished, returned when it is over, or held when the token was refused.\<close>

definition refused_codes :: "i32 set" where
  "refused_codes = {CAPSULE_ERROR_INVALID_CONTINUATION, CAPSULE_ERROR_STALE_CONTINUATION, CAPSULE_ERROR_POOL_CORRUPT}"

definition trip_post :: "build \<Rightarrow> u32 set \<Rightarrow> capsule_result \<times> 'w machine \<Rightarrow> bool" where
  "trip_post B L res \<longleftrightarrow> (case res of (r, s) \<Rightarrow> pool_inv B s \<and>
     (if res_status r = CAPSULE_PENDING \<or> res_status r = CAPSULE_YIELD
      then \<exists>f. f \<notin> L \<and> leased B s = insert f L \<and> res_continuation r = current_token s f
      else res_continuation r = BPF_CAPSULE_NO_CONTINUATION \<and>
        (leased B s = L \<or>
         res_status r = CAPSULE_EXITED \<and> res_code r \<in> refused_codes \<and> (\<exists>f. leased B s = insert f L))))"

lemma begin_trip:
  assumes "build_ok B" and "kernel_ok K" and "kernel_live (unat (b_max_fibers B)) K" and "pool_inv B s" and "code_keeps B C"
  shows "trip_post B (leased B s) (bpf_capsule_begin B K C root context s)"
proof (cases "bpf_capsule_plan_broken B s")
  case True
  then show ?thesis
    using assms(4) by (simp add: bpf_capsule_begin_def trip_post_def status_defs)
next
  case ok: False
  obtain f t where acq: "bpf_capsule_fiber_acquire B K s = (f, t)"
    by (cases "bpf_capsule_fiber_acquire B K s")
  show ?thesis
  proof (cases "f = BPF_CAPSULE_NO_FIBER")
    case True
    then show ?thesis
      using acquire_outcome [OF assms(1,2,4) acq] assms(4) ok acq
      by (simp add: bpf_capsule_begin_def trip_post_def status_defs)
  next
    case False
    then show ?thesis
      using begin_settles [OF assms(1,2,4,5) ok acq, of root "context"] assms(3)
      by (auto simp: acquired_def settles_def trip_post_def split: if_splits)
  qed
qed

lemma resumed_trip:
  assumes "build_ok B" and "kernel_live (unat (b_max_fibers B)) K" and "pool_inv B s"
    and "f \<notin> L" and "leased B s = insert f L" and "resumes B K (current_token s f) s res"
  shows "trip_post B L res"
proof (cases res)
  case (Pair r s')
  have "resumes B K (current_token s f) s (r, s')" using assms(6) Pair by simp
  then show ?thesis
  proof (unfold resumes_def, elim disjE exE conjE)
    fix code assume "fst (r, s') = failed_result code"
      "code \<in> {CAPSULE_ERROR_INVALID_CONTINUATION, CAPSULE_ERROR_STALE_CONTINUATION, CAPSULE_ERROR_POOL_CORRUPT}"
      "pool_inv B (snd (r, s'))" "leased B (snd (r, s')) = leased B s"
    then show ?thesis
      using assms(5) by (auto simp: trip_post_def failed_result_def refused_codes_def status_defs Pair)
  next
    fix g t assume g: "g \<in> leased B s" "current_token s f = current_token s g" "leased B t = leased B s"
      "settles B K g t (r, s')"
    have "g = f" using token_inj [OF assms(1,3), of f g] g(1,2) assms(5) by simp
    then show ?thesis
      using g(3,4) assms(2,4,5) by (auto simp: trip_post_def settles_def Pair split: if_splits)
  qed
qed

text \<open>A request before a run: not started, or holding one fiber beyond \<open>L\<close> whose token it knows.\<close>

definition request_inv :: "build \<Rightarrow> u32 set \<Rightarrow> alloc_request \<Rightarrow> 'w machine \<Rightarrow> bool" where
  "request_inv B L request s \<longleftrightarrow> pool_inv B s \<and>
     ((rq_operation request = BPF_CAPSULE_ALLOC_MALLOC \<or> rq_operation request = BPF_CAPSULE_ALLOC_FREE) \<and>
        res_continuation (rq_result request) = BPF_CAPSULE_NO_CONTINUATION \<and> leased B s = L \<or>
      (rq_operation request = BPF_CAPSULE_ALLOC_CONTINUE \<or> rq_operation request = BPF_CAPSULE_ALLOC_RESET) \<and>
        (\<exists>f. f \<notin> L \<and> leased B s = insert f L \<and> res_continuation (rq_result request) = current_token s f))"

lemma alloc_trip:
  assumes "build_ok B" and "kernel_ok K" and "kernel_live (unat (b_max_fibers B)) K" and "code_keeps B (entry_of C)"
    and "request_inv B L request s" and "bpf_capsule_alloc B K C request s = (retval, request', s')"
  shows "retval = 0 \<and> trip_post B L (rq_result request', s')"
proof -
  define t where "t = s\<lparr>m_world := al_clear_output C (m_world s)\<rparr>"
  have t: "pool_inv B t" "leased B t = leased B s" "current_token t f = current_token s f" for f
    using assms(5) by (simp_all add: t_def request_inv_def)
  obtain res where res: "alloc_dispatch B K C request s = Some res" and post: "trip_post B L res"
  proof (cases "rq_operation request = BPF_CAPSULE_ALLOC_MALLOC \<or> rq_operation request = BPF_CAPSULE_ALLOC_FREE")
    case True
    then have "leased B s = L" using assms(5) by (auto simp: request_inv_def alloc_operations)
    then show ?thesis
      using that True begin_trip [OF assms(1-3) t(1) assms(4)] t(2) by (simp add: alloc_dispatch_def Let_def t_def)
  next
    case False
    then obtain f where f: "f \<notin> L" "leased B t = insert f L" "res_continuation (rq_result request) = current_token t f"
      and op: "rq_operation request = BPF_CAPSULE_ALLOC_CONTINUE \<or> rq_operation request = BPF_CAPSULE_ALLOC_RESET"
      using assms(5) t(2,3) by (auto simp: request_inv_def)
    note trip = resumed_trip [OF assms(1,3) t(1) f(1,2)]
    have "trip_post B L (the (alloc_dispatch B K C request s))" "alloc_dispatch B K C request s \<noteq> None"
      using op f(3) trip [OF continue_resumes(1) [OF assms(2) t(1) assms(4)]] trip [OF reset_resumes(1) [OF assms(2) t(1)]]
      by (auto simp: alloc_dispatch_def Let_def alloc_operations simp flip: t_def)
    then show ?thesis using that by auto
  qed
  then show ?thesis
    using assms(6) by (cases res) (auto simp: bpf_capsule_alloc_def Let_def split: if_splits)
qed

lemma alloc_trip_next:
  assumes "trip_post B L (rq_result request, s)"
    and "res_status (rq_result request) = CAPSULE_PENDING \<or> res_status (rq_result request) = CAPSULE_YIELD"
    and "op = BPF_CAPSULE_ALLOC_CONTINUE \<or> op = BPF_CAPSULE_ALLOC_RESET"
  shows "request_inv B L (request\<lparr>rq_operation := op\<rparr>) s"
  using assms by (auto simp: trip_post_def request_inv_def)

text \<open>How the loop leaves the pool.\<close>

definition alloc_post :: "build \<Rightarrow> u32 set \<Rightarrow> (nat \<Rightarrow> int) \<Rightarrow> int \<times> alloc_request \<times> 'w machine \<Rightarrow> bool" where
  "alloc_post B L refuse y \<longleftrightarrow> (case y of (e, request, s) \<Rightarrow> pool_inv B s \<and>
     (leased B s = L \<or> e \<noteq> 0 \<and> (\<exists>f. leased B s = insert f L) \<and>
       ((\<exists>n. refuse n \<noteq> 0) \<or> e = ECANCELED \<and> res_code (rq_result request) \<in> refused_codes)))"

lemma abandon_post:
  assumes "build_ok B" and "kernel_ok K" and "kernel_live (unat (b_max_fibers B)) K" and "code_keeps B (entry_of C)"
    and "request_inv B L request s" and "refuse n \<noteq> 0" and "e \<noteq> 0"
  shows "alloc_post B L refuse (abandon refuse (bpf_capsule_alloc B K C) n e request s)"
proof (cases "res_continuation (rq_result request) = BPF_CAPSULE_NO_CONTINUATION")
  case True
  then show ?thesis using assms(5-7) by (auto simp: abandon_def alloc_post_def request_inv_def)
next
  case False
  let ?request = "request\<lparr>rq_operation := BPF_CAPSULE_ALLOC_RESET\<rparr>"
  have inv: "request_inv B L ?request s" using assms(5) False by (auto simp: request_inv_def)
  obtain r request' s' where run: "bpf_capsule_alloc B K C ?request s = (r, request', s')"
    by (cases "bpf_capsule_alloc B K C ?request s")
  have "alloc_post B L refuse (e, request', s')"
    using alloc_trip [OF assms(1-4) inv run] assms(6,7)
    by (auto simp: alloc_post_def trip_post_def split: if_splits)
  moreover have "alloc_post B L refuse (e, ?request, s)"
    using inv assms(6,7) by (auto simp: alloc_post_def request_inv_def)
  ultimately show ?thesis using run False by (auto simp: abandon_def test_run_def)
qed

lemma alloc_run_post:
  assumes "build_ok B" and "kernel_ok K" and "kernel_live (unat (b_max_fibers B)) K" and "code_keeps B (entry_of C)"
    and "bpf_capsule_alloc_run refuse (bpf_capsule_alloc B K C) n request s = Some y" and "request_inv B L request s"
  shows "alloc_post B L refuse y"
proof -
  have "request_inv B L request s \<longrightarrow> alloc_post B L refuse y"
    using assms(5)
  proof (rule alloc_run_induct, goal_cases)
    case (1 n request s y)
    show ?case
    proof
      assume inv: "request_inv B L request s"
      obtain r request' s' where run: "bpf_capsule_alloc B K C request s = (r, request', s')"
        by (cases "bpf_capsule_alloc B K C request s")
      note trip = alloc_trip [OF assms(1-4) inv run]
      show "alloc_post B L refuse y"
      proof (cases "refuse n = 0")
        case False
        then have "y = abandon refuse (bpf_capsule_alloc B K C) n (refuse n) request s"
          using 1(2) by (subst (asm) bpf_capsule_alloc_run.simps) (simp add: test_run_def)
        then show ?thesis using abandon_post [where n = n and refuse = refuse, OF assms(1-4) inv False False] by simp
      next
        case True
        have over: "res_status (rq_result request') \<noteq> CAPSULE_PENDING \<and> res_status (rq_result request') \<noteq> CAPSULE_YIELD"
          using 1(1) True run trip by (simp add: last_trip_def test_run_def)
        then have "pool_inv B s' \<and> (leased B s' = L \<or> res_status (rq_result request') = CAPSULE_EXITED \<and>
            res_code (rq_result request') \<in> refused_codes \<and> (\<exists>f. leased B s' = insert f L))"
          using trip by (simp add: trip_post_def)
        then show ?thesis
          using 1(2) True run trip over
          by (subst (asm) bpf_capsule_alloc_run.simps)
            (auto simp: test_run_def alloc_post_def refused_codes_def status_defs error_code_defs ECANCELED_def
              split: if_splits)
      qed
    qed
  next
    case (2 n request s y)
    show ?case
    proof
      assume inv: "request_inv B L request s"
      obtain r request' s' where run: "bpf_capsule_alloc B K C request s = (r, request', s')"
        by (cases "bpf_capsule_alloc B K C request s")
      have "request_inv B L (request'\<lparr>rq_operation := BPF_CAPSULE_ALLOC_CONTINUE\<rparr>) s'"
        using 2(1) run alloc_trip [OF assms(1-4) inv run]
        by (intro alloc_trip_next) (auto simp: last_trip_def test_run_def split: if_splits)
      then show "alloc_post B L refuse y" using 2(2) run by (simp add: next_trip_def)
    qed
  qed
  then show ?thesis using assms(6) by blast
qed

lemma allocate_post:
  assumes "build_ok B" and "kernel_ok K" and "kernel_live (unat (b_max_fibers B)) K" and "code_keeps B (entry_of C)"
    and "pool_inv B s" and "operation = BPF_CAPSULE_ALLOC_MALLOC \<or> operation = BPF_CAPSULE_ALLOC_FREE"
    and "bpf_capsule_allocate refuse (bpf_capsule_alloc B K C) w (alloc_request_of operation bytes pointer) s = Some y"
  shows "alloc_post B (leased B s) refuse y"
proof -
  have start: "request_inv B (leased B s) (alloc_request_of operation bytes pointer) s"
    using assms(5,6) by (auto simp: request_inv_def alloc_request_of_def)
  note run = alloc_run_post [OF assms(1-4) _ start]
  show ?thesis
    using assms(5,7) run
    by (auto simp: bpf_capsule_allocate_def alloc_post_def split: option.splits if_splits)
qed


lemma free_returns_fiber:
  assumes "build_ok B" and "kernel_ok K" and "kernel_live (unat (b_max_fibers B)) K" and "code_keeps B (entry_of C)"
    and "pool_inv B s" and "bpf_capsule_free refuse (bpf_capsule_alloc B K C) w pointer s = Some (e, s')"
  shows "pool_inv B s' \<and> (leased B s' = leased B s \<or>
     e \<noteq> 0 \<and> (\<exists>f. leased B s' = insert f (leased B s)) \<and> ((\<exists>n. refuse n \<noteq> 0) \<or> e = ECANCELED))"
proof (cases "pointer = 0")
  case True
  then show ?thesis using assms(5,6) by (simp add: bpf_capsule_free_def)
next
  case False
  then obtain request where run: "bpf_capsule_allocate refuse (bpf_capsule_alloc B K C) w
      (alloc_request_of BPF_CAPSULE_ALLOC_FREE 0 pointer) s = Some (e, request, s')"
    using assms(6) by (auto simp: bpf_capsule_free_def split: option.splits)
  show ?thesis
    using allocate_post [OF assms(1-5) _ run] by (auto simp: alloc_post_def)
qed

section \<open>A sample host\<close>

definition sample_alloc_code :: "unit alloc_code" where
  "sample_alloc_code = entry_code.extend sample_entry
     (alloc_code.fields (\<lambda>_ _ _. sample_root) 0x1000 (\<lambda>w. w) (\<lambda>_. \<lparr>out_pointer = 0, out_error = 0\<rparr>))"

definition sample_alloc_program :: bpf_program where
  "sample_alloc_program = \<lparr>bp_name = BPF_CAPSULE_PROGRAM_ALLOC, bp_section = Some ''syscall'', bp_flags = 0,
     bp_autoload = True, bp_fd = 11\<rparr>"

definition sample_initialized :: host_world where
  "sample_initialized = sample_world\<lparr>hw_capsule := Some \<lparr>cap_object = Some 0,
       cap_private_data = Some (new_state\<lparr>st_window := 0x100000000, st_initialized := True\<rparr>)\<rparr>,
     hw_objects := \<lambda>_. sample_opened\<lparr>ob_programs := [sample_alloc_program]\<rparr>\<rparr>"

lemma sample_alloc_entry: "entry_of sample_alloc_code = sample_entry"
  by (simp add: entry_of_def sample_alloc_code_def entry_code.defs alloc_code.defs)

lemma sample_fd: "find_program (hw_objects sample_initialized 0) BPF_CAPSULE_PROGRAM_ALLOC = Some sample_alloc_program"
  by (simp add: find_program_def sample_initialized_def sample_world_def sample_alloc_program_def)


section \<open>Names of statuses and codes\<close>

definition bpf_capsule_status_string :: "u32 \<Rightarrow> string" where
  "bpf_capsule_status_string status =
     (if status = CAPSULE_OK then ''ok''
      else if status = CAPSULE_PENDING then ''pending''
      else if status = CAPSULE_YIELD then ''yield''
      else if status = CAPSULE_EXITED then ''exited''
      else ''unknown status'')"

definition bpf_capsule_error_string :: "int \<Rightarrow> string" where
  "bpf_capsule_error_string code =
     (if code = sint CAPSULE_ERROR_POOL_EXHAUSTED then ''fiber pool exhausted''
      else if code = sint CAPSULE_ERROR_INVALID_CONTINUATION then ''invalid continuation''
      else if code = sint CAPSULE_ERROR_STALE_CONTINUATION then ''stale continuation''
      else if code = sint CAPSULE_ERROR_NOT_PENDING then ''continuation is not pending''
      else if code = sint CAPSULE_ERROR_POOL_CORRUPT then ''fiber pool corrupt''
      else if code = sint CAPSULE_ERROR_RETURN_MISMATCH then ''return value layout mismatch''
      else if code = sint CAPSULE_ERROR_STACK_OVERFLOW then ''fiber stack overflow''
      else if code = sint CAPSULE_ERROR_MEMORY_FAULT then ''capsule memory fault''
      else if code = sint CAPSULE_ERROR_INVALID_DISPATCH then ''invalid managed dispatch''
      else if code = sint CAPSULE_ERROR_INTRINSIC_GUARD then ''unlowered compiler intrinsic''
      else if code = sint CAPSULE_ERROR_UNREACHABLE then ''unreachable code executed''
      else if code = sint CAPSULE_ERROR_TRAP then ''trap executed''
      else if code = sint CAPSULE_ERROR_ALLOCATOR_CORRUPT then ''allocator state corrupt''
      else if code = sint CAPSULE_ERROR_BAD_PLAN then ''loader applied an incomplete configuration plan''
      else if code \<ge> 0 then ''guest exit status'' else ''unknown framework code'')"

definition framework_codes :: "i32 list" where
  "framework_codes = [CAPSULE_ERROR_POOL_EXHAUSTED, CAPSULE_ERROR_INVALID_CONTINUATION,
     CAPSULE_ERROR_STALE_CONTINUATION, CAPSULE_ERROR_NOT_PENDING, CAPSULE_ERROR_POOL_CORRUPT,
     CAPSULE_ERROR_RETURN_MISMATCH, CAPSULE_ERROR_STACK_OVERFLOW, CAPSULE_ERROR_MEMORY_FAULT,
     CAPSULE_ERROR_INVALID_DISPATCH, CAPSULE_ERROR_INTRINSIC_GUARD, CAPSULE_ERROR_UNREACHABLE,
     CAPSULE_ERROR_TRAP, CAPSULE_ERROR_ALLOCATOR_CORRUPT, CAPSULE_ERROR_BAD_PLAN]"

text \<open>Every framework code has a name of its own, which no guest exit status and no unknown code shares.\<close>

lemma error_string_distinct:
  "distinct (''guest exit status'' # ''unknown framework code'' #
     map (bpf_capsule_error_string \<circ> sint) framework_codes)"
  by code_simp

lemma error_string_guest: "0 \<le> code \<Longrightarrow> bpf_capsule_error_string code = ''guest exit status''"
  by (simp add: bpf_capsule_error_string_def error_code_defs)

end
