(* ===== verification/Object_Layout.thy ===== *)
theory Object_Layout
  imports Heap_Access
begin

text \<open>
  The compiler's side of the layout (\<open>memory.cpp\<close>): \<open>AlignWithin\<close>, the placement of globals on the
  fixed tier (\<open>runFixedMemory\<close>) and of sparse globals on the arena tier, \<open>ConfigureObjectLayout\<close>, and
  the default map sizes. Addresses are 64-bit words where the code guards an addition, and numbers
  where every sum is bounded by a check made before it. \<open>report_fatal_error\<close> and \<open>emitError\<close> are
  values of \<open>layout_error\<close>.
\<close>

datatype layout_error =
    CannotAlign | ExceedsDomain | CannotFitRegion | AbiDisagrees | NotPreCompiler | BackendDisagrees
  | InvalidDefault | InvalidAlignment | NoArrayBacking | ArenaLimit

section \<open>Aligning within a limit\<close>

definition AlignWithin :: "u64 \<Rightarrow> u64 \<Rightarrow> u64 \<Rightarrow> u64 option" where
  "AlignWithin value alignment limit =
     (if \<not> isPowerOf2 alignment \<or> value > limit then None
      else
        (let remainder = value AND (alignment - 1);
             padding = (if remainder \<noteq> 0 then alignment - remainder else 0)
         in if padding > limit - value then None else Some (value + padding)))"

lemma align_to_padding:
  assumes "0 < a"
  shows "align_to v a = v + (if v mod a = 0 then 0 else a - v mod a)"
proof -
  have v: "v = v div a * a + v mod a" by simp
  show ?thesis
  proof (cases "v mod a = 0")
    case True
    then show ?thesis using align_to_self [OF assms] by (simp add: mod_eq_0_iff_dvd)
  next
    case False
    have lt: "v mod a < a" using assms by simp
    let ?w = "v + (a - v mod a)"
    have "?w = v div a * a + a" using v lt by linarith
    then have "?w = (v div a + 1) * a" by simp
    then have dvd: "a dvd ?w" by simp
    have "align_to v a \<le> ?w" by (rule align_to_least [OF assms _ dvd]) simp
    moreover have "\<not> align_to v a < ?w"
    proof
      assume less: "align_to v a < ?w"
      obtain q where q: "align_to v a = a * q" using align_to_dvd [of a v] by (rule dvdE)
      have "v div a * a < a * q" using align_to_ge [OF assms, of v] q v False by linarith
      then have "v div a < q" by (simp add: mult.commute)
      then have "(v div a + 1) * a \<le> q * a" by (intro mult_le_mono1) simp
      then show False using less q \<open>?w = (v div a + 1) * a\<close> by (simp add: mult.commute)
    qed
    ultimately show ?thesis using False by simp
  qed
qed

lemma AlignWithin_eq:
  "AlignWithin value alignment limit =
     (if isPowerOf2 alignment \<and> value \<le> limit \<and> align_to (unat value) (unat alignment) \<le> unat limit
      then Some (word_of_nat (align_to (unat value) (unat alignment))) else None)"
proof (cases "isPowerOf2 alignment \<and> value \<le> limit")
  case True
  then obtain k where k: "k < 64" "unat alignment = 2 ^ k"
    using pow2_test [of alignment] by (auto simp: isPowerOf2_def)
  have a: "alignment = 2 ^ k" using word_of_unat [OF k(2)] by simp
  have le: "unat value \<le> unat limit" using True by (simp add: word_le_nat_alt)
  define r where "r = value AND (alignment - 1)"
  have r: "unat r = unat value mod 2 ^ k"
    unfolding r_def a by (simp add: unat_mask_mod flip: mask_eq_exp_minus_1)
  define p where "p = (if r \<noteq> 0 then alignment - r else 0)"
  have "unat r < 2 ^ k" using r by simp
  then have "unat (alignment - r) = 2 ^ k - unat r"
    using k(2) unat_sub [of r alignment] by (simp add: word_le_nat_alt)
  then have p: "unat value + unat p = align_to (unat value) (2 ^ k)"
    using r unat_eq_zero [of r] unfolding p_def by (simp add: align_to_padding)
  have room: "unat (limit - value) = unat limit - unat value"
    using True by (intro unat_sub) simp
  have cond: "\<not> p > limit - value \<longleftrightarrow> align_to (unat value) (2 ^ k) \<le> unat limit"
    using room p le by (auto simp: word_less_nat_alt)
  show ?thesis
  proof (cases "align_to (unat value) (2 ^ k) \<le> unat limit")
    case fits: True
    have "align_to (unat value) (2 ^ k) < 2 ^ 64" by (rule le_less_trans [OF fits]) simp
    then have "unat (value + p) = align_to (unat value) (2 ^ k)"
      using p unat_add_lem [of "value" p] by simp
    then have "value + p = word_of_nat (align_to (unat value) (2 ^ k))" by (rule word_of_unat)
    then show ?thesis
      using True cond fits k(2) by (simp add: AlignWithin_def Let_def r_def [symmetric] p_def [symmetric] not_less)
  next
    case False
    then show ?thesis
      using True cond k(2) by (simp add: AlignWithin_def Let_def r_def [symmetric] p_def [symmetric] not_less)
  qed
qed (auto simp: AlignWithin_def not_less)

section \<open>Placing globals\<close>

text \<open>What placement reads of a global: its alignment (one when it has none), the ABI alignment and
  allocation size of its type, whether its initializer is null, and whether it is the call stack.\<close>

record global_variable =
  gv_align :: u64
  gv_abi_align :: u64
  gv_size :: u64
  gv_null :: bool
  gv_call_stack :: bool

definition addressLimit :: u64 where "addressLimit = push_bit 32 1"
definition region_span :: u64 where "region_span = push_bit BPF_CAPSULE_MEMORY_REGION_SHIFT 1"

definition movable_rank :: "global_variable \<Rightarrow> nat" where
  "movable_rank g = (if \<not> gv_null g then 0 else if gv_call_stack g then 2 else 1)"

definition straddles :: "u64 \<Rightarrow> u64 \<Rightarrow> bool" where
  "straddles cursor bytes \<longleftrightarrow> bytes \<noteq> 0 \<and> bytes \<le> region_span \<and>
     drop_bit BPF_CAPSULE_MEMORY_REGION_SHIFT cursor \<noteq>
       drop_bit BPF_CAPSULE_MEMORY_REGION_SHIFT (cursor + bytes - 1)"

definition place_fixed_global :: "u64 \<Rightarrow> global_variable \<Rightarrow> layout_error + u64" where
  "place_fixed_global cursor g =
     (case AlignWithin cursor (max (gv_align g) 8) addressLimit of
        None \<Rightarrow> Inl CannotAlign
      | Some cursor \<Rightarrow>
          if gv_size g > addressLimit - cursor then Inl ExceedsDomain
          else if straddles cursor (gv_size g) then
            (case AlignWithin cursor region_span addressLimit of
               None \<Rightarrow> Inl CannotFitRegion
             | Some cursor \<Rightarrow> if gv_size g > addressLimit - cursor then Inl CannotFitRegion else Inr cursor)
          else Inr cursor)"

definition place_sparse_global :: "u64 \<Rightarrow> global_variable \<Rightarrow> layout_error + u64" where
  "place_sparse_global virtualSize g =
     (case AlignWithin virtualSize (max (gv_align g) (gv_abi_align g)) addressLimit of
        None \<Rightarrow> Inl CannotAlign
      | Some virtualSize \<Rightarrow> if gv_size g > addressLimit - virtualSize then Inl ExceedsDomain else Inr virtualSize)"

text \<open>The two placement loops: the offset of each global and the cursor after the last.\<close>

fun place_globals ::
  "(u64 \<Rightarrow> global_variable \<Rightarrow> layout_error + u64) \<Rightarrow> u64 \<Rightarrow> global_variable list \<Rightarrow>
     layout_error + u64 list \<times> u64" where
  "place_globals place cursor [] = Inr ([], cursor)"
| "place_globals place cursor (g # gs) =
     (case place cursor g of
        Inl e \<Rightarrow> Inl e
      | Inr at \<Rightarrow>
          (case place_globals place (at + gv_size g) gs of
             Inl e \<Rightarrow> Inl e
           | Inr (offsets, end_cursor) \<Rightarrow> Inr (at # offsets, end_cursor)))"

text \<open>The placement of a module: null page first, then every movable global but the call stack, then
  the 16-byte aligned heap base.\<close>

definition place_module ::
  "(u64 \<Rightarrow> global_variable \<Rightarrow> layout_error + u64) \<Rightarrow> global_variable list \<Rightarrow> layout_error + u64 list \<times> u64" where
  "place_module place gs =
     (case place_globals place (ucast BPF_CAPSULE_ARENA_PAGE_SIZE) gs of
        Inl e \<Rightarrow> Inl e
      | Inr (offsets, cursor) \<Rightarrow>
          (case AlignWithin cursor 16 addressLimit of
             None \<Rightarrow> Inl ExceedsDomain | Some heapBase \<Rightarrow> Inr (offsets, heapBase)))"

definition fixed_order :: "global_variable list \<Rightarrow> global_variable list" where
  "fixed_order movable = filter (\<lambda>g. \<not> gv_call_stack g) (sort_key movable_rank movable)"

lemma addressLimit_nat [simp]: "unat addressLimit = 4294967296"
  by (simp add: addressLimit_def push_bit_eq_mult)

lemma region_span_nat [simp]: "unat region_span = 4194304"
  by (simp add: region_span_def BPF_CAPSULE_MEMORY_REGION_SHIFT_def push_bit_eq_mult)

lemma AlignWithin_Some:
  assumes "AlignWithin cursor a limit = Some at"
  shows "isPowerOf2 a" and "unat at = align_to (unat cursor) (unat a)" and "unat at \<le> unat limit"
proof -
  show "isPowerOf2 a" using assms by (auto simp: AlignWithin_eq split: if_splits)
  have fits: "align_to (unat cursor) (unat a) \<le> unat limit"
    and "at": "at = word_of_nat (align_to (unat cursor) (unat a))"
    using assms by (auto simp: AlignWithin_eq split: if_splits)
  have "align_to (unat cursor) (unat a) < 2 ^ LENGTH(64)" by (rule le_less_trans [OF fits]) simp
  then show "unat at = align_to (unat cursor) (unat a)" unfolding "at" by (rule unat_of_nat_small)
  then show "unat at \<le> unat limit" using fits by simp
qed

text \<open>What one placed object satisfies after \<open>cursor\<close>.\<close>

definition placed_after :: "nat \<Rightarrow> nat \<Rightarrow> global_variable \<Rightarrow> u64 \<Rightarrow> bool" where
  "placed_after a cursor g at \<longleftrightarrow> cursor \<le> unat at \<and> a dvd unat at \<and> unat at + unat (gv_size g) \<le> 2 ^ 32"

lemma room_after:
  assumes "\<not> bytes > addressLimit - at" and "unat at \<le> unat addressLimit"
  shows "unat at + unat bytes \<le> 2 ^ 32"
  using assms unat_sub [of "at" addressLimit] by (auto simp: word_less_nat_alt word_le_nat_alt)

lemma place_sparse_ok:
  assumes "place_sparse_global cursor g = Inr at"
  shows "placed_after (unat (max (gv_align g) (gv_abi_align g))) (unat cursor) g at"
proof -
  let ?a = "max (gv_align g) (gv_abi_align g)"
  have some: "AlignWithin cursor ?a addressLimit = Some at" and room: "\<not> gv_size g > addressLimit - at"
    using assms by (auto simp: place_sparse_global_def split: option.splits if_splits)
  note al = AlignWithin_Some [OF some]
  have "0 < unat ?a" using al(1) by (simp add: isPowerOf2_def unat_gt_0)
  then show ?thesis
    using al align_to_ge room_after [OF room al(3)] by (simp add: placed_after_def)
qed

definition in_one_region :: "global_variable \<Rightarrow> u64 \<Rightarrow> bool" where
  "in_one_region g at \<longleftrightarrow> (gv_size g \<noteq> 0 \<and> unat (gv_size g) \<le> 2 ^ 22 \<longrightarrow>
     unat at div 2 ^ 22 = (unat at + unat (gv_size g) - 1) div 2 ^ 22)"

lemma straddles_eq:
  assumes "unat cursor + unat bytes \<le> 2 ^ 32"
  shows "straddles cursor bytes \<longleftrightarrow> bytes \<noteq> 0 \<and> unat bytes \<le> 2 ^ 22 \<and>
    unat cursor div 2 ^ 22 \<noteq> (unat cursor + unat bytes - 1) div 2 ^ 22"
proof (cases "bytes = 0")
  case False
  then have pos: "0 < unat bytes" by (simp add: unat_gt_0)
  have "unat cursor + unat bytes < 2 ^ 64" by (rule le_less_trans [OF assms]) simp
  then have "unat (cursor + bytes) = unat cursor + unat bytes" using unat_add_lem [of cursor bytes] by simp
  then have last: "unat (cursor + bytes - 1) = unat cursor + unat bytes - 1"
    using pos unat_sub [of 1 "cursor + bytes"] by (simp add: word_le_nat_alt)
  have "drop_bit 22 cursor = drop_bit 22 (cursor + bytes - 1) \<longleftrightarrow>
      unat (drop_bit 22 cursor) = unat (drop_bit 22 (cursor + bytes - 1))"
    by (simp only: word_unat_eq_iff)
  then have "drop_bit 22 cursor = drop_bit 22 (cursor + bytes - 1) \<longleftrightarrow>
      unat cursor div 2 ^ 22 = (unat cursor + unat bytes - 1) div 2 ^ 22"
    by (simp only: unat_drop_bit_div last)
  then show ?thesis
    using False by (simp only: straddles_def BPF_CAPSULE_MEMORY_REGION_SHIFT_def) (simp add: word_le_nat_alt)
qed (simp add: straddles_def)

lemma region_aligned_fits:
  fixes at s :: nat
  assumes "2 ^ 22 dvd at" and "s \<le> 2 ^ 22" and "0 < s"
  shows "at div 2 ^ 22 = (at + s - 1) div 2 ^ 22"
proof -
  obtain q where q: "at = 2 ^ 22 * q" using assms(1) by (rule dvdE)
  have "at + s - 1 = 2 ^ 22 * q + (s - 1)" using q assms(3) by simp
  moreover have "s - 1 < 2 ^ 22" using assms(2,3) by linarith
  ultimately show ?thesis using q by (simp only: div_mult_self4 div_less) simp
qed

lemma place_fixed_ok:
  assumes "place_fixed_global cursor g = Inr at"
  shows "placed_after (unat (max (gv_align g) 8)) (unat cursor) g at" and "in_one_region g at"
proof -
  let ?a = "max (gv_align g) 8" and ?s = "gv_size g"
  obtain c where some: "AlignWithin cursor ?a addressLimit = Some c" and room: "\<not> ?s > addressLimit - c"
    using assms by (auto simp: place_fixed_global_def split: option.splits if_splits)
  note al = AlignWithin_Some [OF some]
  obtain k where k: "unat ?a = 2 ^ k" using al(1) pow2_test [of ?a] by (auto simp: isPowerOf2_def)
  have ge: "unat cursor \<le> unat c" and dvd: "2 ^ k dvd unat c"
    using al(2) k align_to_ge by simp_all
  note fits = room_after [OF room al(3)]
  have "placed_after (2 ^ k) (unat cursor) g at \<and> in_one_region g at"
  proof (cases "straddles c ?s")
    case False
    then have "at = c" using assms some room by (simp add: place_fixed_global_def)
    then show ?thesis
      using False ge dvd fits by (auto simp: placed_after_def in_one_region_def straddles_eq)
  next
    case True
    then have s: "0 < unat ?s" "unat ?s \<le> 2 ^ 22"
      and cross: "unat c div 2 ^ 22 \<noteq> (unat c + unat ?s - 1) div 2 ^ 22"
      by (simp_all add: straddles_eq [OF fits] unat_gt_0)
    have next': "AlignWithin c region_span addressLimit = Some at" and room': "\<not> ?s > addressLimit - at"
      using assms some room True by (auto simp: place_fixed_global_def split: option.splits if_splits)
    note al' = AlignWithin_Some [OF next']
    have "k \<le> 22"
    proof (rule ccontr)
      assume "\<not> k \<le> 22"
      then have "2 ^ 22 dvd unat c" using dvd_trans [OF le_imp_power_dvd dvd, of 22] by simp
      then show False using cross region_aligned_fits [OF _ s(2,1)] by blast
    qed
    moreover have at: "2 ^ 22 dvd unat at" "unat c \<le> unat at"
      using al'(2) align_to_dvd [of "2 ^ 22" "unat c"] align_to_ge [of "2 ^ 22" "unat c"] by simp_all
    ultimately have "2 ^ k dvd unat at" using le_imp_power_dvd dvd_trans by blast
    then show ?thesis
      using ge at room_after [OF room' al'(3)] region_aligned_fits [OF at(1) s(2,1)]
      by (simp add: placed_after_def in_one_region_def)
  qed
  then show "placed_after (unat ?a) (unat cursor) g at" "in_one_region g at" using k by simp_all
qed

text \<open>What the placement loop relies on of the step that places one global.\<close>

locale global_placer =
  fixes place :: "u64 \<Rightarrow> global_variable \<Rightarrow> layout_error + u64"
    and alignment :: "global_variable \<Rightarrow> nat"
    and fits :: "global_variable \<Rightarrow> u64 \<Rightarrow> bool"
  assumes placed: "place cursor g = Inr at \<Longrightarrow> placed_after (alignment g) (unat cursor) g at"
    and fitting: "place cursor g = Inr at \<Longrightarrow> fits g at"
begin

lemma cursor_after:
  assumes "place cursor g = Inr at"
  shows "unat (at + gv_size g) = unat at + unat (gv_size g)" and "unat (at + gv_size g) \<le> 2 ^ 32"
proof -
  have le: "unat at + unat (gv_size g) \<le> 2 ^ 32" using placed [OF assms] by (simp add: placed_after_def)
  have "unat at + unat (gv_size g) < 2 ^ 64" by (rule le_less_trans [OF le]) simp
  then show sum: "unat (at + gv_size g) = unat at + unat (gv_size g)"
    using unat_add_lem [of "at" "gv_size g"] by simp
  then show "unat (at + gv_size g) \<le> 2 ^ 32" using le by simp
qed

lemma all_placed:
  assumes "place_globals place cursor gs = Inr (offsets, e)" and "unat cursor \<le> 2 ^ 32"
  shows "length offsets = length gs \<and> unat cursor \<le> unat e \<and> unat e \<le> 2 ^ 32 \<and>
    (\<forall>i<length gs. placed_after (alignment (gs ! i)) (unat cursor) (gs ! i) (offsets ! i) \<and>
      fits (gs ! i) (offsets ! i) \<and> unat (offsets ! i) + unat (gv_size (gs ! i)) \<le> unat e \<and>
      (\<forall>j<i. unat (offsets ! j) + unat (gv_size (gs ! j)) \<le> unat (offsets ! i)))"
  using assms
proof (induction gs arbitrary: cursor offsets)
  case (Cons g gs)
  obtain "at" rest where "at": "place cursor g = Inr at"
    and rest: "place_globals place (at + gv_size g) gs = Inr (rest, e)" "offsets = at # rest"
    using Cons.prems(1) by (auto split: sum.splits)
  note after = cursor_after [OF "at"] and here = placed [OF "at", unfolded placed_after_def]
  note IH = Cons.IH [OF rest(1) after(2)]
  have "placed_after a (unat cursor) x y" if "placed_after a (unat (at + gv_size g)) x y" for a x y
    using that here after(1) by (auto simp: placed_after_def)
  then show ?case
    using IH here fitting [OF "at"] placed [OF "at"] after(1) unfolding rest(2)
    by (auto simp: less_Suc_eq_0_disj placed_after_def)
qed auto

lemma module_placed:
  assumes "place_module place gs = Inr (offsets, heapBase)"
  shows "length offsets = length gs \<and> 16 dvd unat heapBase \<and> 2 ^ 12 \<le> unat heapBase \<and> unat heapBase \<le> 2 ^ 32 \<and>
    (\<forall>i<length gs. placed_after (alignment (gs ! i)) (2 ^ 12) (gs ! i) (offsets ! i) \<and>
      fits (gs ! i) (offsets ! i) \<and> unat (offsets ! i) + unat (gv_size (gs ! i)) \<le> unat heapBase \<and>
      (\<forall>j<i. unat (offsets ! j) + unat (gv_size (gs ! j)) \<le> unat (offsets ! i)))"
proof -
  obtain e where e: "place_globals place (ucast BPF_CAPSULE_ARENA_PAGE_SIZE) gs = Inr (offsets, e)"
    and base: "AlignWithin e 16 addressLimit = Some heapBase"
    using assms by (auto simp: place_module_def split: sum.splits option.splits)
  note al = AlignWithin_Some [OF base]
  have le: "unat e \<le> unat heapBase" "16 dvd unat heapBase"
    using al(2) align_to_ge [of 16 "unat e"] align_to_dvd [of 16 "unat e"] by simp_all
  have "unat (ucast BPF_CAPSULE_ARENA_PAGE_SIZE :: u64) = 2 ^ 12" by simp
  note all = all_placed [OF e, unfolded this]
  show ?thesis using all le al(3) by (auto intro: le_trans)
qed

end

interpretation fixed_placer: global_placer place_fixed_global "\<lambda>g. unat (max (gv_align g) 8)" in_one_region
  by unfold_locales (auto dest: place_fixed_ok)

interpretation sparse_placer: global_placer place_sparse_global
  "\<lambda>g. unat (max (gv_align g) (gv_abi_align g))" "\<lambda>_ _. True"
  by unfold_locales (auto dest: place_sparse_ok)

text \<open>C22: program storage is laid out without overlap on both tiers. Every placed global is aligned to
  its own alignment and the least one its tier asks, starts above the null page, ends at or below the heap base and after every
  global placed before it; the heap base is 16-byte aligned inside the 32-bit domain. On the fixed
  tier no global of at most one region crosses a region boundary, so an access with a known base has
  a compile-time region.\<close>

theorem globals_disjoint:
  assumes "place_module (if fixed then place_fixed_global else place_sparse_global) gs = Inr (offsets, heapBase)"
  shows "length offsets = length gs \<and> 16 dvd unat heapBase \<and> 2 ^ 12 \<le> unat heapBase \<and> unat heapBase \<le> 2 ^ 32 \<and>
    (\<forall>i<length gs. unat (max (gv_align (gs ! i)) (if fixed then 8 else gv_abi_align (gs ! i))) dvd
        unat (offsets ! i) \<and> 2 ^ 12 \<le> unat (offsets ! i) \<and>
      unat (offsets ! i) + unat (gv_size (gs ! i)) \<le> unat heapBase \<and>
      (\<forall>j<i. unat (offsets ! j) + unat (gv_size (gs ! j)) \<le> unat (offsets ! i)) \<and>
      (fixed \<longrightarrow> in_one_region (gs ! i) (offsets ! i)))"
proof (cases fixed)
  case True
  then show ?thesis using fixed_placer.module_placed [of gs offsets heapBase] assms by (simp add: placed_after_def)
next
  case False
  then show ?thesis using sparse_placer.module_placed [of gs offsets heapBase] assms by (simp add: placed_after_def)
qed

definition sample_globals :: "global_variable list" where
  "sample_globals = [\<lparr>gv_align = 4, gv_abi_align = 4, gv_size = 0x3fe000, gv_null = False, gv_call_stack = False\<rparr>,
     \<lparr>gv_align = 16, gv_abi_align = 8, gv_size = 0x2000, gv_null = True, gv_call_stack = False\<rparr>]"

lemma sample_placed: "place_module place_fixed_global sample_globals = Inr ([0x1000, 0x400000], 0x402000)"
  by code_simp

theorem globals_disjoint_witness:
  "place_module (if True then place_fixed_global else place_sparse_global) sample_globals =
     Inr ([0x1000, 0x400000], 0x402000) \<and> in_one_region (sample_globals ! 1) 0x400000"
  using globals_disjoint [of True sample_globals "[0x1000, 0x400000]" "0x402000"] sample_placed
  by (auto simp: sample_globals_def)

section \<open>The default configuration\<close>

text \<open>\<open>ConfigureObjectLayout\<close>: the record of the linked runtime, checked and filled in. Sums are of
  numbers: each is bounded by a check before it.\<close>

definition ConfigureObjectLayout ::
  "object_config \<Rightarrow> u32 \<Rightarrow> nat \<Rightarrow> nat \<Rightarrow> nat \<Rightarrow> nat \<Rightarrow> u32 \<Rightarrow> nat \<Rightarrow> nat \<Rightarrow> layout_error + object_config" where
  "ConfigureObjectLayout initial directRegions heapBase stackBytesPerFiber maxFibers arenaImagePages
     memoryBackend stackFloor stackAlignment =
     (let heapBytes = unat (cfg_heap_bytes initial); fiberCount = unat (cfg_fiber_count initial);
          declaredStackBytes = unat (cfg_stack_bytes_per_fiber initial)
      in if declaredStackBytes \<noteq> 0 \<and> declaredStackBytes \<noteq> stackBytesPerFiber \<or>
            unat (cfg_max_fibers initial) \<noteq> maxFibers \<or> cfg_abi_magic initial \<noteq> BPF_CAPSULE_ABI_MAGIC \<or>
            cfg_abi_version initial \<noteq> BPF_CAPSULE_ABI_VERSION then Inl AbiDisagrees
         else if cfg_heap_base initial \<noteq> 0 \<or> cfg_stack_base initial \<noteq> 0 \<or> cfg_memory_end initial \<noteq> 0 \<or>
            cfg_arena_image_pages initial \<noteq> 0 \<or> cfg_direct_memory_regions initial \<noteq> 0 then Inl NotPreCompiler
         else if cfg_memory_backend initial \<noteq> memoryBackend then Inl BackendDisagrees
         else if fiberCount = 0 \<or> fiberCount > maxFibers \<or> stackBytesPerFiber = 0 \<or> heapBase > 2 ^ 32 \<or>
            heapBytes > 2 ^ 32 - heapBase then Inl InvalidDefault
         else
           (let heapEnd = heapBase + heapBytes
            in if \<not> isPowerOf2 (word_of_nat stackAlignment :: u64) then Inl InvalidAlignment
               else
                 (let stackBase = align_to (max heapEnd stackFloor) stackAlignment
                  in if stackBase > 2 ^ 32 \<or> fiberCount > (2 ^ 32 - stackBase) div stackBytesPerFiber
                     then Inl ExceedsDomain
                     else
                       (let memoryEnd = stackBase + fiberCount * stackBytesPerFiber
                        in if memoryEnd > 0xFFFFFFFF then Inl ExceedsDomain
                           else Inr \<lparr>cfg_heap_base = word_of_nat heapBase, cfg_heap_bytes = word_of_nat heapBytes,
                             cfg_stack_base = word_of_nat stackBase, cfg_memory_end = word_of_nat memoryEnd,
                             cfg_fiber_count = word_of_nat fiberCount,
                             cfg_stack_bytes_per_fiber = word_of_nat stackBytesPerFiber,
                             cfg_max_fibers = word_of_nat maxFibers,
                             cfg_arena_image_pages = word_of_nat arenaImagePages,
                             cfg_memory_backend = memoryBackend, cfg_direct_memory_regions = directRegions,
                             cfg_abi_magic = BPF_CAPSULE_ABI_MAGIC, cfg_abi_version = BPF_CAPSULE_ABI_VERSION,
                             cfg_memory_view_base = 0\<rparr>))))"

text \<open>The two callers: the record and the size baked into the backend map.\<close>

definition fixed_default :: "object_config \<Rightarrow> u32 \<Rightarrow> nat \<Rightarrow> nat \<Rightarrow> nat \<Rightarrow> layout_error + object_config \<times> nat" where
  "fixed_default initial directRegions heapBase stackBytesPerFiber maxFibers =
     (case ConfigureObjectLayout initial directRegions heapBase stackBytesPerFiber maxFibers 0
             BPF_CAPSULE_MEMORY_FIXED (unat directRegions * 2 ^ 22) (2 ^ 22) of
        Inl e \<Rightarrow> Inl e
      | Inr c \<Rightarrow>
          (let defaultRegions = (unat (cfg_memory_end c) + 2 ^ 22 - 1) div 2 ^ 22;
               arrayRegions = defaultRegions - unat directRegions
           in if arrayRegions = 0 then Inl NoArrayBacking else Inr (c, arrayRegions)))"

definition arena_default :: "object_config \<Rightarrow> nat \<Rightarrow> nat \<Rightarrow> nat \<Rightarrow> nat \<Rightarrow> layout_error + object_config \<times> nat" where
  "arena_default initial heapBase stackBytesPerFiber maxFibers initializedPages =
     (case ConfigureObjectLayout initial 0 heapBase stackBytesPerFiber maxFibers initializedPages
             BPF_CAPSULE_MEMORY_ARENA 0 (max 4096 stackBytesPerFiber) of
        Inl e \<Rightarrow> Inl e
      | Inr c \<Rightarrow>
          (let virtualPages = (unat (cfg_memory_end c) + 4095) div 4096;
               total = virtualPages + initializedPages + slack_pages stackBytesPerFiber
           in if total > 2 ^ 20 then Inl ArenaLimit else Inr (c, max 1 total)))"

text \<open>The bytes the initialized image of the arena may take, with worst-case alignment.\<close>

fun initialized_bytes :: "nat \<Rightarrow> global_variable list \<Rightarrow> nat option" where
  "initialized_bytes n [] = Some n"
| "initialized_bytes n (g # gs) =
     (let align = max (unat (gv_align g)) (unat (gv_abi_align g)); n' = n + (align - 1)
      in if align - 1 > 2 ^ 32 - n then None
         else if unat (gv_size g) > 2 ^ 32 - n' then None
         else initialized_bytes (n' + unat (gv_size g)) gs)"

definition default_request :: "object_config \<Rightarrow> capsule_config" where
  "default_request c = \<lparr>req_fiber_count = cfg_fiber_count c, req_heap_bytes = ucast (cfg_heap_bytes c)\<rparr>"

lemma configured_facts:
  assumes "ConfigureObjectLayout initial d hb S mf pages backend floor al = Inr c"
  shows "cfg_fiber_count c = cfg_fiber_count initial" and "cfg_heap_bytes c = cfg_heap_bytes initial"
    and "cfg_heap_base c = word_of_nat hb" and "hb < 2 ^ 32"
    and "cfg_stack_bytes_per_fiber c = word_of_nat S" and "cfg_max_fibers c = word_of_nat mf"
    and "cfg_arena_image_pages c = word_of_nat pages" and "cfg_memory_backend c = backend"
    and "cfg_direct_memory_regions c = d" and "cfg_abi_magic c = BPF_CAPSULE_ABI_MAGIC"
    and "cfg_abi_version c = BPF_CAPSULE_ABI_VERSION" and "cfg_fiber_count initial \<noteq> 0"
    and "unat (cfg_fiber_count initial) \<le> mf" and "mf < 2 ^ 32" and "0 < S"
    and "align_to (max (hb + unat (cfg_heap_bytes initial)) floor) al +
      unat (cfg_fiber_count initial) * S < 2 ^ 32"
    and "cfg_stack_base c = word_of_nat (align_to (max (hb + unat (cfg_heap_bytes initial)) floor) al)"
    and "cfg_memory_end c = word_of_nat (align_to (max (hb + unat (cfg_heap_bytes initial)) floor) al +
      unat (cfg_fiber_count initial) * S)"
proof -
  note cfg = assms [unfolded ConfigureObjectLayout_def Let_def]
  show "cfg_fiber_count c = cfg_fiber_count initial" "cfg_heap_bytes c = cfg_heap_bytes initial"
    "cfg_heap_base c = word_of_nat hb" "cfg_stack_bytes_per_fiber c = word_of_nat S"
    "cfg_max_fibers c = word_of_nat mf" "cfg_arena_image_pages c = word_of_nat pages"
    "cfg_memory_backend c = backend" "cfg_direct_memory_regions c = d"
    "cfg_abi_magic c = BPF_CAPSULE_ABI_MAGIC" "cfg_abi_version c = BPF_CAPSULE_ABI_VERSION"
    "cfg_stack_base c = word_of_nat (align_to (max (hb + unat (cfg_heap_bytes initial)) floor) al)"
    "cfg_memory_end c = word_of_nat (align_to (max (hb + unat (cfg_heap_bytes initial)) floor) al +
      unat (cfg_fiber_count initial) * S)"
    using cfg by (auto split: if_splits)
  show count: "cfg_fiber_count initial \<noteq> 0" "unat (cfg_fiber_count initial) \<le> mf" "0 < S"
    using cfg by (auto split: if_splits)
  have "mf = unat (cfg_max_fibers initial)" using cfg by (auto split: if_splits)
  then show "mf < 2 ^ 32" by simp
  show sum: "align_to (max (hb + unat (cfg_heap_bytes initial)) floor) al +
      unat (cfg_fiber_count initial) * S < 2 ^ 32"
    using cfg by (auto split: if_splits)
  have "isPowerOf2 (word_of_nat al :: u64)" using cfg by (auto split: if_splits)
  then have "0 < al" by (cases al) (simp_all add: isPowerOf2_def)
  then show "hb < 2 ^ 32"
    using sum align_to_ge [of al "max (hb + unat (cfg_heap_bytes initial)) floor"] by simp
qed

text \<open>A configured record is already what the host would plan for its own capacities.\<close>

lemma configured_is_planned:
  assumes "ConfigureObjectLayout initial d hb S mf pages backend floor al = Inr c"
    and "bpf_capsule_layout_header_valid c" and "S < 2 ^ 32"
    and "floor = stack_floor c" and "al = stack_alignment c"
    and "backend = BPF_CAPSULE_MEMORY_ARENA \<Longrightarrow> spec_entries c (unat (cfg_memory_end c)) \<le> 2 ^ 20"
  shows "bpf_capsule_plan (Some c) 56 (default_request c) True =
    Inr (c, word_of_nat (spec_entries c (unat (cfg_memory_end c))))"
proof -
  note f = configured_facts [OF assms(1)]
  let ?h = "unat (cfg_heap_bytes initial)" and ?n = "unat (cfg_fiber_count initial)"
  have S: "unat (cfg_stack_bytes_per_fiber c) = S" using f(5) assms(3) by (simp add: unat_of_nat_small)
  have hb: "unat (cfg_heap_base c) = hb" using f(3,4) by (simp add: unat_of_nat_small)
  have base: "spec_stack_base c ?h = align_to (max (hb + ?h) floor) al"
    by (simp add: spec_stack_base_def hb assms(4,5))
  have m: "spec_memory_end c ?h ?n = align_to (max (hb + ?h) floor) al + ?n * S"
    by (simp add: spec_memory_end_def base S)
  have end_nat: "unat (cfg_memory_end c) = spec_memory_end c ?h ?n"
    unfolding f(18) m by (rule unat_of_nat_small) (use f(16) in simp)
  have "unat (cfg_max_fibers c) = mf" using f(6,14) by (simp add: unat_of_nat_small)
  then have ok: "req_fiber_count (default_request c) \<noteq> 0"
    "req_fiber_count (default_request c) \<le> cfg_max_fibers c" "config_bytes \<le> 56"
    using f(1,12,13) by (simp_all add: default_request_def word_le_nat_alt config_bytes_def)
  have req: "unat (req_heap_bytes (default_request c)) = ?h" "unat (req_fiber_count (default_request c)) = ?n"
    using f(1,2) by (simp_all add: default_request_def)
  have rec: "planned_record c (default_request c) (spec_stack_base c ?h) (spec_memory_end c ?h ?n) = c"
  proof -
    have "ucast (ucast (cfg_heap_bytes c) :: u64) = cfg_heap_bytes c"
      by (rule word_unat_eq_iff [THEN iffD2]) (simp add: unsigned_ucast_eq [where 'b = 64] take_bit_nat_eq_self)
    then show ?thesis
      unfolding planned_record_def base m f(17,18) [symmetric] by (simp add: default_request_def)
  qed
  have "plan_spec c ?h ?n = Some (spec_stack_base c ?h, spec_memory_end c ?h ?n, spec_entries c (spec_memory_end c ?h ?n))"
    using f(8,16) m assms(6) end_nat by (simp add: plan_spec_def Let_def)
  then show ?thesis using plan_eq_spec [OF assms(2) ok] req rec end_nat by simp
qed

text \<open>C23: the compiler's default layout and the host's planning arithmetic agree. On either tier, the
  record the compiler bakes is a fixed point of the plan for its own capacities: the host, asked for
  the default heap and fiber count, returns the same record and resizes the backend map to the size
  the compiler gave it.\<close>

theorem default_layout_replans:
  assumes "bpf_capsule_layout_header_valid c" and "S < 2 ^ 32" and "pages < 2 ^ 32"
    and "(if arena then arena_default initial hb S mf pages else fixed_default initial d hb S mf) = Inr (c, entries)"
  shows "bpf_capsule_plan (Some c) 56 (default_request c) True = Inr (c, word_of_nat entries)"
proof (cases arena)
  case True
  then have cfg: "ConfigureObjectLayout initial 0 hb S mf pages BPF_CAPSULE_MEMORY_ARENA 0 (max 4096 S) = Inr c"
    and e: "entries = max 1 ((unat (cfg_memory_end c) + 4095) div 4096 + pages + slack_pages S)"
      "(unat (cfg_memory_end c) + 4095) div 4096 + pages + slack_pages S \<le> 2 ^ 20"
    using assms(4) by (auto simp: arena_default_def Let_def split: sum.splits if_splits)
  note f = configured_facts [OF cfg]
  have S: "unat (cfg_stack_bytes_per_fiber c) = S" using f(5) assms(2) by (simp add: unat_of_nat_small)
  have spec: "spec_entries c (unat (cfg_memory_end c)) =
      (unat (cfg_memory_end c) + 4095) div 4096 + pages + slack_pages S"
    using f(7,8) assms(3) S by (simp add: spec_entries_def unat_of_nat_small)
  have "0 < unat (cfg_memory_end c)"
    unfolding f(18) using f(12,15,16) by (simp add: unat_of_nat_small unat_gt_0 del: of_nat_add of_nat_mult)
  then have "1 \<le> (unat (cfg_memory_end c) + 4095) div 4096" by (simp add: Suc_le_eq div_greater_zero_iff)
  then have "entries = spec_entries c (unat (cfg_memory_end c))" using e(1) spec by simp
  moreover have "max 4096 S = stack_alignment c" "0 = stack_floor c"
    using f(8) S by (simp_all add: stack_alignment_def stack_floor_def max.commute)
  ultimately show ?thesis
    using configured_is_planned [OF cfg assms(1,2)] e(2) spec by simp
next
  case False
  then have cfg: "ConfigureObjectLayout initial d hb S mf 0 BPF_CAPSULE_MEMORY_FIXED (unat d * 2 ^ 22) (2 ^ 22) = Inr c"
    and e: "entries = (unat (cfg_memory_end c) + 2 ^ 22 - 1) div 2 ^ 22 - unat d"
    using assms(4) by (auto simp: fixed_default_def Let_def split: sum.splits if_splits)
  note f = configured_facts [OF cfg]
  have tier: "BPF_CAPSULE_MEMORY_FIXED \<noteq> BPF_CAPSULE_MEMORY_ARENA" by (simp add: layout_constants)
  then have "entries = spec_entries c (unat (cfg_memory_end c))" using e f(8,9) by (simp add: spec_entries_def)
  moreover have "2 ^ 22 = stack_alignment c" "unat d * 2 ^ 22 = stack_floor c"
    using f(8,9) tier by (simp_all add: stack_alignment_def stack_floor_def)
  ultimately show ?thesis using configured_is_planned [OF cfg assms(1,2)] tier by simp
qed

definition sample_runtime :: object_config where
  "sample_runtime = \<lparr>cfg_heap_base = 0, cfg_heap_bytes = 0x100000, cfg_stack_base = 0, cfg_memory_end = 0,
     cfg_fiber_count = 3, cfg_stack_bytes_per_fiber = 0, cfg_max_fibers = 4, cfg_arena_image_pages = 0,
     cfg_memory_backend = 0, cfg_direct_memory_regions = 0, cfg_abi_magic = BPF_CAPSULE_ABI_MAGIC,
     cfg_abi_version = BPF_CAPSULE_ABI_VERSION, cfg_memory_view_base = 0\<rparr>"

definition sample_default :: object_config where
  "sample_default = sample_object\<lparr>cfg_heap_bytes := 0x100000, cfg_stack_base := 0x800000,
     cfg_memory_end := 0x830000, cfg_fiber_count := 3\<rparr>"

theorem default_layout_replans_witness:
  "bpf_capsule_plan (Some sample_default) 56 (default_request sample_default) True =
    Inr (sample_default, word_of_nat 1)"
proof (rule default_layout_replans [where arena = False])
  show "bpf_capsule_layout_header_valid sample_default" by code_simp
  show "(if False then arena_default sample_runtime 0x5000 0x10000 4 0
     else fixed_default sample_runtime 2 0x5000 0x10000 4) = Inr (sample_default, 1)"
    by (simp add: fixed_default_def ConfigureObjectLayout_def sample_runtime_def sample_default_def
        sample_object_def layout_constants isPowerOf2_def align_to_def Let_def max_def)
qed simp_all

end
