(* ===== verification/Arena_Init.thy ===== *)
theory Arena_Init
  imports Object_Layout
begin

text \<open>
  Bringing up an arena object: the generated initializer (\<open>ProduceInitGlobalsFunction\<close> of
  \<open>memory.cpp\<close>), which elects one initializer by a compare-and-exchange on the readiness word, commits
  the sparse storage, publishes the aligned base and the pointer fixups and only then readiness, and
  the gate the pass puts in front of every application entry. Several invocations run at once; each
  step below is one atomic access of the shared record. The kernel's page allocator is not part of
  the repository: its answer is an argument of the step, and \<open>alloc_ok\<close> states what is documented of
  it.
\<close>

record 'w arena_shared =
  ar_ready :: u32
  ar_virtual_base :: u64
  ar_image :: 'w

text \<open>The constants of a compiled object: the slice size, the loaded record and the stores of
  \<open>EmitArenaFixups\<close> for a given base.\<close>

record 'w arena_object =
  ao_stack_size :: u32
  ao_config :: object_config
  ao_fixups :: "u64 \<Rightarrow> 'w \<Rightarrow> 'w"

definition selected_pages :: "'w arena_object \<Rightarrow> u32" where
  "selected_pages obj = ucast (drop_bit BPF_CAPSULE_ARENA_PAGE_SHIFT
     ((ucast (cfg_memory_end (ao_config obj)) :: u64) + (ucast BPF_CAPSULE_ARENA_PAGE_SIZE - 1)) +
     BPF_CAPSULE_ARENA_SLICE_SLACK_PAGES (ao_stack_size obj))"

definition published_base :: "'w arena_object \<Rightarrow> u64 \<Rightarrow> u64" where
  "published_base obj allocation =
     (if BPF_CAPSULE_ARENA_SLICE_SLACK_PAGES (ao_stack_size obj) \<noteq> 0
      then (allocation + (ucast (ao_stack_size obj) - 1)) AND NOT (ucast (ao_stack_size obj) - 1)
      else allocation)"

text \<open>The blocks of the generated function; \<open>Returned\<close> carries its return value.\<close>

datatype init_pc = Enter | Claim | Allocate | Initialize u64 | Fixups | Publish | Failed | Returned int

text \<open>One step; \<open>answer\<close> is what \<open>bpf_arena_alloc_pages\<close> returns, null on failure.\<close>

definition init_step ::
  "'w arena_object \<Rightarrow> u64 \<Rightarrow> init_pc \<Rightarrow> 'w arena_shared \<Rightarrow> init_pc \<times> 'w arena_shared" where
  "init_step obj answer pc sh =
     (case pc of
        Enter \<Rightarrow> (if ar_ready sh = 2 then Returned 0 else Claim, sh)
      | Claim \<Rightarrow> if ar_ready sh = 0 then (Allocate, sh\<lparr>ar_ready := 1\<rparr>)
                 else (if ar_ready sh = 2 then Returned 0 else Returned (- EAGAIN), sh)
      | Allocate \<Rightarrow> (if answer \<noteq> 0 then Initialize answer else Failed, sh)
      | Initialize allocation \<Rightarrow> (Fixups, sh\<lparr>ar_virtual_base := published_base obj allocation\<rparr>)
      | Fixups \<Rightarrow> (Publish, sh\<lparr>ar_image := ao_fixups obj (ar_virtual_base sh) (ar_image sh)\<rparr>)
      | Publish \<Rightarrow> (Returned 0, sh\<lparr>ar_ready := 2\<rparr>)
      | Failed \<Rightarrow> (Returned (- ENOMEM), sh\<lparr>ar_ready := 0\<rparr>)
      | Returned r \<Rightarrow> (Returned r, sh))"

text \<open>The gate of an application entry: refused until readiness is published, then inside with the
  base it reads.\<close>

datatype entry_pc = AtGate | Ready | Refused | Inside u64

definition entry_step :: "entry_pc \<Rightarrow> 'w arena_shared \<Rightarrow> entry_pc" where
  "entry_step pc sh =
     (case pc of
        AtGate \<Rightarrow> if ar_ready sh \<noteq> 2 then Refused else Ready
      | Ready \<Rightarrow> Inside (ar_virtual_base sh)
      | Refused \<Rightarrow> Refused
      | Inside b \<Rightarrow> Inside b)"

text \<open>The code a refused entry returns: the error for a syscall program, zero for the others.\<close>

definition refused_code :: "bool \<Rightarrow> int" where
  "refused_code syscall = (if syscall then - EAGAIN else 0)"

section \<open>Interleaved invocations\<close>

type_synonym 'w arena_system = "(nat \<Rightarrow> init_pc) \<times> (nat \<Rightarrow> entry_pc) \<times> 'w arena_shared"

text \<open>Documented of \<open>bpf_arena_alloc_pages\<close>: null, or the page-aligned address of that many pages.\<close>

definition alloc_ok :: "u32 \<Rightarrow> u64 \<Rightarrow> bool" where
  "alloc_ok pages a \<longleftrightarrow> a = 0 \<or> 4096 dvd unat a \<and> unat a + unat pages * 4096 \<le> 2 ^ 64"

inductive arena_step :: "'w arena_object \<Rightarrow> 'w arena_system \<Rightarrow> 'w arena_system \<Rightarrow> bool" for obj where
  initializer: "init_step obj answer (inits p) sh = (pc, sh') \<Longrightarrow> alloc_ok (selected_pages obj) answer \<Longrightarrow>
    arena_step obj (inits, entries, sh) (inits(p := pc), entries, sh')"
| entry: "arena_step obj (inits, entries, sh) (inits, entries(p := entry_step (entries p) sh), sh)"

inductive_cases arena_stepE: "arena_step obj s s'"

text \<open>The states of an object loaded with image \<open>w\<close>.\<close>

inductive arena_reachable :: "'w arena_object \<Rightarrow> 'w \<Rightarrow> 'w arena_system \<Rightarrow> bool" for obj w where
  start: "ar_ready sh = 0 \<Longrightarrow> ar_image sh = w \<Longrightarrow> arena_reachable obj w (\<lambda>_. Enter, \<lambda>_. AtGate, sh)"
| step: "arena_reachable obj w s \<Longrightarrow> arena_step obj s s' \<Longrightarrow> arena_reachable obj w s'"

section \<open>The published base\<close>

text \<open>A base whose image lies inside an allocation and which is aligned to the slices.\<close>

definition base_ok :: "'w arena_object \<Rightarrow> u64 \<Rightarrow> bool" where
  "base_ok obj b \<longleftrightarrow> (\<exists>a. a \<noteq> 0 \<and> alloc_ok (selected_pages obj) a \<and> unat a \<le> unat b \<and>
     unat (ao_stack_size obj) dvd unat b \<and>
     unat b + unat (cfg_memory_end (ao_config obj)) \<le> unat a + unat (selected_pages obj) * 4096)"

text \<open>A slice size the layout accepts, and an image that is not empty.\<close>

definition slices_ok :: "'w arena_object \<Rightarrow> bool" where
  "slices_ok obj \<longleftrightarrow> cfg_memory_end (ao_config obj) \<noteq> 0 \<and> (\<exists>k\<le>22. unat (ao_stack_size obj) = 2 ^ k)"

lemma align_to_pages:
  assumes "(4096::nat) dvd a" and "4096 dvd S" and "0 < S"
  shows "align_to a S + 4096 \<le> a + S"
proof -
  have less: "align_to a S < a + S" by (rule align_to_less [OF assms(3)])
  have "4096 dvd align_to a S" using assms(2) align_to_dvd by (rule dvd_trans)
  then obtain x where x: "align_to a S = 4096 * x" by (rule dvdE)
  obtain y where y: "a = 4096 * y" using assms(1) by (rule dvdE)
  obtain z where z: "S = 4096 * z" using assms(2) by (rule dvdE)
  have "x < y + z" using less x y z by linarith
  then have "x + 1 \<le> y + z" by simp
  then show ?thesis using x y z by linarith
qed

lemma selected_pages_nat:
  assumes "slices_ok obj"
  shows "unat (selected_pages obj) = (unat (cfg_memory_end (ao_config obj)) + 4095) div 4096 +
    slack_pages (unat (ao_stack_size obj))"
proof -
  let ?m = "unat (cfg_memory_end (ao_config obj))"
  obtain k where k: "k \<le> 22" "unat (ao_stack_size obj) = 2 ^ k" using assms by (auto simp: slices_ok_def)
  have "(2::nat) ^ k \<le> 2 ^ 22" using k(1) by (simp only: power_increasing)
  then have slack: "slack_pages (unat (ao_stack_size obj)) \<le> 1024"
    using k(2) div_le_mono [of "2 ^ k" "2 ^ 22" 4096] by (auto simp: slack_pages_def)
  have m: "?m < 2 ^ 32" by simp
  define w where "w = drop_bit BPF_CAPSULE_ARENA_PAGE_SHIFT
    ((ucast (cfg_memory_end (ao_config obj)) :: u64) + (ucast BPF_CAPSULE_ARENA_PAGE_SIZE - 1))"
  have "ucast (cfg_memory_end (ao_config obj)) = (word_of_nat ?m :: u64)" by (rule word_of_unat) simp
  then have w: "unat w = (?m + 4095) div 4096"
    using round_up_shift [OF m, of "ucast BPF_CAPSULE_ARENA_PAGE_SIZE" 12]
    by (simp add: w_def BPF_CAPSULE_ARENA_PAGE_SHIFT_def add_diff_eq)
  have "?m < 4294967296" by simp
  then have "?m + 4095 < 1048577 * 4096" by linarith
  then have "(?m + 4095) div 4096 < 1048577" by (rule less_mult_imp_div_less)
  then have pages: "(?m + 4095) div 4096 \<le> 1048576" by linarith
  have sum: "unat (w + BPF_CAPSULE_ARENA_SLICE_SLACK_PAGES (ao_stack_size obj)) =
      (?m + 4095) div 4096 + slack_pages (unat (ao_stack_size obj))"
    using w slack pages unat_add_lem [of w "BPF_CAPSULE_ARENA_SLICE_SLACK_PAGES (ao_stack_size obj)"]
    by (simp add: slack_word)
  then show ?thesis
    unfolding selected_pages_def w_def [symmetric] unsigned_ucast_eq
    using pages slack by (simp add: take_bit_nat_eq_self)
qed

lemma slack_zero: "BPF_CAPSULE_ARENA_SLICE_SLACK_PAGES s = 0 \<longleftrightarrow> slack_pages (unat s) = 0"
  using slack_word [of s] unat_eq_zero [of "BPF_CAPSULE_ARENA_SLICE_SLACK_PAGES s"] by simp

lemma published_base_ok:
  assumes "slices_ok obj" and "alloc_ok (selected_pages obj) a" and "a \<noteq> 0"
  shows "base_ok obj (published_base obj a)"
proof -
  let ?S = "unat (ao_stack_size obj)" and ?m = "unat (cfg_memory_end (ao_config obj))"
  obtain k where k: "k \<le> 22" "?S = 2 ^ k" using assms(1) by (auto simp: slices_ok_def)
  have a: "4096 dvd unat a" "unat a + unat (selected_pages obj) * 4096 \<le> 2 ^ 64"
    using assms(2,3) by (simp_all add: alloc_ok_def)
  note pages = selected_pages_nat [OF assms(1)]
  have m: "?m \<le> (?m + 4095) div 4096 * 4096" using align_to_ge [of 4096 ?m] by (simp add: align_to_def)
  show ?thesis
  proof (cases "4096 < ?S")
    case True
    then have "(2::nat) ^ 12 < 2 ^ k" using k(2) by simp
    then have k12: "12 < k" by (rule power_less_imp_less_exp [rotated]) simp
    have dvd: "4096 dvd ?S" using k(2) le_imp_power_dvd [of 12 k "2::nat"] k12 by simp
    then have page_S: "slack_pages ?S * 4096 = ?S - 4096" using True by (simp add: slack_pages_def diff_mult_distrib)
    have "?S div 4096 \<ge> 2" using True dvd by (auto elim!: dvdE)
    then have slack: "slack_pages ?S \<noteq> 0" using True by (simp add: slack_pages_def)
    have w: "(ucast (ao_stack_size obj) :: u64) = 2 ^ k"
      using word_of_unat [of "ucast (ao_stack_size obj) :: u64" "2 ^ k"] k(2) by simp
    have "0 < ?m" using assms(1) by (simp add: slices_ok_def unat_gt_0)
    then have "1 \<le> (?m + 4095) div 4096" by (simp add: Suc_le_eq div_greater_zero_iff)
    then have "?S \<le> unat (selected_pages obj) * 4096"
      using page_S True unfolding pages by (simp add: add_mult_distrib)
    then have "unat a + 2 ^ k - 1 < 2 ^ LENGTH(64)" using a(2) k(2) True by simp
    then have b: "unat (published_base obj a) = align_to (unat a) ?S"
      using unat_align_up [OF refl, of k a] k slack w by (simp add: published_base_def slack_zero add_diff_eq)
    have "align_to (unat a) ?S + ?m \<le> unat a + unat (selected_pages obj) * 4096"
      using align_to_pages [OF a(1) dvd] m True page_S unfolding pages by (simp add: add_mult_distrib)
    then show ?thesis
      unfolding base_ok_def using b assms(2,3) align_to_ge [of ?S "unat a"] True by (intro exI [of _ a]) auto
  next
    case False
    then have "(2::nat) ^ k \<le> 2 ^ 12" using k(2) by simp
    then have "k \<le> 12" by (rule power_le_imp_le_exp [rotated]) simp
    then have "?S dvd 4096" using k(2) le_imp_power_dvd [of k 12 "2::nat"] by simp
    then have "?S dvd unat a" using a(1) by (rule dvd_trans)
    moreover have "published_base obj a = a" using False by (simp add: published_base_def slack_zero slack_pages_def)
    moreover have "unat a + ?m \<le> unat a + unat (selected_pages obj) * 4096"
      using m unfolding pages by (simp add: add_mult_distrib)
    ultimately show ?thesis unfolding base_ok_def using assms(2,3) by (intro exI [of _ a]) simp
  qed
qed

section \<open>One initializer at a time\<close>

definition holds_init :: "init_pc \<Rightarrow> bool" where
  "holds_init pc \<longleftrightarrow> (case pc of
     Allocate \<Rightarrow> True | Initialize _ \<Rightarrow> True | Fixups \<Rightarrow> True | Publish \<Rightarrow> True | Failed \<Rightarrow> True | _ \<Rightarrow> False)"

text \<open>The readiness word tells who holds initialization: nobody, exactly one, or nobody any more.\<close>

definition ready_inv :: "'w arena_object \<Rightarrow> (nat \<Rightarrow> init_pc) \<Rightarrow> 'w arena_shared \<Rightarrow> bool" where
  "ready_inv obj inits sh \<longleftrightarrow>
     ar_ready sh = 0 \<and> (\<forall>p. \<not> holds_init (inits p)) \<or>
     ar_ready sh = 1 \<and> (\<exists>h. holds_init (inits h) \<and> (\<forall>p. holds_init (inits p) \<longrightarrow> p = h)) \<or>
     ar_ready sh = 2 \<and> (\<forall>p. \<not> holds_init (inits p)) \<and> base_ok obj (ar_virtual_base sh)"

definition work_inv :: "'w arena_object \<Rightarrow> (nat \<Rightarrow> init_pc) \<Rightarrow> 'w arena_shared \<Rightarrow> bool" where
  "work_inv obj inits sh \<longleftrightarrow> (\<forall>p. case inits p of
     Initialize a \<Rightarrow> a \<noteq> 0 \<and> alloc_ok (selected_pages obj) a
   | Fixups \<Rightarrow> base_ok obj (ar_virtual_base sh)
   | Publish \<Rightarrow> base_ok obj (ar_virtual_base sh)
   | _ \<Rightarrow> True)"

definition entry_inv :: "(nat \<Rightarrow> entry_pc) \<Rightarrow> 'w arena_shared \<Rightarrow> bool" where
  "entry_inv entries sh \<longleftrightarrow> (\<forall>p. case entries p of
     Ready \<Rightarrow> ar_ready sh = 2 | Inside b \<Rightarrow> ar_ready sh = 2 \<and> b = ar_virtual_base sh | _ \<Rightarrow> True)"

lemma ready_cases:
  assumes "ready_inv obj inits sh" and "holds_init (inits p)"
  shows "ar_ready sh = 1" and "\<And>q. q \<noteq> p \<Longrightarrow> \<not> holds_init (inits q)"
  using assms by (auto simp: ready_inv_def)

lemma ready_free:
  assumes "ready_inv obj inits sh" and "\<not> holds_init (inits p)" and "\<not> holds_init pc"
  shows "ready_inv obj (inits(p := pc)) sh"
  using assms by (auto simp: ready_inv_def)

lemma work_keep:
  assumes "work_inv obj inits sh" and "\<And>q. q \<noteq> p \<Longrightarrow> \<not> holds_init (inits q)"
    and "case pc of Initialize a \<Rightarrow> a \<noteq> 0 \<and> alloc_ok (selected_pages obj) a
      | Fixups \<Rightarrow> base_ok obj (ar_virtual_base sh') | Publish \<Rightarrow> base_ok obj (ar_virtual_base sh') | _ \<Rightarrow> True"
  shows "work_inv obj (inits(p := pc)) sh'"
  unfolding work_inv_def
proof
  fix q
  show "case (inits(p := pc)) q of Initialize a \<Rightarrow> a \<noteq> 0 \<and> alloc_ok (selected_pages obj) a
      | Fixups \<Rightarrow> base_ok obj (ar_virtual_base sh') | Publish \<Rightarrow> base_ok obj (ar_virtual_base sh') | _ \<Rightarrow> True"
    using assms(2) [of q] assms(3) by (cases "q = p") (auto simp: holds_init_def split: init_pc.splits)
qed

lemma init_step_inv:
  assumes "slices_ok obj" and "ready_inv obj inits sh" and "work_inv obj inits sh" and "entry_inv entries sh"
    and "init_step obj answer (inits p) sh = (pc, sh')" and "alloc_ok (selected_pages obj) answer"
  shows "ready_inv obj (inits(p := pc)) sh' \<and> work_inv obj (inits(p := pc)) sh' \<and> entry_inv entries sh'"
proof (cases "holds_init (inits p)")
  case True
  note one = ready_cases [OF assms(2) True]
  have none: "entries q \<noteq> Ready" "\<And>b. entries q \<noteq> Inside b" for q
    using assms(4) one(1) by (auto simp: entry_inv_def split: entry_pc.splits dest: spec [of _ q])
  have entry: "entry_inv entries sh'" using none by (auto simp: entry_inv_def split: entry_pc.splits)
  have work: "case inits p of Initialize a \<Rightarrow> a \<noteq> 0 \<and> alloc_ok (selected_pages obj) a
      | Fixups \<Rightarrow> base_ok obj (ar_virtual_base sh) | Publish \<Rightarrow> base_ok obj (ar_virtual_base sh) | _ \<Rightarrow> True"
    using assms(3) by (simp add: work_inv_def)
  have "work_inv obj (inits(p := pc)) sh'"
    by (rule work_keep [OF assms(3) one(2)])
      (use True work assms(5,6) published_base_ok [OF assms(1)] in
        \<open>auto simp: init_step_def holds_init_def split: init_pc.splits if_splits\<close>)
  moreover have "ready_inv obj (inits(p := pc)) sh'"
    using True work one assms(5)
    by (auto simp: init_step_def ready_inv_def holds_init_def split: init_pc.splits if_splits)
  ultimately show ?thesis using entry by blast
next
  case False
  show ?thesis
  proof (cases "inits p = Claim \<and> ar_ready sh = 0")
    case True
    then have eq: "pc = Allocate" "sh' = sh\<lparr>ar_ready := 1\<rparr>" using assms(5) by (auto simp: init_step_def)
    have none: "\<not> holds_init (inits q)" for q using assms(2) True by (auto simp: ready_inv_def)
    have "ready_inv obj (inits(p := pc)) sh'" using none by (auto simp: ready_inv_def eq holds_init_def)
    moreover have "work_inv obj (inits(p := pc)) sh'"
      by (rule work_keep [OF assms(3)]) (use none eq in auto)
    moreover have "entry_inv entries sh'"
      using assms(4) True unfolding entry_inv_def by (auto simp: eq split: entry_pc.splits)
    ultimately show ?thesis by blast
  next
    case quiet: False
    then have eq: "sh' = sh" "\<not> holds_init pc"
      using False assms(5) by (auto simp: init_step_def holds_init_def split: init_pc.splits if_splits)
    have "work_inv obj (inits(p := pc)) sh"
      using assms(3) eq(2) by (auto simp: work_inv_def holds_init_def split: init_pc.splits)
    then show ?thesis using ready_free [OF assms(2) False eq(2)] assms(4) eq(1) by simp
  qed
qed

text \<open>The fixups have been applied once exactly when the publishing step is next or readiness is out.\<close>

definition image_inv :: "'w arena_object \<Rightarrow> 'w \<Rightarrow> (nat \<Rightarrow> init_pc) \<Rightarrow> 'w arena_shared \<Rightarrow> bool" where
  "image_inv obj w inits sh \<longleftrightarrow>
     (if ar_ready sh = 2 \<or> (\<exists>p. inits p = Publish)
      then ar_image sh = ao_fixups obj (ar_virtual_base sh) w else ar_image sh = w)"

lemma image_step:
  assumes "ready_inv obj inits sh" and "image_inv obj w inits sh"
    and "init_step obj answer (inits p) sh = (pc, sh')"
  shows "image_inv obj w (inits(p := pc)) sh'"
proof (cases "holds_init (inits p)")
  case True
  have others: "inits q \<noteq> Publish" if "q \<noteq> p" for q
    using ready_cases(2) [OF assms(1) True that] by (auto simp: holds_init_def)
  then have pub: "(\<exists>q. (inits(p := x)) q = Publish) \<longleftrightarrow> x = Publish" for x by (metis fun_upd_apply)
  have here: "(\<exists>q. inits q = Publish) \<longleftrightarrow> inits p = Publish" using others by metis
  have "ar_ready sh = 1" by (rule ready_cases(1) [OF assms(1) True])
  then show ?thesis
    using assms(2,3) True unfolding image_inv_def pub here
    by (cases "inits p") (auto simp: init_step_def holds_init_def split: if_splits)
next
  case False
  have np: "inits p \<noteq> Publish" "pc \<noteq> Publish"
    using False assms(3) by (cases "inits p", auto simp: init_step_def holds_init_def split: if_splits)+
  then have pub: "(\<exists>q. (inits(p := pc)) q = Publish) \<longleftrightarrow> (\<exists>q. inits q = Publish)"
    by (metis fun_upd_apply)
  have "ar_image sh' = ar_image sh \<and> ar_virtual_base sh' = ar_virtual_base sh \<and>
      (ar_ready sh' = 2 \<longleftrightarrow> ar_ready sh = 2)"
    using False assms(3) by (cases "inits p") (auto simp: init_step_def holds_init_def split: if_splits)
  then show ?thesis using assms(2) unfolding image_inv_def pub by simp
qed

lemma arena_invariant:
  assumes "slices_ok obj" and "arena_reachable obj w s"
  shows "case s of (inits, entries, sh) \<Rightarrow>
    ready_inv obj inits sh \<and> work_inv obj inits sh \<and> entry_inv entries sh \<and> image_inv obj w inits sh"
  using assms(2)
proof (induction rule: arena_reachable.induct)
  case (start sh)
  then show ?case by (simp add: ready_inv_def work_inv_def entry_inv_def holds_init_def image_inv_def)
next
  case (step s s')
  from step.hyps(2) show ?case
  proof (cases rule: arena_step.cases)
    case (initializer answer inits p sh pc sh' entries)
    then show ?thesis using step.IH init_step_inv [OF assms(1)] image_step by fastforce
  next
    case (entry inits entries sh p)
    then show ?thesis
      using step.IH by (auto simp: entry_inv_def entry_step_def split: entry_pc.splits)
  qed
qed


definition sample_arena :: "u64 list arena_object" where
  "sample_arena = \<lparr>ao_stack_size = 0x10000, ao_config = sample_default\<lparr>cfg_memory_backend := 1\<rparr>,
     ao_fixups = (\<lambda>b w. map ((+) b) w)\<rparr>"

lemma sample_slices: "slices_ok sample_arena"
  by (auto simp: slices_ok_def sample_arena_def sample_default_def intro!: exI [of _ 16])

lemma reach_init:
  assumes "arena_reachable obj w (inits, entries, sh)" and "init_step obj answer (inits p) sh = (pc, sh')"
    and "alloc_ok (selected_pages obj) answer"
  shows "arena_reachable obj w (inits(p := pc), entries, sh')"
  using assms by (blast intro: arena_reachable.step arena_step.initializer)

lemma reach_entry:
  assumes "arena_reachable obj w (inits, entries, sh)"
  shows "arena_reachable obj w (inits, entries(p := entry_step (entries p) sh), sh)"
  using assms by (blast intro: arena_reachable.step arena_step.entry)

text \<open>A lone initializer on a fresh object whose allocation is \<open>a\<close>, followed by an entry.\<close>

lemma lone_init:
  fixes sh :: "'w arena_shared"
  assumes "alloc_ok (selected_pages obj) a" and "a \<noteq> 0" and "ar_ready sh = 0" and "ar_image sh = w"
  shows "\<exists>inits entries sh'. arena_reachable obj w (inits, entries, sh') \<and>
    entries 0 = Inside (published_base obj a) \<and> inits 0 = Returned 0"
proof -
  let ?b = "published_base obj a"
  have "arena_reachable obj w (\<lambda>_. Enter, \<lambda>_. AtGate, sh)" using assms(3,4) by (rule arena_reachable.start)
  then have "arena_reachable obj w ((\<lambda>_. Enter)(0 := Claim), \<lambda>_. AtGate, sh)"
    by (rule reach_init) (use assms in \<open>auto simp: init_step_def\<close>)
  then have "arena_reachable obj w ((\<lambda>_. Enter)(0 := Allocate), \<lambda>_. AtGate, sh\<lparr>ar_ready := 1\<rparr>)"
    using assms reach_init [of obj w "(\<lambda>_. Enter)(0 := Claim)" _ sh a 0 Allocate "sh\<lparr>ar_ready := 1\<rparr>"]
    by (simp add: init_step_def)
  then have "arena_reachable obj w ((\<lambda>_. Enter)(0 := Initialize a), \<lambda>_. AtGate, sh\<lparr>ar_ready := 1\<rparr>)"
    using assms reach_init [of obj w "(\<lambda>_. Enter)(0 := Allocate)" _ "sh\<lparr>ar_ready := 1\<rparr>" a 0 "Initialize a"]
    by (simp add: init_step_def)
  then have "arena_reachable obj w ((\<lambda>_. Enter)(0 := Fixups), \<lambda>_. AtGate, sh\<lparr>ar_ready := 1, ar_virtual_base := ?b\<rparr>)"
    using assms reach_init [of obj w "(\<lambda>_. Enter)(0 := Initialize a)" _ "sh\<lparr>ar_ready := 1\<rparr>" a 0 Fixups]
    by (simp add: init_step_def)
  then have "arena_reachable obj w ((\<lambda>_. Enter)(0 := Publish), \<lambda>_. AtGate,
      sh\<lparr>ar_ready := 1, ar_virtual_base := ?b, ar_image := ao_fixups obj ?b w\<rparr>)"
    using assms reach_init [of obj w "(\<lambda>_. Enter)(0 := Fixups)" _
      "sh\<lparr>ar_ready := 1, ar_virtual_base := ?b\<rparr>" a 0 Publish] by (simp add: init_step_def)
  then have "arena_reachable obj w ((\<lambda>_. Enter)(0 := Returned 0), \<lambda>_. AtGate,
      sh\<lparr>ar_ready := 2, ar_virtual_base := ?b, ar_image := ao_fixups obj ?b w\<rparr>)"
    using assms reach_init [of obj w "(\<lambda>_. Enter)(0 := Publish)" _
      "sh\<lparr>ar_ready := 1, ar_virtual_base := ?b, ar_image := ao_fixups obj ?b w\<rparr>" a 0 "Returned 0"]
    by (simp add: init_step_def)
  then have "arena_reachable obj w ((\<lambda>_. Enter)(0 := Returned 0), (\<lambda>_. AtGate)(0 := Ready),
      sh\<lparr>ar_ready := 2, ar_virtual_base := ?b, ar_image := ao_fixups obj ?b w\<rparr>)"
    by (drule_tac reach_entry [where p = 0]) (simp add: entry_step_def)
  then have "arena_reachable obj w ((\<lambda>_. Enter)(0 := Returned 0), (\<lambda>_. AtGate)(0 := Inside ?b),
      sh\<lparr>ar_ready := 2, ar_virtual_base := ?b, ar_image := ao_fixups obj ?b w\<rparr>)"
    by (drule_tac reach_entry [where p = 0]) (simp add: entry_step_def)
  then show ?thesis by (metis fun_upd_same)
qed

lemma sample_alloc: "alloc_ok (selected_pages sample_arena) 0x100001000"
  unfolding alloc_ok_def selected_pages_nat [OF sample_slices]
  by (simp add: sample_arena_def sample_default_def slack_pages_def)


lemma holder_step:
  assumes "init_step obj 0 (inits p) sh = (pc, sh')"
  shows "arena_step obj (inits, entries, sh) (inits(p := pc), entries, sh')"
  using assms by (rule arena_step.initializer) (simp add: alloc_ok_def)

lemma holder_finishes:
  assumes "holds_init (inits h)"
  shows "\<exists>inits' sh'. (arena_step obj)\<^sup>*\<^sup>* (inits, entries, sh) (inits', entries, sh') \<and>
    (ar_ready sh' = 0 \<or> ar_ready sh' = 2)"
proof -
  let ?goal = "\<lambda>inits sh. \<exists>inits' sh'. (arena_step obj)\<^sup>*\<^sup>* (inits, entries, sh) (inits', entries, sh') \<and>
    (ar_ready sh' = 0 \<or> ar_ready sh' = 2)"
  have go: "?goal inits sh" if "init_step obj 0 (inits h) sh = (pc, sh')" "?goal (inits(h := pc)) sh'"
    for inits :: "nat \<Rightarrow> init_pc" and sh pc sh'
    using that(2) holder_step [where inits = inits and p = h and entries = entries, OF that(1)]
    by (meson converse_rtranclp_into_rtranclp)
  have stop: "?goal inits sh" if "ar_ready sh = 0 \<or> ar_ready sh = 2" for inits :: "nat \<Rightarrow> init_pc" and sh
    using that by blast
  have failed: "?goal inits sh" if "inits h = Failed" for inits :: "nat \<Rightarrow> init_pc" and sh
    by (rule go [of inits sh]) (use that in \<open>auto simp: init_step_def intro!: stop\<close>)
  have publish: "?goal inits sh" if "inits h = Publish" for inits :: "nat \<Rightarrow> init_pc" and sh
    by (rule go [of inits sh]) (use that in \<open>auto simp: init_step_def intro!: stop\<close>)
  have fixups: "?goal inits sh" if "inits h = Fixups" for inits :: "nat \<Rightarrow> init_pc" and sh
    by (rule go [of inits sh]) (use that in \<open>auto simp: init_step_def intro!: publish\<close>)
  have init: "?goal inits sh" if "inits h = Initialize a" for inits :: "nat \<Rightarrow> init_pc" and sh a
    by (rule go [of inits sh]) (use that in \<open>auto simp: init_step_def intro!: fixups\<close>)
  have allocate: "?goal inits sh" if "inits h = Allocate" for inits :: "nat \<Rightarrow> init_pc" and sh
    by (rule go [of inits sh]) (use that in \<open>auto simp: init_step_def intro!: failed\<close>)
  show ?thesis
    using assms failed publish fixups init allocate by (cases "inits h") (auto simp: holds_init_def)
qed



end
