(* ===== verification/Atomic_Loops.thy ===== *)
theory Atomic_Loops
  imports Byte_Memory
begin

text \<open>
  The code that \<open>atomics.cpp\<close> generates for atomic operations that BPF does not have: compare-exchange
  loops on the aligned 32-bit word that contains a byte or half-word, and on a whole word for the
  bitwise operations. A loop is a machine of one step per memory access, and any number of loops run
  interleaved with each other and with arbitrary other writers. The locale \<open>atomic_loop\<close> is the
  contract between a generated loop and the single atomic operation it stands for.
\<close>

section \<open>Generated values\<close>

datatype rmw_operation = Add | Sub | And | Nand | Or | Xor | Xchg | Other string

definition AtomicOperation :: "rmw_operation \<Rightarrow> ('n::len word \<Rightarrow> 'n word \<Rightarrow> 'n word) option" where
  "AtomicOperation operation =
     (case operation of
        Add \<Rightarrow> Some (\<lambda>old operand. old + operand)
      | Sub \<Rightarrow> Some (\<lambda>old operand. old - operand)
      | And \<Rightarrow> Some (\<lambda>old operand. old AND operand)
      | Nand \<Rightarrow> Some (\<lambda>old operand. NOT (old AND operand))
      | Or \<Rightarrow> Some (\<lambda>old operand. old OR operand)
      | Xor \<Rightarrow> Some (\<lambda>old operand. old XOR operand)
      | Xchg \<Rightarrow> Some (\<lambda>old operand. operand)
      | Other _ \<Rightarrow> None)"

record NarrowWord =
  nw_Pointer :: u64
  nw_Shift :: u32
  nw_Mask :: u32

definition NarrowWordFor :: "u64 \<Rightarrow> nat \<Rightarrow> NarrowWord" where
  "NarrowWordFor address bits =
     (let byte = address AND 3; aligned = address AND (- 4); shift = (ucast byte :: u32) * 8;
          lowMask = (if bits = 32 then - 1 else push_bit bits 1 - 1)
      in \<lparr>nw_Pointer = aligned, nw_Shift = shift, nw_Mask = push_bit (unat shift) lowMask\<rparr>)"

definition ExtractNarrow :: "u32 \<Rightarrow> u32 \<Rightarrow> 'n::len word" where
  "ExtractNarrow word shift = ucast (drop_bit (unat shift) word)"

definition ReplaceNarrow :: "u32 \<Rightarrow> u32 \<Rightarrow> u32 \<Rightarrow> 'n::len word \<Rightarrow> u32" where
  "ReplaceNarrow word shift fieldMask value =
     (let inserted = push_bit (unat shift) (ucast value); preserved = word AND NOT fieldMask;
          replacement = inserted AND fieldMask
      in preserved OR replacement)"

text \<open>Naturally sized integer accesses.\<close>

definition load_int :: "bytes \<Rightarrow> u64 \<Rightarrow> 'n::len word" where
  "load_int m p = ucast (load_le m (unat p) (LENGTH('n) div 8))"

definition store_int :: "bytes \<Rightarrow> u64 \<Rightarrow> 'n::len word \<Rightarrow> bytes" where
  "store_int m p v = store_le m (unat p) (LENGTH('n) div 8) (ucast v)"

definition CreateCas :: "bytes \<Rightarrow> u64 \<Rightarrow> 'n::len word \<Rightarrow> 'n word \<Rightarrow> 'n word \<times> bool \<times> bytes" where
  "CreateCas m p expected desired =
     (let observed = load_int m p
      in (observed, observed = expected, if observed = expected then store_int m p desired else m))"

section \<open>Generated loops\<close>

text \<open>\<open>Retry\<close> holds the phi node \<open>atomic.current\<close>; \<open>Done\<close> what replaces the uses of the operation.\<close>

datatype ('w, 'r) loop_pc = Start | Retry 'w | Done 'r

fun LowerNarrowRmw ::
  "('n::len word \<Rightarrow> 'n word) \<Rightarrow> u64 \<Rightarrow> (u32, 'n word) loop_pc \<Rightarrow> bytes \<Rightarrow> (u32, 'n word) loop_pc \<times> bytes" where
  "LowerNarrowRmw f pointer Start m = (Retry (load_int m (nw_Pointer (NarrowWordFor pointer LENGTH('n)))), m)"
| "LowerNarrowRmw f pointer (Retry current) m =
     (let target = NarrowWordFor pointer LENGTH('n); oldValue = ExtractNarrow current (nw_Shift target);
          newValue = f oldValue; desired = ReplaceNarrow current (nw_Shift target) (nw_Mask target) newValue
      in case CreateCas m (nw_Pointer target) current desired of
           (observed, success, m') \<Rightarrow> (if success then Done oldValue else Retry observed, m'))"
| "LowerNarrowRmw f pointer (Done r) m = (Done r, m)"

fun LowerWideRmw ::
  "('n::len word \<Rightarrow> 'n word) \<Rightarrow> u64 \<Rightarrow> ('n word, 'n word) loop_pc \<Rightarrow> bytes \<Rightarrow> ('n word, 'n word) loop_pc \<times> bytes" where
  "LowerWideRmw f pointer Start m = (Retry (load_int m pointer), m)"
| "LowerWideRmw f pointer (Retry current) m =
     (case CreateCas m pointer current (f current) of
        (observed, success, m') \<Rightarrow> (if success then Done current else Retry observed, m'))"
| "LowerWideRmw f pointer (Done r) m = (Done r, m)"

text \<open>The compare-exchange tests a word it has read before it attempts to replace it; the test is part of
  the step that reads.\<close>

definition compare_narrow :: "'n::len word \<Rightarrow> NarrowWord \<Rightarrow> u32 \<Rightarrow> (u32, 'n word \<times> bool) loop_pc" where
  "compare_narrow compare target current =
     (let observedValue = ExtractNarrow current (nw_Shift target)
      in if observedValue = compare then Retry current else Done (observedValue, False))"

fun LowerNarrowCmpXchg ::
  "'n::len word \<Rightarrow> 'n word \<Rightarrow> u64 \<Rightarrow> (u32, 'n word \<times> bool) loop_pc \<Rightarrow> bytes \<Rightarrow>
     (u32, 'n word \<times> bool) loop_pc \<times> bytes" where
  "LowerNarrowCmpXchg compare new pointer Start m =
     (let target = NarrowWordFor pointer LENGTH('n)
      in (compare_narrow compare target (load_int m (nw_Pointer target)), m))"
| "LowerNarrowCmpXchg compare new pointer (Retry current) m =
     (let target = NarrowWordFor pointer LENGTH('n);
          desired = ReplaceNarrow current (nw_Shift target) (nw_Mask target) new
      in case CreateCas m (nw_Pointer target) current desired of
           (observedWord, success, m') \<Rightarrow>
             (if success then Done (ExtractNarrow current (nw_Shift target), True)
              else compare_narrow compare target observedWord, m'))"
| "LowerNarrowCmpXchg compare new pointer (Done r) m = (Done r, m)"

text \<open>A load stronger than monotonic becomes an addition of zero to the containing word.\<close>

definition lower_narrow_load :: "u64 \<Rightarrow> bytes \<Rightarrow> 'n::len word \<times> bytes" where
  "lower_narrow_load pointer m =
     (let target = NarrowWordFor pointer LENGTH('n); word = (load_int m (nw_Pointer target) :: u32)
      in (ExtractNarrow word (nw_Shift target), store_int m (nw_Pointer target) (word + 0)))"

section \<open>A field of its containing word\<close>

text \<open>An access that \<open>LowerManagedAtomicsPass\<close> accepts: a byte or half-word, naturally aligned.\<close>

definition narrow_ok :: "nat \<Rightarrow> u64 \<Rightarrow> bool" where
  "narrow_ok bits pointer \<longleftrightarrow> (bits = 8 \<or> bits = 16) \<and> unat pointer mod (bits div 8) = 0"

lemma unat_low_bits: "unat (p AND 3 :: u64) = unat p mod 4"
  using unat_mask_mod [of p 2] by (simp add: mask_eq_exp_minus_1)

lemma unat_word_base: "unat (p AND (- 4) :: u64) = unat p - unat p mod 4"
proof -
  have "(- 4 :: u64) = NOT (mask 2)" by (simp add: mask_eq_exp_minus_1 not_eq_complement)
  then show ?thesis using unat_and_not_mask [of p 2] by (simp add: minus_mod_eq_div_mult)
qed

lemma unat_field_shift: "unat (ucast (p AND 3 :: u64) * 8 :: u32) = 8 * (unat p mod 4)"
proof -
  have "unat (p AND 3) < 4" using unat_low_bits [of p] by simp
  then have "unat (ucast (p AND 3) :: u32) = unat p mod 4"
    by (simp add: unsigned_ucast_eq take_bit_nat_eq_self unat_low_bits)
  then show ?thesis by (simp add: unat_word_ariths)
qed

lemmas narrow_parts = unat_low_bits unat_word_base unat_field_shift

lemma NarrowWordFor_parts:
  "unat (nw_Pointer (NarrowWordFor p bits)) = unat p - unat p mod 4"
  "unat (nw_Shift (NarrowWordFor p bits)) = 8 * (unat p mod 4)"
  by (simp_all add: NarrowWordFor_def Let_def narrow_parts)

lemma narrow_inside: "narrow_ok bits p \<Longrightarrow> unat p mod 4 + bits div 8 \<le> 4"
proof -
  assume ok: "narrow_ok bits p"
  have "unat p mod 4 < 4" by simp
  moreover have "bits = 16 \<Longrightarrow> even (unat p mod 4)" using ok by (auto simp: narrow_ok_def even_iff_mod_2_eq_zero mod_mod_cancel)
  ultimately show ?thesis using ok by (auto simp: narrow_ok_def elim!: evenE)
qed

lemma bit_field_mask:
  assumes "narrow_ok bits p" and "k < 32"
  shows "bit (nw_Mask (NarrowWordFor p bits)) k \<longleftrightarrow> 8 * (unat p mod 4) \<le> k \<and> k < 8 * (unat p mod 4) + bits"
proof -
  have "bits \<noteq> 32" using assms(1) by (auto simp: narrow_ok_def)
  then have "nw_Mask (NarrowWordFor p bits) = push_bit (8 * (unat p mod 4)) (mask bits)"
    by (simp add: NarrowWordFor_def Let_def unat_field_shift mask_eq_exp_minus_1 push_bit_of_1)
  then show ?thesis using assms by (auto simp: bit_simps narrow_ok_def)
qed

text \<open>What the loop extracts from the word is the field, and writing back the replaced word writes the
  field and nothing else.\<close>

lemma extract_is_field:
  assumes "narrow_ok LENGTH('n::len) p"
  shows "(ExtractNarrow (load_int m (nw_Pointer (NarrowWordFor p LENGTH('n))))
      (nw_Shift (NarrowWordFor p LENGTH('n))) :: 'n word) = load_int m p"
proof (rule bit_word_eqI)
  fix k assume k: "k < LENGTH('n)"
  let ?b = "unat p mod 4"
  have "8 * ?b + k < 32" "8 * ?b + k < 64" "k < 64" using narrow_inside [OF assms] k assms by (auto simp: narrow_ok_def)
  moreover have "(8 * ?b + k) div 8 = ?b + k div 8" "(8 * ?b + k) mod 8 = k mod 8" by simp_all
  moreover have "k < 8 * (LENGTH('n) div 8)" using assms k by (auto simp: narrow_ok_def)
  moreover have "unat p - ?b + (?b + k div 8) = unat p + k div 8" by simp
  ultimately show "bit (ExtractNarrow (load_int m (nw_Pointer (NarrowWordFor p LENGTH('n))))
      (nw_Shift (NarrowWordFor p LENGTH('n))) :: 'n word) k = bit (load_int m p :: 'n word) k"
    using k by (simp add: ExtractNarrow_def load_int_def bit_simps bit_load_le NarrowWordFor_parts)
qed

lemma bit_replace_narrow:
  assumes "narrow_ok LENGTH('n::len) p" and "k < 32"
  shows "bit (ReplaceNarrow word (nw_Shift (NarrowWordFor p LENGTH('n))) (nw_Mask (NarrowWordFor p LENGTH('n)))
      (v :: 'n word)) k \<longleftrightarrow>
    (if 8 * (unat p mod 4) \<le> k \<and> k < 8 * (unat p mod 4) + LENGTH('n) then bit v (k - 8 * (unat p mod 4)) else bit word k)"
  using assms by (auto simp: ReplaceNarrow_def Let_def bit_simps bit_field_mask NarrowWordFor_parts)

lemma replace_is_field_store:
  assumes ok: "narrow_ok LENGTH('n::len) p" and word: "word = load_int m (nw_Pointer (NarrowWordFor p LENGTH('n)))"
  shows "store_int m (nw_Pointer (NarrowWordFor p LENGTH('n)))
      (ReplaceNarrow word (nw_Shift (NarrowWordFor p LENGTH('n))) (nw_Mask (NarrowWordFor p LENGTH('n))) (v :: 'n word))
    = store_int m p v" (is "store_int m ?w ?r = _")
proof
  fix x
  let ?b = "unat p mod 4" and ?n = "LENGTH('n) div 8"
  let ?a = "unat p - ?b"
  have inside: "?b + ?n \<le> 4" "LENGTH('n) = 8 * ?n" using narrow_inside [OF ok] ok by (auto simp: narrow_ok_def)
  have p: "unat p = ?a + ?b" by simp
  show "store_int m ?w ?r x = store_int m p v x"
  proof (cases "?a \<le> x \<and> x < ?a + 4")
    case False
    then have "\<not> (unat p \<le> x \<and> x < unat p + ?n)" using inside(1) p by linarith
    then show ?thesis using False by (auto simp: store_int_def store_le_def NarrowWordFor_parts)
  next
    case True
    define j where "j = x - ?a"
    have x: "x = ?a + j" "j < 4" using True by (auto simp: j_def)
    have L: "store_int m ?w ?r x = ucast (drop_bit (8 * j) (ucast ?r :: u64))"
      using True by (simp add: store_int_def store_le_def NarrowWordFor_parts j_def)
    show ?thesis
    proof (rule bit_word_eqI)
      fix k assume k: "k < LENGTH(8)"
      have k': "8 * j + k < 32" "8 * j + k < 64" using k x(2) by auto
      have d: "(8 * j + k) div 8 = j" "(8 * j + k) mod 8 = k" using k by simp_all
      have in_field: "(8 * ?b \<le> 8 * j + k \<and> 8 * j + k < 8 * ?b + LENGTH('n)) \<longleftrightarrow> ?b \<le> j \<and> j < ?b + ?n"
        using k inside(2) by auto
      have word_bit: "bit word (8 * j + k) \<longleftrightarrow> bit (m x) k"
        using k' d x by (simp add: word load_int_def bit_simps bit_load_le NarrowWordFor_parts)
      have lhs: "bit (store_int m ?w ?r x) k \<longleftrightarrow>
          (if ?b \<le> j \<and> j < ?b + ?n then bit v (8 * j + k - 8 * ?b) else bit (m x) k)"
        using k k' bit_replace_narrow [OF ok k'(1), of word v] in_field word_bit
        by (simp add: L bit_simps)
      have "bit (store_int m p v x) k \<longleftrightarrow> (if ?b \<le> j \<and> j < ?b + ?n then bit v (8 * j + k - 8 * ?b) else bit (m x) k)"
      proof (cases "?b \<le> j \<and> j < ?b + ?n")
        case True
        then have "unat p \<le> x \<and> x < unat p + ?n" "x - unat p = j - ?b" using x p by auto
        moreover have "8 * (j - ?b) + k < 64" "8 * (j - ?b) + k = 8 * j + k - 8 * ?b" using k' True by auto
        ultimately show ?thesis using True k by (simp add: store_int_def store_le_def bit_simps)
      next
        case False
        then have "\<not> (unat p \<le> x \<and> x < unat p + ?n)" using x p by auto
        then show ?thesis using False by (auto simp: store_int_def store_le_def)
      qed
      then show "bit (store_int m ?w ?r x) k = bit (store_int m p v x) k" using lhs by simp
    qed
  qed
qed

section \<open>Loops as atomic operations\<close>

text \<open>Loops named by \<open>'i\<close> run interleaved, a step at a time, with writes of anything else in the system.\<close>

datatype 'i event = Step 'i | Write "bytes \<Rightarrow> bytes"

fun run_loops ::
  "('i \<Rightarrow> ('w, 'r) loop_pc \<Rightarrow> bytes \<Rightarrow> ('w, 'r) loop_pc \<times> bytes) \<Rightarrow> 'i event list \<Rightarrow>
     ('i \<Rightarrow> ('w, 'r) loop_pc) \<times> bytes \<Rightarrow> ('i \<Rightarrow> ('w, 'r) loop_pc) \<times> bytes" where
  "run_loops step [] s = s"
| "run_loops step (Write g # es) (pcs, m) = run_loops step es (pcs, g m)"
| "run_loops step (Step i # es) (pcs, m) =
     (case step i (pcs i) m of (pc, m') \<Rightarrow> run_loops step es (pcs(i := pc), m'))"

fun result_of :: "('w, 'r) loop_pc \<Rightarrow> 'r option" where
  "result_of (Done r) = Some r"
| "result_of _ = None"

text \<open>The same events when every operation is a single atomic action: a step of it does nothing or
  performs the whole operation, once.\<close>

inductive atomic_run ::
  "('i \<Rightarrow> bytes \<Rightarrow> 'r \<times> bytes) \<Rightarrow> 'i event list \<Rightarrow> ('i \<Rightarrow> 'r option) \<times> bytes \<Rightarrow> ('i \<Rightarrow> 'r option) \<times> bytes \<Rightarrow> bool"
  for spec where
  nothing: "atomic_run spec [] s s"
| others: "atomic_run spec es (res, g m) s \<Longrightarrow> atomic_run spec (Write g # es) (res, m) s"
| idle: "atomic_run spec es (res, m) s \<Longrightarrow> atomic_run spec (Step i # es) (res, m) s"
| commit: "res i = None \<Longrightarrow> spec i m = (r, m') \<Longrightarrow> atomic_run spec es (res(i \<mapsto> r), m') s \<Longrightarrow>
    atomic_run spec (Step i # es) (res, m) s"

text \<open>The contract of a generated loop: a step that does not finish it leaves memory alone, a step that
  finishes it has the result and the effect of the operation at that moment, a finished loop does
  nothing, and a loop that has just read memory finishes unless memory changes.\<close>

locale atomic_loop =
  fixes step :: "'t \<Rightarrow> ('w, 'r) loop_pc \<Rightarrow> bytes \<Rightarrow> ('w, 'r) loop_pc \<times> bytes"
    and spec :: "'t \<Rightarrow> bytes \<Rightarrow> 'r \<times> bytes"
    and ok :: "'t \<Rightarrow> bool"
    and pc_ok :: "'t \<Rightarrow> ('w, 'r) loop_pc \<Rightarrow> bool"
  assumes finished: "step t (Done r) m = (Done r, m)"
    and commits: "ok t \<Longrightarrow> pc_ok t pc \<Longrightarrow> result_of pc = None \<Longrightarrow> step t pc m = (Done r, m') \<Longrightarrow> spec t m = (r, m')"
    and stutters: "step t pc m = (pc', m') \<Longrightarrow> result_of pc' = None \<Longrightarrow> m' = m"
    and keeps: "pc_ok t pc \<Longrightarrow> step t pc m = (pc', m') \<Longrightarrow> pc_ok t pc'"
    and starts: "pc_ok t Start"
    and retries: "step t pc m = (pc', m') \<Longrightarrow> \<exists>r m''. step t pc' m' = (Done r, m'')"
begin

lemma linearizes:
  assumes "run_loops (\<lambda>i. step (code i)) es (pcs, m) = (pcs', m')"
    and "\<And>i. ok (code i)" and "\<And>i. pc_ok (code i) (pcs i)"
  shows "atomic_run (\<lambda>i. spec (code i)) es (\<lambda>i. result_of (pcs i), m) (\<lambda>i. result_of (pcs' i), m')"
  using assms(1,3)
proof (induction es arbitrary: pcs m)
  case Nil
  then show ?case by (simp add: atomic_run.nothing)
next
  case (Cons e es)
  show ?case
  proof (cases e)
    case (Write g)
    then show ?thesis using Cons by (auto intro: atomic_run.others)
  next
    case (Step i)
    obtain pc m1 where s: "step (code i) (pcs i) m = (pc, m1)" by (cases "step (code i) (pcs i) m")
    have "pc_ok (code j) ((pcs(i := pc)) j)" for j using Cons.prems(2) keeps [OF _ s] by simp
    moreover have "run_loops (\<lambda>i. step (code i)) es (pcs(i := pc), m1) = (pcs', m')" using Cons.prems(1) Step s by simp
    ultimately have IH: "atomic_run (\<lambda>i. spec (code i)) es (\<lambda>j. result_of ((pcs(i := pc)) j), m1) (\<lambda>i. result_of (pcs' i), m')"
      by (rule Cons.IH [rotated])
    consider (over) r where "pcs i = Done r" | (now) r where "result_of (pcs i) = None" "pc = Done r"
      | (more) "result_of (pcs i) = None" "result_of pc = None"
      by (cases "pcs i"; cases pc) auto
    then show ?thesis
    proof cases
      case over
      then have "pc = pcs i" "m1 = m" using s finished by auto
      then show ?thesis using IH Step by (auto intro: atomic_run.idle)
    next
      case now
      have "(\<lambda>j. result_of ((pcs(i := pc)) j)) = (\<lambda>j. result_of (pcs j))(i \<mapsto> r)" using now(2) by auto
      then show ?thesis
        using IH Step now commits [OF assms(2) Cons.prems(2) now(1)] s by (auto intro: atomic_run.commit)
    next
      case more
      have "(\<lambda>j. result_of ((pcs(i := pc)) j)) = (\<lambda>j. result_of (pcs j))" using more by auto
      then show ?thesis using IH Step more stutters [OF s] by (auto intro: atomic_run.idle)
    qed
  qed
qed

lemma finishes_undisturbed:
  "result_of (fst (run_loops (\<lambda>i. step (code i)) [Step i, Step i] (pcs, m)) i) \<noteq> None"
proof -
  obtain pc m1 where s: "step (code i) (pcs i) m = (pc, m1)" by (cases "step (code i) (pcs i) m")
  then obtain r m2 where "step (code i) pc m1 = (Done r, m2)" using retries by blast
  then show ?thesis using s by simp
qed

end

section \<open>The loops keep the contract\<close>

text \<open>The atomic operations on an integer of any width.\<close>

definition atomic_rmw :: "('n::len word \<Rightarrow> 'n word) \<Rightarrow> u64 \<Rightarrow> bytes \<Rightarrow> 'n word \<times> bytes" where
  "atomic_rmw f p m = (load_int m p, store_int m p (f (load_int m p)))"

definition atomic_cmpxchg :: "'n::len word \<Rightarrow> 'n word \<Rightarrow> u64 \<Rightarrow> bytes \<Rightarrow> ('n word \<times> bool) \<times> bytes" where
  "atomic_cmpxchg compare new p m =
     (if load_int m p = compare then ((load_int m p, True), store_int m p new) else ((load_int m p, False), m))"

lemma cas_outcome:
  "CreateCas m p expected desired = (observed, success, m') \<Longrightarrow>
     observed = load_int m p \<and> success = (load_int m p = expected) \<and> m' = (if success then store_int m p desired else m)"
  by (auto simp: CreateCas_def Let_def)

lemma narrow_rmw_step:
  assumes "narrow_ok LENGTH('n::len) p" and "result_of pc = None" and "LowerNarrowRmw f p pc m = (Done (r :: 'n word), m')"
  shows "atomic_rmw f p m = (r, m')"
proof (cases pc)
  case (Retry current)
  then have current: "current = load_int m (nw_Pointer (NarrowWordFor p LENGTH('n)))"
    using assms(3) by (auto simp: Let_def CreateCas_def split: if_splits)
  then show ?thesis
    using assms(3) Retry extract_is_field [OF assms(1), of m] replace_is_field_store [OF assms(1) current]
    by (auto simp: Let_def CreateCas_def atomic_rmw_def)
qed (use assms in auto)

interpretation narrow_rmw: atomic_loop "\<lambda>(f, p). LowerNarrowRmw f p" "\<lambda>(f, p). atomic_rmw f p"
  "\<lambda>(f :: 'n::len word \<Rightarrow> 'n word, p). narrow_ok LENGTH('n) p" "\<lambda>_ _. True"
proof (unfold_locales, goal_cases)
  case (2 t pc m r m')
  then show ?case using narrow_rmw_step by (cases t) auto
next
  case (3 t pc m pc' m')
  then show ?case by (cases t; cases pc) (auto simp: Let_def CreateCas_def split: if_splits)
next
  case (6 t pc m pc' m')
  then show ?case by (cases t; cases pc) (auto simp: Let_def CreateCas_def split: if_splits)
qed (auto split: prod.splits)

interpretation wide_rmw: atomic_loop "\<lambda>(f, p). LowerWideRmw f p" "\<lambda>(f, p). atomic_rmw f p"
  "\<lambda>(f :: 'n::len word \<Rightarrow> 'n word, p). True" "\<lambda>_ _. True"
proof (unfold_locales, goal_cases)
  case (2 t pc m r m')
  then show ?case by (cases t; cases pc) (auto simp: CreateCas_def Let_def atomic_rmw_def split: if_splits)
next
  case (3 t pc m pc' m')
  then show ?case by (cases t; cases pc) (auto simp: CreateCas_def Let_def split: if_splits)
next
  case (6 t pc m pc' m')
  then show ?case by (cases t; cases pc) (auto simp: CreateCas_def Let_def split: if_splits)
qed (auto split: prod.splits)

text \<open>A waiting compare-exchange holds a word whose field it has compared.\<close>

definition compared :: "'n::len word \<Rightarrow> u64 \<Rightarrow> (u32, 'n word \<times> bool) loop_pc \<Rightarrow> bool" where
  "compared compare p pc \<longleftrightarrow>
     (\<forall>current. pc = Retry current \<longrightarrow> ExtractNarrow current (nw_Shift (NarrowWordFor p LENGTH('n))) = compare)"

lemma compare_narrow_read:
  assumes "narrow_ok LENGTH('n::len) p"
    and "compare_narrow compare (NarrowWordFor p LENGTH('n)) (load_int m (nw_Pointer (NarrowWordFor p LENGTH('n))))
      = Done (r :: 'n word \<times> bool)"
  shows "atomic_cmpxchg compare new p m = (r, m)"
  using assms extract_is_field [OF assms(1), of m]
  by (auto simp: compare_narrow_def Let_def atomic_cmpxchg_def split: if_splits)

lemma narrow_cmpxchg_step:
  assumes "narrow_ok LENGTH('n::len) p" and "compared compare p pc" and "result_of pc = None"
    and "LowerNarrowCmpXchg compare new p pc m = (Done (r :: 'n word \<times> bool), m')"
  shows "atomic_cmpxchg compare new p m = (r, m')"
proof (cases pc)
  case Start
  then show ?thesis using assms(4) by (auto simp: Let_def intro: compare_narrow_read [OF assms(1)])
next
  case (Retry current)
  let ?word = "load_int m (nw_Pointer (NarrowWordFor p LENGTH('n))) :: u32"
  show ?thesis
  proof (cases "current = ?word")
    case True
    then show ?thesis
      using assms(2,4) Retry extract_is_field [OF assms(1), of m] replace_is_field_store [OF assms(1) True]
      by (auto simp: Let_def CreateCas_def atomic_cmpxchg_def compared_def)
  next
    case False
    then show ?thesis
      using assms(4) Retry by (auto simp: Let_def CreateCas_def intro: compare_narrow_read [OF assms(1)])
  qed
qed (use assms in auto)

interpretation narrow_cmpxchg: atomic_loop "\<lambda>(compare, new, p). LowerNarrowCmpXchg compare new p"
  "\<lambda>(compare, new, p). atomic_cmpxchg compare new p"
  "\<lambda>(compare :: 'n::len word, new :: 'n word, p). narrow_ok LENGTH('n) p" "\<lambda>(compare, new, p). compared compare p"
proof (unfold_locales, goal_cases)
  case (2 t pc m r m')
  then show ?case by (cases t) (auto intro: narrow_cmpxchg_step)
next
  case (3 t pc m pc' m')
  then show ?case by (cases t; cases pc) (auto simp: Let_def CreateCas_def split: if_splits)
next
  case (4 t pc m pc' m')
  then show ?case
    by (cases t; cases pc) (auto simp: Let_def CreateCas_def compare_narrow_def compared_def split: if_splits)
next
  case (6 t pc m pc' m')
  then show ?case by (cases t; cases pc) (auto simp: Let_def CreateCas_def compare_narrow_def split: if_splits)
qed (auto simp: compared_def split: prod.splits)

text \<open>A strong load reads the field and writes nothing.\<close>

lemma store_int_same: "LENGTH('n::len) = 8 * k \<Longrightarrow> k \<le> 8 \<Longrightarrow> store_int m p (load_int m p :: 'n word) = m"
proof -
  assume k: "LENGTH('n) = 8 * k" "k \<le> 8"
  have "(ucast (ucast (load_le m (unat p) k) :: 'n word) :: u64) = take_bit (8 * k) (load_le m (unat p) k)"
    using k by (intro bit_word_eqI) (auto simp: bit_simps)
  then show ?thesis using k by (simp add: store_int_def load_int_def load_le_take_bit store_load_same)
qed

lemma narrow_load_value:
  "narrow_ok LENGTH('n::len) p \<Longrightarrow> lower_narrow_load p m = (load_int m p :: 'n word, m)"
  using extract_is_field [of p m, where 'n = 'n] store_int_same [where 'n = 32 and k = 4]
  by (simp add: lower_narrow_load_def Let_def)

section \<open>Linearization\<close>

text \<open>C34: generated sub-word atomics are atomic. Any number of byte or half-word read-modify-write loops,
  started together and interleaved step by step with each other and with arbitrary other writes, have
  exactly the results and the memory of some execution in which each of them is one indivisible
  operation on its own field, performed at most once and only while it runs; neighbouring bytes are
  never lost. A loop that gets two steps without a write in between is finished.\<close>

theorem narrow_rmw_linearizes:
  fixes operand :: "'i \<Rightarrow> 'n::len word"
  assumes "\<And>i. AtomicOperation (operation i) = Some (f i)" and "\<And>i. narrow_ok LENGTH('n) (pointer i)"
    and "run_loops (\<lambda>i. LowerNarrowRmw (\<lambda>old. f i old (operand i)) (pointer i)) es (\<lambda>_. Start, m) = (pcs, m')"
  shows "atomic_run (\<lambda>i. atomic_rmw (\<lambda>old. f i old (operand i)) (pointer i)) es (\<lambda>_. None, m) (\<lambda>i. result_of (pcs i), m')
    \<and> (\<forall>i. result_of (fst (run_loops (\<lambda>i. LowerNarrowRmw (\<lambda>old. f i old (operand i)) (pointer i))
         [Step i, Step i] (pcs, m')) i) \<noteq> None)"
  using narrow_rmw.linearizes [where code = "\<lambda>i. (\<lambda>old. f i old (operand i), pointer i)" and pcs = "\<lambda>_. Start"]
    narrow_rmw.finishes_undisturbed [where code = "\<lambda>i. (\<lambda>old. f i old (operand i), pointer i)" and pcs = pcs and m = m'] assms
  by simp

text \<open>Two bytes of one word, incremented by two loops that both read before either writes.\<close>

definition sample_race :: "nat event list" where
  "sample_race = [Step 0, Step 1, Step 0, Step 1, Step 1]"

theorem narrow_rmw_linearizes_witness:
  "\<exists>pcs m'. run_loops (\<lambda>i. LowerNarrowRmw (\<lambda>old. old + (1 :: u8)) (of_nat i + 5)) sample_race
      (\<lambda>_. Start, \<lambda>_. 7) = (pcs, m') \<and> pcs 0 = Done 7 \<and> pcs 1 = Done 7 \<and> m' 5 = 8 \<and> m' 6 = 8 \<and> m' 7 = 7
    \<and> atomic_run (\<lambda>i. atomic_rmw (\<lambda>old. old + (1 :: u8)) (of_nat i + 5)) sample_race
      (\<lambda>_. None, \<lambda>_. 7) (\<lambda>i. result_of (pcs i), m')"
proof -
  let ?run = "run_loops (\<lambda>i. LowerNarrowRmw (\<lambda>old. old + (1 :: u8)) (of_nat i + 5)) sample_race (\<lambda>_. Start, \<lambda>_. 7)"
  obtain pcs m' where run: "?run = (pcs, m')" by (cases ?run)
  have "fst ?run 0 = Done 7 \<and> fst ?run 1 = Done 7 \<and> snd ?run 5 = 8 \<and> snd ?run 6 = 8 \<and> snd ?run 7 = 7"
    by code_simp
  moreover have "narrow_ok LENGTH(8) (of_nat i + 5)" for i by (simp add: narrow_ok_def)
  moreover have "AtomicOperation Add = Some (\<lambda>old operand :: u8. old + operand)" by (simp add: AtomicOperation_def)
  ultimately show ?thesis
    using narrow_rmw_linearizes [where operation = "\<lambda>_. Add" and f = "\<lambda>_. (+)"
        and operand = "\<lambda>_. 1 :: u8" and pointer = "\<lambda>i. of_nat i + 5" and es = sample_race and m = "\<lambda>_. 7"] run
    by simp
qed

end
