(* ===== verification/Atomics_Pass.thy ===== *)
theory Atomics_Pass
  imports Atomic_Loops
begin

text \<open>
  The three passes of \<open>atomics.cpp\<close> on the instructions of a function: \<open>LowerManagedAtomicsPass\<close>, which
  replaces the operations BPF lacks, \<open>ValidateAtomicsPass\<close>, which rejects what has no exact lowering, and
  \<open>FinalizeAtomicsPass\<close>, which selects fetching instructions and drops the markers the backend does not
  know. An instruction is what the passes inspect of it; \<open>sectioned\<close> says that its pointer is based on a
  global with an explicit section, which is native map storage.
\<close>

section \<open>Instructions\<close>

datatype ordering =
  NotAtomic | Unordered | Monotonic | Acquire | Release | AcquireRelease | SequentiallyConsistent

definition isStrongerThanMonotonic :: "ordering \<Rightarrow> bool" where
  "isStrongerThanMonotonic ord \<longleftrightarrow> ord \<in> {Acquire, Release, AcquireRelease, SequentiallyConsistent}"

datatype ir_type = is_IntegerTy: IntegerTy nat | PointerTy | FloatingPointTy nat | is_VectorTy: VectorTy nat

definition typeStoreBits :: "ir_type \<Rightarrow> nat" where
  "typeStoreBits type =
     (let bits = (case type of IntegerTy n \<Rightarrow> n | PointerTy \<Rightarrow> 64 | FloatingPointTy n \<Rightarrow> n | VectorTy n \<Rightarrow> n)
      in 8 * ((bits + 7) div 8))"

definition AtomicWidth :: "ir_type \<Rightarrow> nat" where
  "AtomicWidth type = typeStoreBits type"

definition IsIntegerWidth :: "ir_type \<Rightarrow> nat \<Rightarrow> bool" where
  "IsIntegerWidth type bits \<longleftrightarrow> type = IntegerTy bits \<or> type = PointerTy \<and> bits = 64"

datatype instruction =
    AtomicRMWInst (operation: rmw_operation) (type_of: ir_type) (sectioned: bool) (alignment: nat) (ordering_of: ordering) (used: bool)
  | AtomicCmpXchgInst (type_of: ir_type) (sectioned: bool) (alignment: nat)
  | LoadInst (type_of: ir_type) (sectioned: bool) (alignment: nat) (ordering_of: ordering) (used: bool)
  | StoreInst (type_of: ir_type) (sectioned: bool) (alignment: nat) (ordering_of: ordering)
  | FenceInst (single_thread: bool)

section \<open>Lowering\<close>

datatype atomics_error =
    SubWordNotAligned | CompareExchangeNotAligned | LoadNotAligned | StoreNotAligned
  | UnsupportedAtomic rmw_operation | NotAnIntegerType

text \<open>The atomic instructions of the loops: a monotonic load and a compare-exchange. The pointer to the
  containing word is computed, so it is based on no global.\<close>

definition narrow_loop :: "instruction list" where
  "narrow_loop = [LoadInst (IntegerTy 32) False 4 Monotonic True, AtomicCmpXchgInst (IntegerTy 32) False 4]"

definition lower_narrow_rmw :: "rmw_operation \<Rightarrow> ir_type \<Rightarrow> atomics_error + instruction list" where
  "lower_narrow_rmw op type =
     (if is_IntegerTy type
      then if Option.is_none (AtomicOperation op :: (u8 \<Rightarrow> u8 \<Rightarrow> u8) option) then Inl (UnsupportedAtomic op) else Inr narrow_loop
      else Inl NotAnIntegerType)"

definition lower_wide_rmw :: "rmw_operation \<Rightarrow> ir_type \<Rightarrow> bool \<Rightarrow> nat \<Rightarrow> atomics_error + instruction list" where
  "lower_wide_rmw op type sect align =
     (if Option.is_none (AtomicOperation op :: (u64 \<Rightarrow> u64 \<Rightarrow> u64) option) then Inl (UnsupportedAtomic op)
      else Inr [LoadInst type sect align Monotonic True, AtomicCmpXchgInst type sect align])"

definition lower_rmw ::
  "bool \<Rightarrow> rmw_operation \<Rightarrow> ir_type \<Rightarrow> bool \<Rightarrow> nat \<Rightarrow> ordering \<Rightarrow> bool \<Rightarrow> atomics_error + instruction list" where
  "lower_rmw LowerWideBitwise op type sect align ord is_used =
     (let bits = AtomicWidth type
      in if (bits = 8 \<or> bits = 16) \<and> \<not> sect
         then if align * 8 < bits then Inl SubWordNotAligned else lower_narrow_rmw op type
         else if (op = Nand \<or> LowerWideBitwise \<and> (op = And \<or> op = Or \<or> op = Xor)) \<and> \<not> sect
         then lower_wide_rmw op type sect align
         else if op = Sub \<and> (bits = 32 \<or> bits = 64) then Inr [AtomicRMWInst Add type sect align ord is_used]
         else Inr [AtomicRMWInst op type sect align ord is_used])"

definition lower_cmpxchg :: "ir_type \<Rightarrow> bool \<Rightarrow> nat \<Rightarrow> atomics_error + instruction list" where
  "lower_cmpxchg type sect align =
     (let bits = AtomicWidth type
      in if (bits = 8 \<or> bits = 16) \<and> \<not> sect
         then if align * 8 < bits then Inl CompareExchangeNotAligned
              else if is_IntegerTy type then Inr narrow_loop else Inl NotAnIntegerType
         else Inr [AtomicCmpXchgInst type sect align])"

definition strong_widths :: "nat \<Rightarrow> bool \<Rightarrow> bool" where
  "strong_widths bits sect \<longleftrightarrow>
     \<not> ((bits \<noteq> 8 \<and> bits \<noteq> 16 \<and> bits \<noteq> 32 \<and> bits \<noteq> 64) \<or> bits < 32 \<and> sect)"

definition lower_load :: "ir_type \<Rightarrow> bool \<Rightarrow> nat \<Rightarrow> ordering \<Rightarrow> bool \<Rightarrow> atomics_error + instruction list" where
  "lower_load type sect align ord is_used =
     (let bits = AtomicWidth type
      in if \<not> isStrongerThanMonotonic ord \<or> \<not> strong_widths bits sect then Inr [LoadInst type sect align ord is_used]
         else if align * 8 < bits then Inl LoadNotAligned
         else if bits < 32 then Inr [AtomicRMWInst Add (IntegerTy 32) False 4 SequentiallyConsistent True]
         else Inr [AtomicRMWInst Add (IntegerTy bits) sect align SequentiallyConsistent (is_used \<or> \<not> is_IntegerTy type)])"

definition lower_store :: "ir_type \<Rightarrow> bool \<Rightarrow> nat \<Rightarrow> ordering \<Rightarrow> atomics_error + instruction list" where
  "lower_store type sect align ord =
     (let bits = AtomicWidth type
      in if \<not> isStrongerThanMonotonic ord \<or> \<not> strong_widths bits sect then Inr [StoreInst type sect align ord]
         else if align * 8 < bits then Inl StoreNotAligned
         else if bits < 32 then lower_narrow_rmw Xchg (IntegerTy bits)
         else Inr [AtomicRMWInst Xchg (IntegerTy bits) sect align SequentiallyConsistent False])"

text \<open>A system-scope fence exchanges the word \<open>__bpf_capsule_atomic_fence\<close> in its own section.\<close>

definition lower_fence :: "bool \<Rightarrow> instruction list" where
  "lower_fence compiler_only =
     (if compiler_only then [FenceInst True]
      else [AtomicRMWInst Xchg (IntegerTy 32) True 4 SequentiallyConsistent False])"

fun lower_instruction :: "bool \<Rightarrow> instruction \<Rightarrow> atomics_error + instruction list" where
  "lower_instruction wide (AtomicRMWInst op type sect align ord is_used) = lower_rmw wide op type sect align ord is_used"
| "lower_instruction wide (AtomicCmpXchgInst type sect align) = lower_cmpxchg type sect align"
| "lower_instruction wide (LoadInst type sect align ord is_used) = lower_load type sect align ord is_used"
| "lower_instruction wide (StoreInst type sect align ord) = lower_store type sect align ord"
| "lower_instruction wide (FenceInst compiler_only) = Inr (lower_fence compiler_only)"

fun LowerManagedAtomics :: "bool \<Rightarrow> instruction list \<Rightarrow> atomics_error + instruction list" where
  "LowerManagedAtomics wide [] = Inr []"
| "LowerManagedAtomics wide (i # is) =
     (case lower_instruction wide i of
        Inl e \<Rightarrow> Inl e
      | Inr js \<Rightarrow> (case LowerManagedAtomics wide is of Inl e \<Rightarrow> Inl e | Inr ks \<Rightarrow> Inr (js @ ks)))"

section \<open>Validation\<close>

fun is_atomic :: "instruction \<Rightarrow> bool" where
  "is_atomic (LoadInst type sect align ord is_used) = (ord \<noteq> NotAtomic)"
| "is_atomic (StoreInst type sect align ord) = (ord \<noteq> NotAtomic)"
| "is_atomic _ = True"

fun IsCompilerFence :: "instruction \<Rightarrow> bool" where
  "IsCompilerFence (FenceInst compiler_only) = compiler_only"
| "IsCompilerFence _ = False"

definition isa_rmw :: "rmw_operation \<Rightarrow> bool" where
  "isa_rmw op \<longleftrightarrow> op \<in> {Add, And, Or, Xor, Xchg}"

definition word_access :: "ir_type \<Rightarrow> nat \<Rightarrow> bool" where
  "word_access type align =
     (let bits = AtomicWidth type
      in IsIntegerWidth type bits \<and> (bits = 32 \<or> bits = 64) \<and> align * 8 \<ge> bits)"

fun IsNativeRmw :: "instruction \<Rightarrow> bool" where
  "IsNativeRmw (AtomicRMWInst op type sect align ord is_used) = (sect \<and> isa_rmw op \<and> word_access type align)"
| "IsNativeRmw (AtomicCmpXchgInst type sect align) = (sect \<and> word_access type align)"
| "IsNativeRmw _ = False"

fun IsManagedRmw :: "instruction \<Rightarrow> bool" where
  "IsManagedRmw (AtomicRMWInst op type sect align ord is_used) = (isa_rmw op \<and> word_access type align)"
| "IsManagedRmw (AtomicCmpXchgInst type sect align) = word_access type align"
| "IsManagedRmw _ = False"

definition preserved_access :: "ir_type \<Rightarrow> nat \<Rightarrow> ordering \<Rightarrow> bool" where
  "preserved_access type align ord =
     (let bytes = typeStoreBits type div 8
      in (ord = Unordered \<or> ord = Monotonic) \<and> \<not> is_VectorTy type \<and>
         (bytes = 1 \<or> bytes = 2 \<or> bytes = 4 \<or> bytes = 8) \<and> align \<ge> bytes)"

fun IsPreservedLoadStore :: "instruction \<Rightarrow> bool" where
  "IsPreservedLoadStore (LoadInst type sect align ord is_used) = (ord \<noteq> NotAtomic \<and> preserved_access type align ord)"
| "IsPreservedLoadStore (StoreInst type sect align ord) = (ord \<noteq> NotAtomic \<and> preserved_access type align ord)"
| "IsPreservedLoadStore _ = False"

datatype diagnostic = SectionedNarrow nat | NoExactLowering nat

definition diagnose :: "instruction \<Rightarrow> diagnostic" where
  "diagnose i =
     (let bits = (case i of FenceInst _ \<Rightarrow> 0 | _ \<Rightarrow> typeStoreBits (type_of i))
      in if (bits = 8 \<or> bits = 16) \<and> sectioned i then SectionedNarrow bits else NoExactLowering bits)"

definition unsupported :: "bool \<Rightarrow> instruction \<Rightarrow> bool" where
  "unsupported ManagedRmw i \<longleftrightarrow> is_atomic i \<and> \<not> IsCompilerFence i \<and> \<not> IsPreservedLoadStore i \<and>
     \<not> IsNativeRmw i \<and> \<not> (ManagedRmw \<and> IsManagedRmw i)"

definition ValidateAtomics :: "bool \<Rightarrow> instruction list \<Rightarrow> diagnostic list" where
  "ValidateAtomics ManagedRmw is = map diagnose (filter (unsupported ManagedRmw) is)"

section \<open>Finalization\<close>

datatype finalize_error = RequiresFullAtomics | SurvivedValidation

fun legacy_supported :: "instruction \<Rightarrow> bool" where
  "legacy_supported (AtomicRMWInst op type sect align ord is_used) =
     ((op = Add \<or> op = Sub) \<and> \<not> is_used \<and> ord = Monotonic \<and> (type = IntegerTy 32 \<or> type = IntegerTy 64))"
| "legacy_supported _ = False"

fun is_rmw :: "instruction \<Rightarrow> bool" where
  "is_rmw (AtomicRMWInst op type sect align ord is_used) = True"
| "is_rmw (AtomicCmpXchgInst type sect align) = True"
| "is_rmw _ = False"

fun is_access :: "instruction \<Rightarrow> bool" where
  "is_access (LoadInst type sect align ord is_used) = True"
| "is_access (StoreInst type sect align ord) = True"
| "is_access _ = False"

fun finalize_instruction :: "instruction \<Rightarrow> instruction" where
  "finalize_instruction (AtomicRMWInst op type sect align ord is_used) =
     AtomicRMWInst op type sect align (if is_used \<and> ord = Monotonic then SequentiallyConsistent else ord) is_used"
| "finalize_instruction (LoadInst type sect align ord is_used) = LoadInst type sect align NotAtomic is_used"
| "finalize_instruction (StoreInst type sect align ord) = StoreInst type sect align NotAtomic"
| "finalize_instruction i = i"

fun FinalizeAtomics :: "bool \<Rightarrow> instruction list \<Rightarrow> finalize_error + instruction list" where
  "FinalizeAtomics Legacy [] = Inr []"
| "FinalizeAtomics Legacy (i # is) =
     (if Legacy \<and> is_rmw i \<and> \<not> legacy_supported i then Inl RequiresFullAtomics
      else if is_access i \<and> is_atomic i \<and> \<not> IsPreservedLoadStore i then Inl SurvivedValidation
      else case FinalizeAtomics Legacy is of Inl e \<Rightarrow> Inl e | Inr js \<Rightarrow> Inr (finalize_instruction i # js))"

section \<open>What the pipeline accepts\<close>

text \<open>The operations with an exact lowering, as a table.\<close>

fun exact_lowering :: "instruction \<Rightarrow> bool" where
  "exact_lowering (AtomicRMWInst op type sect align ord is_used) =
     (let bits = AtomicWidth type
      in if (bits = 8 \<or> bits = 16) \<and> \<not> sect
         then is_IntegerTy type \<and> (op \<in> {Add, Sub, And, Nand, Or, Xor, Xchg}) \<and> align * 8 \<ge> bits
         else word_access type align \<and> (isa_rmw op \<or> op = Sub \<or> op = Nand \<and> \<not> sect))"
| "exact_lowering (AtomicCmpXchgInst type sect align) =
     (let bits = AtomicWidth type
      in if (bits = 8 \<or> bits = 16) \<and> \<not> sect then is_IntegerTy type \<and> align * 8 \<ge> bits else word_access type align)"
| "exact_lowering (LoadInst type sect align ord is_used) =
     (if isStrongerThanMonotonic ord then strong_widths (AtomicWidth type) sect \<and> align * 8 \<ge> AtomicWidth type
      else ord = NotAtomic \<or> preserved_access type align ord)"
| "exact_lowering (StoreInst type sect align ord) =
     (if isStrongerThanMonotonic ord then strong_widths (AtomicWidth type) sect \<and> align * 8 \<ge> AtomicWidth type
      else ord = NotAtomic \<or> preserved_access type align ord)"
| "exact_lowering (FenceInst compiler_only) = True"

lemma operation_supported:
  "Option.is_none (AtomicOperation op :: ('n::len word \<Rightarrow> 'n word \<Rightarrow> 'n word) option) \<longleftrightarrow>
     op \<notin> {Add, Sub, And, Nand, Or, Xor, Xchg}"
  by (cases op) (simp_all add: AtomicOperation_def)

lemma store_bits: "typeStoreBits type = 8 * (typeStoreBits type div 8)"
  by (simp add: typeStoreBits_def Let_def)

lemma integer_bits: "8 dvd n \<Longrightarrow> typeStoreBits (IntegerTy n) = n"
  by (auto simp: typeStoreBits_def elim!: dvdE)

lemma word_access_load: "word_access type align \<Longrightarrow> preserved_access type align Monotonic"
  by (cases type) (auto simp: word_access_def preserved_access_def IsIntegerWidth_def AtomicWidth_def Let_def)

lemmas verdict_defs = unsupported_def narrow_loop_def lower_narrow_rmw_def lower_wide_rmw_def operation_supported

lemma narrow_loop_valid: "list_all (\<lambda>j. \<not> unsupported True j) narrow_loop"
  by (simp add: narrow_loop_def unsupported_def word_access_def preserved_access_def IsIntegerWidth_def AtomicWidth_def
      typeStoreBits_def)

definition accepts :: "bool \<Rightarrow> atomics_error + instruction list \<Rightarrow> bool" where
  "accepts managed lowered = (case lowered of Inl e \<Rightarrow> False | Inr js \<Rightarrow> ValidateAtomics managed js = [])"

lemma accepts_Inr: "accepts managed (Inr js) \<longleftrightarrow> list_all (\<lambda>j. \<not> unsupported managed j) js"
  by (auto simp: accepts_def ValidateAtomics_def filter_empty_conv list_all_iff)

lemma accepts_Inl: "\<not> accepts managed (Inl e)"
  by (simp add: accepts_def)

lemma accepts_narrow: "accepts True (lower_narrow_rmw op type) \<longleftrightarrow> is_IntegerTy type \<and> op \<in> {Add, Sub, And, Nand, Or, Xor, Xchg}"
  using narrow_loop_valid by (simp add: lower_narrow_rmw_def accepts_Inr accepts_Inl operation_supported del: insert_iff)

lemma lower_rmw_accepts:
  "accepts True (lower_rmw wide op type sect align ord is_used) \<longleftrightarrow> exact_lowering (AtomicRMWInst op type sect align ord is_used)"
proof -
  have "accepts True (lower_wide_rmw op type sect align) \<longleftrightarrow> word_access type align" if "op \<in> {Nand, And, Or, Xor}"
    using that word_access_load [of type align]
    by (auto simp: lower_wide_rmw_def accepts_Inr operation_supported unsupported_def)
  moreover have "accepts True (Inr [AtomicRMWInst op' type sect align ord is_used]) \<longleftrightarrow> isa_rmw op' \<and> word_access type align" for op'
    by (auto simp: accepts_Inr unsupported_def)
  moreover have "\<not> word_access type align" if "AtomicWidth type \<noteq> 32" "AtomicWidth type \<noteq> 64"
    using that by (simp add: word_access_def Let_def)
  ultimately show ?thesis
    by (cases op; cases sect; cases "AtomicWidth type = 8"; cases "AtomicWidth type = 16")
      (simp_all add: lower_rmw_def Let_def accepts_narrow accepts_Inl isa_rmw_def split: if_splits)
qed

lemma lower_cmpxchg_accepts:
  "accepts True (lower_cmpxchg type sect align) \<longleftrightarrow> exact_lowering (AtomicCmpXchgInst type sect align)"
  using narrow_loop_valid by (auto simp: lower_cmpxchg_def Let_def accepts_Inr accepts_Inl unsupported_def)

lemma word_access_integer:
  "bits = 32 \<or> bits = 64 \<Longrightarrow> word_access (IntegerTy bits) align \<longleftrightarrow> align * 8 \<ge> bits"
  by (auto simp: word_access_def IsIntegerWidth_def AtomicWidth_def typeStoreBits_def)

lemma strong_width_cases: "strong_widths bits sect \<Longrightarrow> bits < 32 \<or> bits = 32 \<or> bits = 64"
  by (auto simp: strong_widths_def)

lemma lower_load_accepts:
  "accepts True (lower_load type sect align ord is_used) \<longleftrightarrow> exact_lowering (LoadInst type sect align ord is_used)"
proof (cases "isStrongerThanMonotonic ord \<and> strong_widths (AtomicWidth type) sect")
  case True
  then show ?thesis
    using strong_width_cases [of "AtomicWidth type" sect] word_access_integer [of "AtomicWidth type" align]
      word_access_integer [of 32 4]
    by (auto simp: lower_load_def Let_def accepts_Inr accepts_Inl unsupported_def isa_rmw_def)
next
  case False
  have "\<not> preserved_access type align ord \<and> ord \<noteq> NotAtomic" if "isStrongerThanMonotonic ord"
    using that by (auto simp: preserved_access_def isStrongerThanMonotonic_def)
  then show ?thesis
    using False by (auto simp: lower_load_def Let_def accepts_Inr unsupported_def)
qed

lemma lower_store_accepts:
  "accepts True (lower_store type sect align ord) \<longleftrightarrow> exact_lowering (StoreInst type sect align ord)"
proof (cases "isStrongerThanMonotonic ord \<and> strong_widths (AtomicWidth type) sect")
  case True
  then show ?thesis
    using strong_width_cases [of "AtomicWidth type" sect] word_access_integer [of "AtomicWidth type" align]
    by (auto simp: lower_store_def Let_def accepts_Inr accepts_Inl accepts_narrow unsupported_def isa_rmw_def)
next
  case False
  have "\<not> preserved_access type align ord \<and> ord \<noteq> NotAtomic" if "isStrongerThanMonotonic ord"
    using that by (auto simp: preserved_access_def isStrongerThanMonotonic_def)
  then show ?thesis
    using False by (auto simp: lower_store_def Let_def accepts_Inr unsupported_def)
qed

lemma lower_instruction_accepts: "accepts True (lower_instruction wide i) \<longleftrightarrow> exact_lowering i"
proof (cases i)
  case (FenceInst compiler_only)
  then show ?thesis
    using word_access_integer [of 32 4] by (auto simp: lower_fence_def accepts_Inr unsupported_def isa_rmw_def)
qed (simp_all add: lower_rmw_accepts lower_cmpxchg_accepts lower_load_accepts lower_store_accepts
    del: exact_lowering.simps)

lemma accepts_Cons:
  "accepts True (LowerManagedAtomics wide (i # is)) \<longleftrightarrow>
     accepts True (lower_instruction wide i) \<and> accepts True (LowerManagedAtomics wide is)"
  by (auto simp: accepts_Inr accepts_Inl split: sum.splits)


section \<open>What reaches the backend\<close>

text \<open>The instructions the BPF backend selects: plain loads and stores, native read-modify-writes of a
  word or double word that are fetching when their result is used, and compiler barriers.\<close>

fun selectable :: "instruction \<Rightarrow> bool" where
  "selectable (AtomicRMWInst op type sect align ord is_used) =
     (isa_rmw op \<and> word_access type align \<and> (is_used \<longrightarrow> ord \<noteq> Monotonic))"
| "selectable (AtomicCmpXchgInst type sect align) = word_access type align"
| "selectable (LoadInst type sect align ord is_used) = (ord = NotAtomic)"
| "selectable (StoreInst type sect align ord) = (ord = NotAtomic)"
| "selectable (FenceInst compiler_only) = compiler_only"

lemma finalize_selectable: "\<not> unsupported managed i \<Longrightarrow> selectable (finalize_instruction i)"
  by (cases i) (auto simp: unsupported_def)

lemma finalize_total:
  "list_all (\<lambda>i. \<not> unsupported managed i) is \<Longrightarrow> FinalizeAtomics False is = Inr (map finalize_instruction is)"
proof (induction "is")
  case (Cons i "is")
  then have "\<not> (is_access i \<and> is_atomic i \<and> \<not> IsPreservedLoadStore i)"
    by (cases i) (auto simp: unsupported_def)
  then show ?case using Cons by simp
qed simp


definition sample_atomics :: "instruction list" where
  "sample_atomics = [AtomicRMWInst Add (IntegerTy 64) False 8 Monotonic True,
     LoadInst (FloatingPointTy 32) False 4 Unordered True, AtomicCmpXchgInst PointerTy True 8, FenceInst True]"


end
