(* ===== verification/Mem_Expansion.thy ===== *)
theory Mem_Expansion
  imports Byte_Memory "HOL-Library.Monad_Syntax"
begin

text \<open>
  \<open>expand_mem.cpp\<close>: the loops that replace \<open>memcpy\<close>, \<open>memmove\<close> and \<open>memset\<close>, eight bytes at a time with a
  byte tail, and the choice between an inline loop and the shared driver. Programs are loaded with
  strict alignment, so an access whose address does not have the alignment it claims has no value; a
  loop that did not end would have none either.
\<close>

section \<open>Accesses\<close>

definition aligned_load :: "nat \<Rightarrow> nat \<Rightarrow> u64 \<Rightarrow> bytes \<Rightarrow> u64 option" where
  "aligned_load align n p m = (if align dvd unat p then Some (load_le m (unat p) n) else None)"

definition aligned_store :: "nat \<Rightarrow> nat \<Rightarrow> u64 \<Rightarrow> u64 \<Rightarrow> bytes \<Rightarrow> bytes option" where
  "aligned_store align n p v m = (if align dvd unat p then Some (store_le m (unat p) n v) else None)"

section \<open>Generated loops\<close>

text \<open>\<open>i\<close> is the phi node \<open>copy.i\<close>; elements have \<open>step\<close> bytes.\<close>

partial_function (option) copy_ascending ::
  "nat \<Rightarrow> nat \<Rightarrow> nat \<Rightarrow> u64 \<Rightarrow> u64 \<Rightarrow> u64 \<Rightarrow> u64 \<Rightarrow> bytes \<Rightarrow> bytes option" where
  "copy_ascending step dstAlign srcAlign dst src i end m =
     (if i < end then do {
        v \<leftarrow> aligned_load (min srcAlign step) step (src + i) m;
        m \<leftarrow> aligned_store (min dstAlign step) step (dst + i) v m;
        copy_ascending step dstAlign srcAlign dst src (i + of_nat step) end m }
      else Some m)"

partial_function (option) copy_descending ::
  "nat \<Rightarrow> nat \<Rightarrow> nat \<Rightarrow> u64 \<Rightarrow> u64 \<Rightarrow> u64 \<Rightarrow> u64 \<Rightarrow> bytes \<Rightarrow> bytes option" where
  "copy_descending step dstAlign srcAlign dst src i begin m =
     (if i > begin then do {
        v \<leftarrow> aligned_load (min srcAlign step) step (src + (i - of_nat step)) m;
        m \<leftarrow> aligned_store (min dstAlign step) step (dst + (i - of_nat step)) v m;
        copy_descending step dstAlign srcAlign dst src (i - of_nat step) begin m }
      else Some m)"

definition EmitCopyRange ::
  "nat \<Rightarrow> bool \<Rightarrow> nat \<Rightarrow> nat \<Rightarrow> u64 \<Rightarrow> u64 \<Rightarrow> u64 \<Rightarrow> u64 \<Rightarrow> bytes \<Rightarrow> bytes option" where
  "EmitCopyRange step descending dstAlign srcAlign dst src begin end m =
     (if descending then copy_descending step dstAlign srcAlign dst src end begin m
      else copy_ascending step dstAlign srcAlign dst src begin end m)"

definition EmitCopy :: "bool \<Rightarrow> nat \<Rightarrow> nat \<Rightarrow> u64 \<Rightarrow> u64 \<Rightarrow> u64 \<Rightarrow> bytes \<Rightarrow> bytes option" where
  "EmitCopy backward dstAlign srcAlign dst src len m =
     (let wordsEnd = len div 8 * 8
      in if backward then do {
           m \<leftarrow> EmitCopyRange 1 True dstAlign srcAlign dst src wordsEnd len m;
           EmitCopyRange 8 True dstAlign srcAlign dst src 0 wordsEnd m }
         else do {
           m \<leftarrow> EmitCopyRange 8 False dstAlign srcAlign dst src 0 wordsEnd m;
           EmitCopyRange 1 False dstAlign srcAlign dst src wordsEnd len m })"

partial_function (option) EmitSetRange :: "nat \<Rightarrow> nat \<Rightarrow> u64 \<Rightarrow> u64 \<Rightarrow> u64 \<Rightarrow> u64 \<Rightarrow> bytes \<Rightarrow> bytes option" where
  "EmitSetRange step dstAlign dst v i end m =
     (if i < end then do {
        m \<leftarrow> aligned_store (min dstAlign step) step (dst + i) v m;
        EmitSetRange step dstAlign dst v (i + of_nat step) end m }
      else Some m)"

definition EmitSet :: "nat \<Rightarrow> u64 \<Rightarrow> u32 \<Rightarrow> u64 \<Rightarrow> bytes \<Rightarrow> bytes option" where
  "EmitSet dstAlign dst value len m =
     (let byte = (ucast value :: u8); word = (ucast byte :: u64) * 0x0101010101010101; wordsEnd = len div 8 * 8
      in do {
        m \<leftarrow> EmitSetRange 8 dstAlign dst word 0 wordsEnd m;
        EmitSetRange 1 dstAlign dst (ucast byte) wordsEnd len m })"

section \<open>Sites\<close>

datatype mem_routine = MemCpy | MemMove | MemSet

text \<open>A pointer operand by its address space and by whether it is based on a sectioned global; an
  intrinsic or an ordinary call of the routine of that name.\<close>

record mem_pointer =
  mp_sectioned :: bool
  mp_address_space :: nat

record mem_site =
  ms_routine :: mem_routine
  ms_intrinsic :: bool
  ms_volatile :: bool
  ms_length :: "u64 option"
  ms_dst :: mem_pointer
  ms_src :: mem_pointer
  ms_arguments :: nat

datatype mem_lowering = LeftAlone | Inlined | CallDriver mem_routine

definition site_pointers :: "mem_site \<Rightarrow> mem_pointer list" where
  "site_pointers site = (if ms_routine site = MemSet then [ms_dst site] else [ms_dst site, ms_src site])"

definition mem_candidate :: "mem_site \<Rightarrow> bool" where
  "mem_candidate site =
     (if ms_intrinsic site then True
      else ms_arguments site \<ge> 3 \<and> list_ex mp_sectioned (site_pointers site))"

definition InlineExpansionLimit :: u64 where "InlineExpansionLimit = 256"

definition outlineDriver :: "(mem_routine \<Rightarrow> bool) \<Rightarrow> mem_site \<Rightarrow> mem_routine option" where
  "outlineDriver defined site =
     (if \<not> ms_intrinsic site \<or> ms_volatile site then None
      else if (case ms_length site of Some len \<Rightarrow> len \<le> InlineExpansionLimit | None \<Rightarrow> False) then None
      else if list_ex (\<lambda>p. mp_address_space p \<noteq> 0 \<or> mp_sectioned p) (site_pointers site) then None
      else if defined (ms_routine site) then Some (ms_routine site) else None)"

definition expand_site :: "(mem_routine \<Rightarrow> bool) \<Rightarrow> mem_site \<Rightarrow> mem_lowering" where
  "expand_site defined site =
     (if \<not> mem_candidate site then LeftAlone
      else case outlineDriver defined site of Some driver \<Rightarrow> CallDriver driver | None \<Rightarrow> Inlined)"

text \<open>What a site runs when it is expanded inline.\<close>

definition run_site :: "mem_routine \<Rightarrow> nat \<Rightarrow> nat \<Rightarrow> u64 \<Rightarrow> u64 \<Rightarrow> u32 \<Rightarrow> u64 \<Rightarrow> bytes \<Rightarrow> bytes option" where
  "run_site routine dstAlign srcAlign dst src value len m =
     (case routine of
        MemCpy \<Rightarrow> EmitCopy False dstAlign srcAlign dst src len m
      | MemMove \<Rightarrow> EmitCopy (dst > src) dstAlign srcAlign dst src len m
      | MemSet \<Rightarrow> EmitSet dstAlign dst value len m)"

section \<open>Correctness of the loops\<close>

text \<open>What the routines promise, on whole memories.\<close>

definition mem_filled :: "nat \<Rightarrow> nat \<Rightarrow> u8 \<Rightarrow> bytes \<Rightarrow> bytes" where
  "mem_filled dst n b m = (\<lambda>x. if dst \<le> x \<and> x < dst + n then b else m x)"

lemma copy_down_step:
  assumes "n \<le> 8" and "src \<le> dst" and "n \<le> k" and "k \<le> len"
  shows "store_le (mem_copied (dst + k) (src + k) (len - k) m) (dst + (k - n)) n
      (load_le (mem_copied (dst + k) (src + k) (len - k) m) (src + (k - n)) n)
    = mem_copied (dst + (k - n)) (src + (k - n)) (len - (k - n)) m"
  using assms by (auto simp: store_of_load mem_copied_def fun_eq_iff intro!: arg_cong [of _ _ m])

text \<open>The premises of a loop: an element size, claimed alignments that the pointers have, and a range that
  does not wrap around the address space.\<close>

definition claim_ok :: "nat \<Rightarrow> nat \<Rightarrow> u64 \<Rightarrow> bool" where
  "claim_ok align step p \<longleftrightarrow> min align step dvd unat p \<and> min align step dvd step"

lemma unat_step: "step \<le> 8 \<Longrightarrow> unat (of_nat step :: u64) = step"
  by (simp add: unat_of_nat take_bit_nat_eq_self)

lemma unat_at: "unat (p :: u64) + unat i < 2 ^ 64 \<Longrightarrow> unat (p + i) = unat p + unat i"
  by (simp add: unat_plus_if')

lemma claim_at:
  "claim_ok align step p \<Longrightarrow> step dvd unat i \<Longrightarrow> unat p + unat i < 2 ^ 64 \<Longrightarrow> min align step dvd unat (p + i)"
  unfolding unat_at claim_ok_def by (metis dvd_add dvd_trans)

lemma copy_ascending_correct:
  assumes step: "0 < step" "step \<le> 8" and claims: "claim_ok dstAlign step dst" "claim_ok srcAlign step src"
    and fits: "unat dst + unat end \<le> 2 ^ 64" "unat src + unat end \<le> 2 ^ 64"
    and apart: "unat dst \<le> unat src \<or> unat src + unat end \<le> unat dst"
    and dvd: "step dvd unat i" and n: "unat end = unat i + step * n"
  shows "copy_ascending step dstAlign srcAlign dst src i end (mem_copied (unat dst) (unat src) (unat i) m)
    = Some (mem_copied (unat dst) (unat src) (unat end) m)"
  using dvd n
proof (induction n arbitrary: i)
  case 0
  then show ?case by (subst copy_ascending.simps) (simp add: word_less_nat_alt)
next
  case (Suc n)
  let ?m = "mem_copied (unat dst) (unat src) (unat i) m"
  have less: "unat i + step \<le> unat end" "unat i < unat end" using Suc.prems(2) step(1) by auto
  have bounds: "unat dst + unat i < 2 ^ 64" "unat src + unat i < 2 ^ 64" using less(2) fits by linarith+
  have "unat i + step < 18446744073709551616" using less(1) u64_bound [of "end"] by linarith
  then have next_i: "unat (i + of_nat step) = unat i + step"
    using step(2) by (simp add: unat_plus_if' unat_step)
  have "copy_ascending step dstAlign srcAlign dst src (i + of_nat step) end
      (mem_copied (unat dst) (unat src) (unat (i + of_nat step)) m) = Some (mem_copied (unat dst) (unat src) (unat end) m)"
    using Suc.prems next_i by (intro Suc.IH) auto
  moreover have "store_le ?m (unat (dst + i)) step (load_le ?m (unat (src + i)) step)
      = mem_copied (unat dst) (unat src) (unat (i + of_nat step)) m"
    unfolding unat_at [OF bounds(1)] unat_at [OF bounds(2)] next_i
    by (rule copy_up_step) (use step(2) apart less(1) in linarith)+
  ultimately show ?case
    using claim_at [OF claims(1) Suc.prems(1) bounds(1)] claim_at [OF claims(2) Suc.prems(1) bounds(2)] less(2)
    by (subst copy_ascending.simps) (simp add: word_less_nat_alt aligned_load_def aligned_store_def)
qed

lemma copy_descending_correct:
  assumes step: "0 < step" "step \<le> 8" and claims: "claim_ok dstAlign step dst" "claim_ok srcAlign step src"
    and fits: "unat dst + len \<le> 2 ^ 64" "unat src + len \<le> 2 ^ 64" and over: "unat src \<le> unat dst"
    and dvd: "step dvd unat begin" and n: "unat i = unat begin + step * n" and len: "unat i \<le> len"
  shows "copy_descending step dstAlign srcAlign dst src i begin
      (mem_copied (unat dst + unat i) (unat src + unat i) (len - unat i) m)
    = Some (mem_copied (unat dst + unat begin) (unat src + unat begin) (len - unat begin) m)"
  using n len
proof (induction n arbitrary: i)
  case 0
  then show ?case by (subst copy_descending.simps) (simp add: word_less_nat_alt)
next
  case (Suc n)
  let ?m = "mem_copied (unat dst + unat i) (unat src + unat i) (len - unat i) m" and ?o = "i - of_nat step"
  have less: "step \<le> unat i" "unat begin < unat i" using Suc.prems(1) step(1) by auto
  have off: "unat ?o = unat i - step"
    using less(1) step(2) by (simp add: unat_sub word_le_nat_alt unat_step)
  have bounds: "unat dst + unat ?o < 2 ^ 64" "unat src + unat ?o < 2 ^ 64"
    using Suc.prems(2) fits off less(1) step(1) by linarith+
  have "step dvd unat ?o" using dvd Suc.prems(1) off by (simp add: dvd_diff_nat)
  note claims' = claim_at [OF claims(1) this bounds(1)] claim_at [OF claims(2) this bounds(2)]
  have "copy_descending step dstAlign srcAlign dst src ?o begin
      (mem_copied (unat dst + unat ?o) (unat src + unat ?o) (len - unat ?o) m)
    = Some (mem_copied (unat dst + unat begin) (unat src + unat begin) (len - unat begin) m)"
    using Suc.prems off by (intro Suc.IH) auto
  moreover have "store_le ?m (unat (dst + ?o)) step (load_le ?m (unat (src + ?o)) step)
      = mem_copied (unat dst + unat ?o) (unat src + unat ?o) (len - unat ?o) m"
    unfolding unat_at [OF bounds(1)] unat_at [OF bounds(2)] off
    by (rule copy_down_step) (use step(2) over less(1) Suc.prems(2) in linarith)+
  ultimately show ?case
    using claims' less(2)
    by (subst copy_descending.simps) (simp add: word_less_nat_alt aligned_load_def aligned_store_def)
qed

lemma set_range_correct:
  assumes step: "0 < step" "step \<le> 8" and claim: "claim_ok dstAlign step dst"
    and fits: "unat dst + unat end \<le> 2 ^ 64" and bytes: "\<And>j. j < step \<Longrightarrow> ucast (drop_bit (8 * j) v) = b"
    and dvd: "step dvd unat i" and n: "unat end = unat i + step * n"
  shows "EmitSetRange step dstAlign dst v i end (mem_filled (unat dst) (unat i) b m)
    = Some (mem_filled (unat dst) (unat end) b m)"
  using dvd n
proof (induction n arbitrary: i)
  case 0
  then show ?case by (subst EmitSetRange.simps) (simp add: word_less_nat_alt)
next
  case (Suc n)
  let ?m = "mem_filled (unat dst) (unat i) b m"
  have less: "unat i + step \<le> unat end" "unat i < unat end" using Suc.prems(2) step(1) by auto
  have bound: "unat dst + unat i < 2 ^ 64" using less(2) fits by linarith
  have "unat i + step < 18446744073709551616" using less(1) u64_bound [of "end"] by linarith
  then have next_i: "unat (i + of_nat step) = unat i + step"
    using step(2) by (simp add: unat_plus_if' unat_step)
  have "EmitSetRange step dstAlign dst v (i + of_nat step) end (mem_filled (unat dst) (unat (i + of_nat step)) b m)
      = Some (mem_filled (unat dst) (unat end) b m)"
    using Suc.prems next_i by (intro Suc.IH) auto
  moreover have "store_le ?m (unat (dst + i)) step v = mem_filled (unat dst) (unat (i + of_nat step)) b m"
    unfolding unat_at [OF bound] next_i by (auto simp: store_le_def mem_filled_def fun_eq_iff bytes)
  ultimately show ?case
    using claim_at [OF claim Suc.prems(1) bound] less(2)
    by (subst EmitSetRange.simps) (simp add: word_less_nat_alt aligned_store_def)
qed

text \<open>A claimed alignment is a power of two.\<close>

definition has_alignment :: "u64 \<Rightarrow> nat \<Rightarrow> bool" where
  "has_alignment p align \<longleftrightarrow> align dvd unat p \<and> (\<exists>j<64. align = 2 ^ j)"

lemma claim_ok_steps: "has_alignment p align \<Longrightarrow> claim_ok align 8 p \<and> claim_ok align 1 p"
proof -
  assume ok: "has_alignment p align"
  then obtain j where j: "align = 2 ^ j" by (auto simp: has_alignment_def)
  have "min align 8 dvd align \<and> min align 8 dvd 8"
  proof (cases "j \<le> 3")
    case True
    then have "(2 :: nat) ^ j dvd 2 ^ 3" "(2 :: nat) ^ j \<le> 2 ^ 3" by (intro le_imp_power_dvd power_increasing; simp)+
    then show ?thesis using j by (simp add: min_def)
  next
    case False
    then have "(2 :: nat) ^ 3 dvd 2 ^ j" "(2 :: nat) ^ 3 \<le> 2 ^ j" by (intro le_imp_power_dvd power_increasing; simp)+
    then show ?thesis using j by (simp add: min_def)
  qed
  moreover have "min align 1 = 1" by (rule min_absorb2) (simp add: j)
  ultimately show ?thesis using ok by (auto simp: claim_ok_def has_alignment_def intro: dvd_trans)
qed

lemma words_end: "unat (len div 8 * 8 :: u64) = unat len div 8 * 8" "8 dvd unat (len div 8 * 8 :: u64)"
  "unat len = unat (len div 8 * 8) + 1 * (unat len mod 8)" "unat (len div 8 * 8 :: u64) = unat (0 :: u64) + 8 * (unat len div 8)"
proof -
  have "unat len div 8 * 8 < 18446744073709551616" using u64_bound [of len] div_times_less_eq_dividend [of "unat len" 8] by linarith
  then show end8: "unat (len div 8 * 8 :: u64) = unat len div 8 * 8" by (simp add: unat_word_ariths unat_div)
  then show "8 dvd unat (len div 8 * 8 :: u64)" "unat len = unat (len div 8 * 8) + 1 * (unat len mod 8)"
    "unat (len div 8 * 8 :: u64) = unat (0 :: u64) + 8 * (unat len div 8)" by simp_all
qed

lemma mem_copied_none [simp]: "mem_copied dst src 0 m = m"
  by (auto simp: mem_copied_def fun_eq_iff)

lemma mem_filled_none [simp]: "mem_filled dst 0 b m = m"
  by (auto simp: mem_filled_def fun_eq_iff)

lemma copy_forward_correct:
  assumes "has_alignment dst dstAlign" and "has_alignment src srcAlign"
    and fits: "unat dst + unat len \<le> 2 ^ 64" "unat src + unat len \<le> 2 ^ 64"
    and apart: "unat dst \<le> unat src \<or> unat src + unat len \<le> unat dst"
  shows "EmitCopy False dstAlign srcAlign dst src len m = Some (mem_copied (unat dst) (unat src) (unat len) m)"
proof -
  note claims = claim_ok_steps [OF assms(1)] claim_ok_steps [OF assms(2)]
  have le: "unat (len div 8 * 8) \<le> unat len" using words_end(1) by simp
  have "copy_ascending 8 dstAlign srcAlign dst src 0 (len div 8 * 8) (mem_copied (unat dst) (unat src) (unat (0 :: u64)) m)
      = Some (mem_copied (unat dst) (unat src) (unat (len div 8 * 8)) m)"
    by (rule copy_ascending_correct [OF _ _ _ _ _ _ _ _ words_end(4)]) (use claims fits apart le in auto)
  moreover have "copy_ascending 1 dstAlign srcAlign dst src (len div 8 * 8) len
        (mem_copied (unat dst) (unat src) (unat (len div 8 * 8)) m)
      = Some (mem_copied (unat dst) (unat src) (unat len) m)"
    by (rule copy_ascending_correct [OF _ _ _ _ _ _ _ _ words_end(3)]) (use claims fits apart in auto)
  ultimately show ?thesis by (simp add: EmitCopy_def EmitCopyRange_def Let_def)
qed

lemma copy_backward_correct:
  assumes "has_alignment dst dstAlign" and "has_alignment src srcAlign"
    and fits: "unat dst + unat len \<le> 2 ^ 64" "unat src + unat len \<le> 2 ^ 64" and over: "unat src \<le> unat dst"
  shows "EmitCopy True dstAlign srcAlign dst src len m = Some (mem_copied (unat dst) (unat src) (unat len) m)"
proof -
  note claims = claim_ok_steps [OF assms(1)] claim_ok_steps [OF assms(2)]
  have le: "unat (len div 8 * 8) \<le> unat len" using words_end(1) by simp
  let ?w = "unat (len div 8 * 8)"
  have "copy_descending 1 dstAlign srcAlign dst src len (len div 8 * 8)
        (mem_copied (unat dst + unat len) (unat src + unat len) (unat len - unat len) m)
      = Some (mem_copied (unat dst + ?w) (unat src + ?w) (unat len - ?w) m)"
    by (rule copy_descending_correct [OF _ _ _ _ _ _ _ _ words_end(3)]) (use claims fits over in auto)
  moreover have "copy_descending 8 dstAlign srcAlign dst src (len div 8 * 8) 0
        (mem_copied (unat dst + ?w) (unat src + ?w) (unat len - ?w) m)
      = Some (mem_copied (unat dst + unat (0 :: u64)) (unat src + unat (0 :: u64)) (unat len - unat (0 :: u64)) m)"
    by (rule copy_descending_correct [OF _ _ _ _ _ _ _ _ words_end(4)]) (use claims fits over le in auto)
  ultimately show ?thesis by (simp add: EmitCopy_def EmitCopyRange_def Let_def)
qed

primrec repunit :: "nat \<Rightarrow> nat" where
  "repunit 0 = 0"
| "repunit (Suc n) = 256 * repunit n + 1"

lemma repunit_digit: "j < n \<Longrightarrow> b < 256 \<Longrightarrow> b * repunit n div 256 ^ j mod 256 = b"
proof (induction j arbitrary: n)
  case 0
  then obtain k where "n = Suc k" by (cases n) auto
  then have "b * repunit n = b + 256 * (b * repunit k)" by (simp add: algebra_simps)
  then show ?case using 0 by simp
next
  case (Suc j)
  then obtain k where k: "n = Suc k" "j < k" by (cases n) auto
  have "b * repunit n = b + 256 * (b * repunit k)" using k(1) by (simp add: algebra_simps)
  then have "b * repunit n div 256 = b * repunit k" using Suc.prems(2) by simp
  then show ?case using Suc.IH [OF k(2) Suc.prems(2)] by (simp add: div_mult2_eq)
qed

lemma repeated_byte:
  assumes "j < 8"
  shows "(ucast (drop_bit (8 * j) ((ucast (b :: u8) :: u64) * 0x0101010101010101)) :: u8) = b"
proof (rule word_unat_eq_iff [THEN iffD2])
  have b: "unat b < 256" using unsigned_less [of b] by simp
  have "unat (ucast b :: u64) = unat b" using b by (simp add: unsigned_ucast_eq take_bit_nat_eq_self)
  then have "unat (ucast b * 0x0101010101010101 :: u64) = unat b * 0x0101010101010101"
    using b by (simp add: unat_word_ariths)
  then have "unat (ucast (drop_bit (8 * j) ((ucast b :: u64) * 0x0101010101010101)) :: u8)
      = unat b * 0x0101010101010101 div 256 ^ j mod 256"
    by (simp add: unsigned_ucast_eq take_bit_eq_mod unat_drop_bit_div power_mult)
  moreover have "unat b * repunit (Suc (Suc (Suc (Suc (Suc (Suc (Suc (Suc 0)))))))) div 256 ^ j mod 256 = unat b"
    by (rule repunit_digit [OF _ b]) (use assms in simp)
  then have "unat b * 0x0101010101010101 div 256 ^ j mod 256 = unat b" by simp
  ultimately show "unat (ucast (drop_bit (8 * j) ((ucast b :: u64) * 0x0101010101010101)) :: u8) = unat b"
    by simp
qed

lemma ucast_byte_back: "(ucast (ucast (b :: u8) :: u64) :: u8) = b"
  by (rule bit_word_eqI) (simp add: bit_simps)

lemma set_correct:
  assumes "has_alignment dst dstAlign" and fits: "unat dst + unat len \<le> 2 ^ 64"
  shows "EmitSet dstAlign dst value len m = Some (mem_filled (unat dst) (unat len) (ucast value) m)"
proof -
  note claims = claim_ok_steps [OF assms(1)]
  let ?b = "ucast value :: u8"
  have le: "unat (len div 8 * 8) \<le> unat len" using words_end(1) by simp
  have "EmitSetRange 8 dstAlign dst (ucast ?b * 0x0101010101010101) 0 (len div 8 * 8) (mem_filled (unat dst) (unat (0 :: u64)) ?b m)
      = Some (mem_filled (unat dst) (unat (len div 8 * 8)) ?b m)"
    by (rule set_range_correct [OF _ _ _ _ _ _ words_end(4)]) (use claims fits le repeated_byte in auto)
  moreover have "EmitSetRange 1 dstAlign dst (ucast ?b) (len div 8 * 8) len (mem_filled (unat dst) (unat (len div 8 * 8)) ?b m)
      = Some (mem_filled (unat dst) (unat len) ?b m)"
    by (rule set_range_correct [OF _ _ _ _ _ _ words_end(3)]) (use claims fits ucast_byte_back in auto)
  ultimately show ?thesis by (simp add: EmitSet_def Let_def)
qed

section \<open>Properties\<close>

text \<open>C37: the inline expansions end and are exact. For pointers with the alignments the site states and
  ranges inside the address space, an expanded \<open>memmove\<close> leaves the destination holding the bytes the
  source held before, however the two overlap and whatever the length's tail, an expanded \<open>memset\<close>
  fills the range with its byte, and an expanded \<open>memcpy\<close> copies ranges that do not overlap; nothing
  outside the destination changes and no access is misaligned.\<close>

theorem expanded_routines_exact:
  assumes "has_alignment dst dstAlign" and "has_alignment src srcAlign"
    and "unat dst + unat len \<le> 2 ^ 64" and "unat src + unat len \<le> 2 ^ 64"
  shows "run_site MemMove dstAlign srcAlign dst src value len m = Some (mem_copied (unat dst) (unat src) (unat len) m)
    \<and> run_site MemSet dstAlign srcAlign dst src value len m = Some (mem_filled (unat dst) (unat len) (ucast value) m)
    \<and> (unat dst + unat len \<le> unat src \<or> unat src + unat len \<le> unat dst \<or> dst = src \<longrightarrow>
       run_site MemCpy dstAlign srcAlign dst src value len m = Some (mem_copied (unat dst) (unat src) (unat len) m))"
proof -
  have "EmitCopy (dst > src) dstAlign srcAlign dst src len m = Some (mem_copied (unat dst) (unat src) (unat len) m)"
  proof (cases "dst > src")
    case True
    then have "unat src \<le> unat dst" by (simp add: word_less_nat_alt)
    then show ?thesis using copy_backward_correct [OF assms] True by simp
  next
    case False
    then have "unat dst \<le> unat src" by (simp add: word_less_nat_alt)
    then show ?thesis using copy_forward_correct [OF assms] False by simp
  qed
  moreover have "EmitCopy False dstAlign srcAlign dst src len m = Some (mem_copied (unat dst) (unat src) (unat len) m)"
    if "unat dst + unat len \<le> unat src \<or> unat src + unat len \<le> unat dst \<or> dst = src"
    by (rule copy_forward_correct [OF assms]) (use that in auto)
  ultimately show ?thesis using set_correct [OF assms(1,3)] by (auto simp: run_site_def)
qed

text \<open>Thirteen bytes moved up by three over themselves.\<close>

theorem expanded_routines_exact_witness:
  "run_site MemMove 1 4 19 16 0 13 (\<lambda>x. of_nat x) = Some (mem_copied 19 16 13 (\<lambda>x. of_nat x)) \<and>
    mem_copied 19 16 13 (\<lambda>x. of_nat x) 31 = 28"
proof -
  have "has_alignment 19 1" "has_alignment 16 4"
    by (auto simp: has_alignment_def intro: exI [of _ 0] exI [of _ 2])
  then show ?thesis
    using expanded_routines_exact [of 19 1 16 4 13 0 "\<lambda>x. of_nat x"] by (simp add: mem_copied_def)
qed

text \<open>A site that touches native map storage is never left as a call or handed to the driver, whose
  frames could not hold its pointers.\<close>

lemma native_site_inlined:
  assumes "list_ex mp_sectioned (site_pointers site)" and "ms_intrinsic site \<or> ms_arguments site \<ge> 3"
  shows "expand_site defined site = Inlined"
  using assms by (auto simp: expand_site_def mem_candidate_def outlineDriver_def list_ex_iff split: option.splits)

text \<open>Everything an intrinsic site becomes is either of the two; only calls that touch no native storage stay.\<close>

lemma left_alone_iff:
  "expand_site defined site = LeftAlone \<longleftrightarrow>
     \<not> ms_intrinsic site \<and> (ms_arguments site < 3 \<or> \<not> list_ex mp_sectioned (site_pointers site))"
  by (auto simp: expand_site_def mem_candidate_def split: option.splits)

end
