(* ===== verification/Scalar_Lowering.thy ===== *)
theory Scalar_Lowering
  imports Byte_Memory "HOL-Library.Signed_Division"
begin

text \<open>
  The passes that rewrite single operations the target lacks: signed division (\<open>lower_sdiv.cpp\<close>), the
  64-bit shift by 63 (\<open>split_shift63.cpp\<close>), 128-bit and overflow-checked multiplication
  (\<open>expand_i128.cpp\<close>), sign-extending loads (\<open>machine_arena_sext.cpp\<close>) and store-immediates
  (\<open>machine_arena_store_imm.cpp\<close>). An operation is the value it computes; the compiler runtime's
  routines are parameters.
\<close>

section \<open>Signed division\<close>

datatype division = SDiv | SRem

text \<open>The instructions emitted at the width 32 or 64; an arithmetic shift by the width less one is the sign.\<close>

definition lower_signed :: "division \<Rightarrow> 'w::len word \<Rightarrow> 'w word \<Rightarrow> 'w word" where
  "lower_signed opcode lhs rhs =
     (let lhsSign = signed_drop_bit (LENGTH('w) - 1) lhs; rhsSign = signed_drop_bit (LENGTH('w) - 1) rhs;
          lhsMagnitude = (lhs XOR lhsSign) - lhsSign; rhsMagnitude = (rhs XOR rhsSign) - rhsSign;
          magnitude = (if opcode = SDiv then lhsMagnitude div rhsMagnitude else lhsMagnitude mod rhsMagnitude);
          sign = (if opcode = SDiv then lhsSign XOR rhsSign else lhsSign)
      in (magnitude XOR sign) - sign)"

text \<open>\<open>LowerSDivPass\<close> on one operation; a type wider than 64 bits is reported.\<close>

definition LowerSDiv :: "division \<Rightarrow> 'a::len word \<Rightarrow> 'a word \<Rightarrow> 'a word option" where
  "LowerSDiv opcode lhs rhs =
     (if LENGTH('a) > 64 then None
      else if LENGTH('a) \<le> 32 then Some (ucast (lower_signed opcode (scast lhs :: u32) (scast rhs)))
      else Some (ucast (lower_signed opcode (scast lhs :: u64) (scast rhs))))"

lemma sign_word: "signed_drop_bit (LENGTH('w) - 1) (w :: 'w::len word) = (if sint w < 0 then - 1 else 0)"
proof (rule bit_word_eqI)
  fix k assume k: "k < LENGTH('w)"
  have "bit w (LENGTH('w) - 1) \<longleftrightarrow> sint w < 0" by (simp add: bit_last_iff)
  then show "bit (signed_drop_bit (LENGTH('w) - 1) w) k = bit (if sint w < 0 then - 1 else 0 :: 'w word) k"
    using k by (cases k) (auto simp: bit_signed_drop_bit_iff)
qed

lemma apply_sign: "(x XOR (if b then - 1 else 0)) - (if b then - 1 else 0) = (if b then - x else x)"
  for x :: "'w::len word"
  by (simp add: not_eq_complement)

lemma magnitude_uint: "uint (if sint w < 0 then - w else w) = \<bar>sint w\<bar>" for w :: "'w::len word"
proof -
  have range: "- (2 ^ (LENGTH('w) - 1)) \<le> sint w" "sint w < 2 ^ (LENGTH('w) - 1)" using sint_ge [of w] sint_lt [of w] by simp_all
  have wider: "(2 :: int) ^ (LENGTH('w) - 1) < 2 ^ LENGTH('w)" by (intro power_strict_increasing) simp_all
  have "(if sint w < 0 then - w else w) = word_of_int \<bar>sint w\<bar>" by simp
  then have "uint (if sint w < 0 then - w else w) = take_bit LENGTH('w) \<bar>sint w\<bar>" by (simp only: uint_word_of_int_eq)
  moreover have "\<bar>sint w\<bar> < 2 ^ LENGTH('w)" using range wider by linarith
  ultimately show ?thesis by (simp add: take_bit_int_eq_self_iff)
qed

lemma lower_signed_value:
  assumes "sint rhs \<noteq> 0"
  shows "lower_signed SDiv lhs rhs = word_of_int (sint lhs sdiv sint rhs)"
    and "lower_signed SRem lhs rhs = word_of_int (sint lhs smod sint rhs)"
proof -
  let ?m = "\<lambda>w :: 'a word. if sint w < 0 then - w else w"
  have div: "?m lhs div ?m rhs = word_of_int (\<bar>sint lhs\<bar> div \<bar>sint rhs\<bar>)"
    and mod: "?m lhs mod ?m rhs = word_of_int (\<bar>sint lhs\<bar> mod \<bar>sint rhs\<bar>)"
    by (simp_all only: word_div_def word_mod_def magnitude_uint)
  have xor: "(if a then - 1 else 0) XOR (if b then - 1 else 0) = (if a \<noteq> b then - 1 else (0 :: 'a word))" for a b
    by simp
  have shape: "lower_signed SDiv lhs rhs =
      (if (sint lhs < 0) \<noteq> (sint rhs < 0) then - (?m lhs div ?m rhs) else ?m lhs div ?m rhs)"
    "lower_signed SRem lhs rhs = (if sint lhs < 0 then - (?m lhs mod ?m rhs) else ?m lhs mod ?m rhs)"
    by (simp_all only: lower_signed_def Let_def sign_word xor apply_sign division.simps simp_thms if_True if_False)
  show "lower_signed SDiv lhs rhs = word_of_int (sint lhs sdiv sint rhs)"
    using assms unfolding shape div by (auto simp: signed_divide_int_def sgn_if)
  show "lower_signed SRem lhs rhs = word_of_int (sint lhs smod sint rhs)"
    unfolding shape mod by (auto simp: signed_modulo_int_def sgn_if)
qed

lemma sint_scast:
  assumes "LENGTH('a::len) \<le> LENGTH('w::len)"
  shows "sint (scast (x :: 'a word) :: 'w word) = sint x"
proof -
  have "(2 :: int) ^ (LENGTH('a) - 1) \<le> 2 ^ (LENGTH('w) - 1)" using assms by (intro power_increasing) simp_all
  then have "- (2 ^ (LENGTH('w) - 1)) \<le> sint x" "sint x < 2 ^ (LENGTH('w) - 1)"
    using sint_ge [of x] sint_lt [of x] by linarith+
  then have "signed_take_bit (LENGTH('w) - 1) (sint x) = sint x" by (simp add: signed_take_bit_int_eq_self_iff)
  then show ?thesis by (simp add: signed_scast_eq)
qed

lemma narrow_word_of_int: "LENGTH('a::len) \<le> LENGTH('w::len) \<Longrightarrow> (ucast (word_of_int k :: 'w word) :: 'a word) = word_of_int k"
  by (rule bit_word_eqI) (simp add: bit_simps)

text \<open>C38: lowered signed division and remainder compute what the operations mean. For every width up to 64
  bits and every nonzero divisor the emitted sequence of unsigned operations yields the quotient
  truncated towards zero and the remainder with the sign of the dividend, wrapped to the width, also
  for the most negative dividend.\<close>

theorem lowered_division_exact:
  fixes x y :: "'a::len word"
  assumes "LENGTH('a) \<le> 64" and "y \<noteq> 0"
  shows "LowerSDiv SDiv x y = Some (word_of_int (sint x sdiv sint y)) \<and>
    LowerSDiv SRem x y = Some (word_of_int (sint x smod sint y))"
proof -
  have y: "sint y \<noteq> 0" using assms(2) by (simp add: signed_eq_0_iff)
  show ?thesis
  proof (cases "LENGTH('a) \<le> 32")
    case True
    then show ?thesis
      using y lower_signed_value [of "scast y :: u32" "scast x"] narrow_word_of_int [where 'w = 32 and 'a = 'a]
      by (simp add: LowerSDiv_def sint_scast)
  next
    case False
    then show ?thesis
      using y assms(1) lower_signed_value [of "scast y :: u64" "scast x"] narrow_word_of_int [where 'w = 64 and 'a = 'a]
      by (simp add: LowerSDiv_def sint_scast)
  qed
qed

theorem lowered_division_exact_witness:
  "LowerSDiv SDiv (- 7 :: u8) 2 = Some (- 3) \<and> LowerSDiv SRem (- 7 :: u8) 2 = Some (- 1) \<and>
    LowerSDiv SDiv (0x8000000000000000 :: u64) (- 1) = Some 0x8000000000000000"
  using lowered_division_exact [of "2 :: u8" "- 7"] lowered_division_exact [of "- 1 :: u64" "0x8000000000000000"]
  by (simp add: signed_divide_int_def signed_modulo_int_def)

section \<open>Shifts by 63\<close>

datatype shift = AShr | LShr

definition shift_right :: "shift \<Rightarrow> nat \<Rightarrow> 'w::len word \<Rightarrow> 'w word" where
  "shift_right opcode n x = (case opcode of AShr \<Rightarrow> signed_drop_bit n x | LShr \<Rightarrow> drop_bit n x)"

definition SplitShift63 :: "shift \<Rightarrow> nat \<Rightarrow> 'w::len word \<Rightarrow> 'w word" where
  "SplitShift63 opcode amount x =
     (if amount = 63 \<and> LENGTH('w) = 64 then shift_right opcode 31 (shift_right opcode 32 x)
      else shift_right opcode amount x)"

lemma split_shift_exact: "SplitShift63 opcode amount x = shift_right opcode amount x"
proof (cases opcode)
  case AShr
  have "signed_drop_bit 31 (signed_drop_bit 32 x) = signed_drop_bit 63 x" if "LENGTH('a) = 64"
    using that by (intro bit_word_eqI) (auto simp: bit_signed_drop_bit_iff)
  then show ?thesis using AShr by (simp add: SplitShift63_def shift_right_def)
next
  case LShr
  then show ?thesis by (simp add: SplitShift63_def shift_right_def drop_bit_drop_bit)
qed

section \<open>128-bit arithmetic\<close>

type_synonym u128 = "128 word"

datatype arithmetic =
    Wide128 wide_opcode | UMulWithOverflow nat | SMulWithOverflow nat | OtherArithmetic
and wide_opcode = Mul | UDiv | URem | SDiv128 | SRem128

definition arithmeticLibcall :: "arithmetic \<Rightarrow> string option" where
  "arithmeticLibcall instruction =
     (case instruction of
        Wide128 Mul \<Rightarrow> Some ''__multi3''
      | Wide128 UDiv \<Rightarrow> Some ''__udivti3''
      | Wide128 URem \<Rightarrow> Some ''__umodti3''
      | Wide128 SDiv128 \<Rightarrow> Some ''__divti3''
      | Wide128 SRem128 \<Rightarrow> Some ''__modti3''
      | UMulWithOverflow bits \<Rightarrow> if bits = 64 then Some ''__multi3'' else None
      | SMulWithOverflow bits \<Rightarrow> if bits = 64 then Some ''__mulodi4'' else None
      | OtherArithmetic \<Rightarrow> None)"

text \<open>The overflow-checked multiplications; \<open>multi3\<close> and \<open>mulodi4\<close> are the compiler runtime's routines, the
  latter with the overflow word it stores.\<close>

definition expand_umul_with_overflow :: "(u128 \<Rightarrow> u128 \<Rightarrow> u128) \<Rightarrow> u64 \<Rightarrow> u64 \<Rightarrow> u64 \<times> bool" where
  "expand_umul_with_overflow multi3 a d =
     (let wide = multi3 (ucast a) (ucast d) in (ucast wide, drop_bit 64 wide \<noteq> 0))"

definition expand_smul_with_overflow :: "(u64 \<Rightarrow> u64 \<Rightarrow> u64 \<times> i32) \<Rightarrow> u64 \<Rightarrow> u64 \<Rightarrow> u64 \<times> bool" where
  "expand_smul_with_overflow mulodi4 a d = (case mulodi4 a d of (product, slot) \<Rightarrow> (product, slot \<noteq> 0))"

text \<open>\<open>RequiredIntegerLibcalls\<close>: the routines to link, each once, in order of first use.\<close>

fun required_libcalls :: "(string \<Rightarrow> bool) \<Rightarrow> string list \<Rightarrow> arithmetic list \<Rightarrow> string list" where
  "required_libcalls defined seen [] = []"
| "required_libcalls defined seen (i # is) =
     (case arithmeticLibcall i of
        None \<Rightarrow> required_libcalls defined seen is
      | Some name \<Rightarrow>
          if \<not> defined name \<and> name \<notin> set seen then name # required_libcalls defined (name # seen) is
          else required_libcalls defined seen is)"

lemma unsigned_overflow_exact:
  assumes "\<And>a b. multi3 a b = a * b"
  shows "expand_umul_with_overflow multi3 a d = (a * d, unat a * unat d \<ge> 2 ^ 64)"
proof -
  have wide: "unat (ucast a * ucast d :: u128) = unat a * unat d"
  proof -
    have "unat a * unat d < 2 ^ 64 * 2 ^ 64"
      by (rule mult_strict_mono) (use u64_bound [of a] u64_bound [of d] in simp_all)
    moreover have "unat (ucast w :: u128) = unat w" for w :: u64
    proof -
      have "unat w < 2 ^ LENGTH(128)" by (rule less_trans [OF u64_bound]) simp
      then show ?thesis by (simp only: unsigned_ucast_eq take_bit_nat_eq_self)
    qed
    ultimately show ?thesis by (simp add: unat_word_ariths)
  qed
  have "(ucast (ucast a * ucast d :: u128) :: u64) = a * d"
  proof (rule word_unat_eq_iff [THEN iffD2])
    have "unat (ucast (ucast a * ucast d :: u128) :: u64) = take_bit LENGTH(64) (unat a * unat d)"
      by (simp only: unsigned_ucast_eq wide)
    then show "unat (ucast (ucast a * ucast d :: u128) :: u64) = unat (a * d)"
      by (simp add: take_bit_eq_mod unat_word_ariths)
  qed
  moreover have "drop_bit 64 (ucast a * ucast d :: u128) \<noteq> 0 \<longleftrightarrow> unat a * unat d \<ge> 2 ^ 64"
    unfolding unat_eq_zero [symmetric] unat_drop_bit_div wide by (simp add: div_eq_0_iff not_less)
  ultimately show ?thesis by (simp add: expand_umul_with_overflow_def assms)
qed

lemma required_libcalls_exact:
  "distinct (required_libcalls defined seen is) \<and> set (required_libcalls defined seen is) =
     {name. Some name \<in> arithmeticLibcall ` set is \<and> \<not> defined name} - set seen"
proof (induction "is" arbitrary: seen)
  case (Cons i "is")
  show ?case
  proof (cases "arithmeticLibcall i")
    case (Some name)
    then show ?thesis using Cons.IH [of seen] Cons.IH [of "name # seen"] by (auto simp: image_iff)
  qed (use Cons.IH [of seen] in \<open>auto simp: image_iff\<close>)
qed simp

section \<open>Machine instructions\<close>

text \<open>Sign-extending loads: the selected instruction, the zero-extending load of the same width and the
  register extension that restores the value.\<close>

datatype sx_load = LDBSX | LDHSX | LDWSX

definition sx_bytes :: "sx_load \<Rightarrow> nat" where
  "sx_bytes opcode = (case opcode of LDBSX \<Rightarrow> 1 | LDHSX \<Rightarrow> 2 | LDWSX \<Rightarrow> 4)"

definition load_signed :: "sx_load \<Rightarrow> bytes \<Rightarrow> nat \<Rightarrow> u64" where
  "load_signed opcode m a = signed_take_bit (8 * sx_bytes opcode - 1) (load_le m a (sx_bytes opcode))"

definition load_plain :: "sx_load \<Rightarrow> bytes \<Rightarrow> nat \<Rightarrow> u32" where
  "load_plain opcode m a = ucast (load_le m a (sx_bytes opcode))"

definition movsx :: "sx_load \<Rightarrow> u64 \<Rightarrow> u64" where
  "movsx opcode wide = signed_take_bit (8 * sx_bytes opcode - 1) wide"

definition MachineArenaSext :: "sx_load \<Rightarrow> bytes \<Rightarrow> nat \<Rightarrow> u64" where
  "MachineArenaSext opcode m a =
     (let narrow = load_plain opcode m a; wide = (ucast narrow :: u64) in movsx opcode wide)"

lemma arena_sext_exact: "MachineArenaSext opcode m a = load_signed opcode m a"
proof -
  have "(ucast (load_plain opcode m a) :: u64) = load_le m a (sx_bytes opcode)"
    by (cases opcode; intro bit_word_eqI) (auto simp: load_plain_def sx_bytes_def bit_simps bit_load_le dest: bit_imp_le_length)
  then show ?thesis by (simp add: MachineArenaSext_def movsx_def load_signed_def)
qed

text \<open>Store-immediates: only an offset in the scaled unsigned form of an arm64 store is kept.\<close>

datatype store_width = STB | STH | STW | STD

definition store_bytes :: "store_width \<Rightarrow> int" where
  "store_bytes width = (case width of STB \<Rightarrow> 1 | STH \<Rightarrow> 2 | STW \<Rightarrow> 4 | STD \<Rightarrow> 8)"

definition OffsetFitsScaledImmediate :: "int \<Rightarrow> int \<Rightarrow> bool" where
  "OffsetFitsScaledImmediate offset width \<longleftrightarrow> offset \<ge> 0 \<and> offset \<le> 0xfff * width \<and> offset mod width = 0"

datatype store_base = BaseRegister nat | FrameIndex nat

datatype machine_instruction =
    StoreImm store_width int store_base int
  | MovRI nat int
  | LdImm64 nat int
  | StoreReg store_width nat store_base int

text \<open>\<open>held\<close> is the virtual register created for the value.\<close>

definition lower_store_imm :: "nat \<Rightarrow> store_width \<Rightarrow> int \<Rightarrow> store_base \<Rightarrow> int \<Rightarrow> machine_instruction list" where
  "lower_store_imm held width v base offset =
     (case base of
        FrameIndex _ \<Rightarrow> [StoreImm width v base offset]
      | BaseRegister _ \<Rightarrow>
          if OffsetFitsScaledImmediate offset (store_bytes width) then [StoreImm width v base offset]
          else let wide = \<not> (- (2 ^ 31) \<le> v \<and> v < 2 ^ 31)
               in [if wide then LdImm64 held v else MovRI held v, StoreReg width held base offset])"

text \<open>The machine: registers, the address of a base, and memory.\<close>

fun exec_machine ::
  "(store_base \<Rightarrow> nat) \<Rightarrow> machine_instruction \<Rightarrow> (nat \<Rightarrow> u64) \<times> bytes \<Rightarrow> (nat \<Rightarrow> u64) \<times> bytes" where
  "exec_machine at (StoreImm width v base offset) (r, m) =
     (r, store_le m (nat (int (at base) + offset)) (nat (store_bytes width)) (word_of_int v))"
| "exec_machine at (MovRI d v) (r, m) = (r(d := scast (word_of_int v :: i32)), m)"
| "exec_machine at (LdImm64 d v) (r, m) = (r(d := word_of_int v), m)"
| "exec_machine at (StoreReg width s base offset) (r, m) =
     (r, store_le m (nat (int (at base) + offset)) (nat (store_bytes width)) (r s))"

text \<open>The lowered store leaves the same memory, and touches no register but the new one.\<close>

lemma store_imm_exact:
  "snd (fold (exec_machine at) (lower_store_imm held width v base offset) (r, m)) =
     snd (exec_machine at (StoreImm width v base offset) (r, m)) \<and>
   (\<forall>d. d \<noteq> held \<longrightarrow> fst (fold (exec_machine at) (lower_store_imm held width v base offset) (r, m)) d = r d)"
proof -
  have "(scast (word_of_int v :: i32) :: u64) = word_of_int v" if "- (2 ^ 31) \<le> v" "v < 2 ^ 31"
  proof -
    have "signed_take_bit 31 v = v" using that by (simp add: signed_take_bit_int_eq_self_iff)
    then have "sint (word_of_int v :: i32) = v" by (simp add: sint_sbintrunc')
    then show ?thesis by (simp only: scast_eq)
  qed
  then show ?thesis by (cases base) (auto simp: lower_store_imm_def Let_def)
qed

text \<open>No store-immediate with a register base keeps an offset that the target encodes through a register.\<close>

lemma store_imm_scaled:
  "StoreImm w x (BaseRegister b) off \<in> set (lower_store_imm held width v base offset) \<Longrightarrow>
     OffsetFitsScaledImmediate off (store_bytes w)"
  by (auto simp: lower_store_imm_def Let_def split: store_base.splits if_splits)

end
