(* ===== verification/Frame_Layout.thy ===== *)
theory Frame_Layout
  imports Capsule_Abi
begin

text \<open>
  The software frame of \<open>stackify.cpp\<close>: the caller-owned outgoing area of a managed call, the locals of a
  managed function, and the partition of a fiber's stack into transient reserve, frames and root call.
  Sizes are those the data layout reports; every size that enters the arithmetic is bounded by the
  fiber's stack, so the sums are exact in 64 bits and are written over natural numbers.
\<close>

section \<open>Layout arithmetic\<close>

datatype layout_error = NotPowerOfTwo | Unsized | Scalable | ExceedsStack | CountTooWide | NoRootCall

text \<open>What the data layout says of a type.\<close>

record ir_layout =
  ty_sized :: bool
  ty_scalable :: bool
  ty_bytes :: nat
  ty_alignment :: nat

definition isPowerOf2_64 :: "nat \<Rightarrow> bool" where
  "isPowerOf2_64 n \<longleftrightarrow> (\<exists>k<64. n = 2 ^ k)"

definition FixedTypeLayout :: "nat \<Rightarrow> ir_layout \<Rightarrow> layout_error + nat \<times> nat" where
  "FixedTypeLayout FiberStackSize type =
     (if \<not> ty_sized type then Inl Unsized
      else if ty_scalable type then Inl Scalable
      else if ty_bytes type > FiberStackSize \<or> ty_alignment type > FiberStackSize then Inl ExceedsStack
      else Inr (ty_bytes type, ty_alignment type))"

text \<open>The stack geometry: a power of two of at most two mebibytes.\<close>

definition MaxFiberStackBytes :: nat where "MaxFiberStackBytes = 2 * 1024 * 1024"

definition ConfigureStackGeometry :: "nat \<Rightarrow> nat option" where
  "ConfigureStackGeometry FiberStackBytes =
     (if FiberStackBytes = 0 \<or> \<not> isPowerOf2_64 FiberStackBytes \<or> FiberStackBytes > MaxFiberStackBytes then None
      else Some FiberStackBytes)"

text \<open>The offset of the reserved bytes and the new cursor.\<close>

definition ReserveFrameBytes :: "nat \<Rightarrow> nat \<Rightarrow> nat \<Rightarrow> nat \<Rightarrow> layout_error + nat \<times> nat" where
  "ReserveFrameBytes FiberStackSize cursor bytes alignment =
     (if alignment = 0 \<or> \<not> isPowerOf2_64 alignment then Inl NotPowerOfTwo
      else if cursor > FiberStackSize \<or> bytes > FiberStackSize \<or> alignment > FiberStackSize then Inl ExceedsStack
      else let padding = unat ((- of_nat cursor) AND (of_nat alignment - 1 :: u64))
           in if padding > FiberStackSize - cursor \<or> bytes > FiberStackSize - cursor - padding then Inl ExceedsStack
              else let offset = cursor + padding in Inr (offset, offset + bytes))"

definition LinkageBytes :: nat where "LinkageBytes = 16"
definition SavedFpOffset :: nat where "SavedFpOffset = 0"
definition ReturnRegionIdOffset :: nat where "ReturnRegionIdOffset = 8"

lemmas linkage_defs = LinkageBytes_def SavedFpOffset_def ReturnRegionIdOffset_def

section \<open>Outgoing areas\<close>

record managed_call_value =
  SlotType :: ir_layout
  ByValType :: "ir_layout option"
  ByValAlignment :: nat

definition storage_type :: "managed_call_value \<Rightarrow> ir_layout" where
  "storage_type v = (case ByValType v of Some type \<Rightarrow> type | None \<Rightarrow> SlotType v)"

text \<open>A slot is its offset, its size and its alignment.\<close>

type_synonym slot = "nat \<times> nat \<times> nat"

text \<open>\<open>IncludeCallValue\<close>: the universal frame alignment after a value.\<close>

definition IncludeCallValue :: "nat \<Rightarrow> nat \<Rightarrow> managed_call_value \<Rightarrow> layout_error + nat" where
  "IncludeCallValue FiberStackSize FrameAlignment v =
     on_ok (FixedTypeLayout FiberStackSize (storage_type v)) (\<lambda>(bytes, alignment).
       Inr (max FrameAlignment (max 8 (max alignment (ByValAlignment v)))))"

definition ReserveCallValue :: "nat \<Rightarrow> nat \<Rightarrow> managed_call_value \<Rightarrow> layout_error + slot \<times> nat" where
  "ReserveCallValue FiberStackSize cursor v =
     on_ok (FixedTypeLayout FiberStackSize (storage_type v)) (\<lambda>(bytes, alignment).
       let alignment = max 8 (max alignment (ByValAlignment v)); bytes = align_to bytes 8
       in on_ok (ReserveFrameBytes FiberStackSize cursor bytes alignment) (\<lambda>(offset, cursor).
         Inr ((offset, bytes, alignment), cursor)))"

fun reserve_values :: "nat \<Rightarrow> nat \<Rightarrow> managed_call_value list \<Rightarrow> layout_error + slot list \<times> nat" where
  "reserve_values FiberStackSize cursor [] = Inr ([], cursor)"
| "reserve_values FiberStackSize cursor (v # vs) =
     on_ok (ReserveCallValue FiberStackSize cursor v) (\<lambda>(slot, cursor).
       on_ok (reserve_values FiberStackSize cursor vs) (\<lambda>(slots, cursor). Inr (slot # slots, cursor)))"

text \<open>\<open>ManagedCallLayout\<close> with the slots of the result and of the arguments.\<close>

record managed_call_layout =
  ResultSlot :: "slot option"
  ArgSlots :: "slot list"
  ArgsEnd :: nat
  Size :: nat

definition value_of_type :: "ir_layout \<Rightarrow> managed_call_value" where
  "value_of_type type = \<lparr>SlotType = type, ByValType = None, ByValAlignment = 1\<rparr>"

definition LayoutCall ::
  "nat \<Rightarrow> nat \<Rightarrow> ir_layout option \<Rightarrow> managed_call_value list \<Rightarrow> layout_error + managed_call_layout" where
  "LayoutCall FiberStackSize FrameAlignment result arguments =
     on_ok (case result of
              None \<Rightarrow> Inr (None, LinkageBytes)
            | Some type \<Rightarrow> on_ok (ReserveCallValue FiberStackSize LinkageBytes (value_of_type type))
                (\<lambda>(slot, cursor). Inr (Some slot, cursor))) (\<lambda>(resultSlot, cursor).
       on_ok (reserve_values FiberStackSize cursor arguments) (\<lambda>(slots, argsEnd).
         on_ok (ReserveFrameBytes FiberStackSize argsEnd 0 FrameAlignment) (\<lambda>(offset, cursor).
           Inr \<lparr>ResultSlot = resultSlot, ArgSlots = slots, ArgsEnd = argsEnd, Size = cursor\<rparr>)))"

section \<open>Frames\<close>

text \<open>What a managed function keeps in its frame, in instruction order: a static object of so many elements
  of a type and an alignment, and the handle of a dynamic one with its element type, the width of its
  count and its alignment.\<close>

datatype frame_item =
    SetjmpResult
  | StackSave
  | DynamicAlloca ir_layout nat nat
  | StaticAlloca ir_layout nat nat

definition reserve_item :: "nat \<Rightarrow> nat \<Rightarrow> frame_item \<Rightarrow> layout_error + slot \<times> nat" where
  "reserve_item FiberStackSize cursor item =
     on_ok (case item of
              SetjmpResult \<Rightarrow> Inr (4, 4)
            | StackSave \<Rightarrow> Inr (8, 8)
            | DynamicAlloca _ _ _ \<Rightarrow> Inr (8, 8)
            | StaticAlloca element elementCount alignment \<Rightarrow>
                let elementBytes = ty_bytes element; count = min elementCount (FiberStackSize + 1)
                in if elementBytes \<noteq> 0 \<and> count > FiberStackSize div elementBytes then Inl ExceedsStack
                   else Inr (elementBytes * count, alignment)) (\<lambda>(bytes, alignment).
       on_ok (ReserveFrameBytes FiberStackSize cursor bytes alignment) (\<lambda>(offset, cursor).
         Inr ((offset, bytes, alignment), cursor)))"

fun reserve_items :: "nat \<Rightarrow> nat \<Rightarrow> frame_item list \<Rightarrow> layout_error + slot list \<times> nat" where
  "reserve_items FiberStackSize cursor [] = Inr ([], cursor)"
| "reserve_items FiberStackSize cursor (i # is) =
     on_ok (reserve_item FiberStackSize cursor i) (\<lambda>(slot, cursor).
       on_ok (reserve_items FiberStackSize cursor is) (\<lambda>(slots, cursor). Inr (slot # slots, cursor)))"

text \<open>The slots of a function's frame and its size.\<close>

definition frame_of :: "nat \<Rightarrow> nat \<Rightarrow> frame_item list \<Rightarrow> layout_error + slot list \<times> nat" where
  "frame_of FiberStackSize FrameAlignment items =
     on_ok (reserve_items FiberStackSize 0 items) (\<lambda>(slots, cursor).
       on_ok (ReserveFrameBytes FiberStackSize cursor 0 FrameAlignment) (\<lambda>(offset, cursor). Inr (slots, cursor)))"

definition check_item :: "nat \<Rightarrow> frame_item \<Rightarrow> layout_error option" where
  "check_item FiberStackSize item =
     (case item of
        StaticAlloca element _ alignment \<Rightarrow>
          if ty_scalable element then Some Scalable
          else if alignment > FiberStackSize then Some ExceedsStack else None
      | DynamicAlloca element countBits alignment \<Rightarrow>
          if ty_scalable element then Some Scalable
          else if alignment > FiberStackSize then Some ExceedsStack
          else if ty_bytes element \<noteq> 0 \<and> countBits > 64 then Some CountTooWide else None
      | _ \<Rightarrow> None)"

fun check_items :: "nat \<Rightarrow> frame_item list \<Rightarrow> layout_error + unit" where
  "check_items FiberStackSize [] = Inr ()"
| "check_items FiberStackSize (i # is) =
     (case check_item FiberStackSize i of Some e \<Rightarrow> Inl e | None \<Rightarrow> check_items FiberStackSize is)"

section \<open>A module\<close>

text \<open>A call by the type of its result and its actual arguments; a managed function by its formal ones,
  its frame items and the managed calls it makes.\<close>

type_synonym call_signature = "ir_layout option \<times> managed_call_value list"

record managed_function =
  mf_signature :: call_signature
  mf_items :: "frame_item list"
  mf_calls :: "call_signature list"

record frame_module =
  fm_functions :: "managed_function list"
  fm_roots :: "call_signature list"

fun include_values :: "nat \<Rightarrow> nat \<Rightarrow> managed_call_value list \<Rightarrow> layout_error + nat" where
  "include_values FiberStackSize FrameAlignment [] = Inr FrameAlignment"
| "include_values FiberStackSize FrameAlignment (v # vs) =
     on_ok (IncludeCallValue FiberStackSize FrameAlignment v) (\<lambda>FrameAlignment.
       include_values FiberStackSize FrameAlignment vs)"

definition signature_values :: "call_signature \<Rightarrow> managed_call_value list" where
  "signature_values s = snd s @ (case fst s of None \<Rightarrow> [] | Some type \<Rightarrow> [value_of_type type])"

definition call_values :: "call_signature \<Rightarrow> managed_call_value list" where
  "call_values s = (case fst s of None \<Rightarrow> [] | Some type \<Rightarrow> [value_of_type type]) @ snd s"

definition static_alignments :: "frame_item list \<Rightarrow> nat list" where
  "static_alignments items = List.map_filter (\<lambda>i. case i of StaticAlloca _ _ a \<Rightarrow> Some a | _ \<Rightarrow> None) items"

definition alloca_alignments :: "frame_item list \<Rightarrow> nat list" where
  "alloca_alignments items = List.map_filter (\<lambda>i. case i of StaticAlloca _ _ a \<Rightarrow> Some a | DynamicAlloca _ _ a \<Rightarrow> Some a | _ \<Rightarrow> None) items"

text \<open>The first half of \<open>LayOutArguments\<close>: the alignment every frame boundary has.\<close>

definition frame_alignment :: "nat \<Rightarrow> frame_module \<Rightarrow> layout_error + nat" where
  "frame_alignment FiberStackSize M =
     on_ok (include_values FiberStackSize 16 (concat (map (signature_values \<circ> mf_signature) (fm_functions M)))) (\<lambda>a.
       include_values FiberStackSize (fold max (concat (map (static_alignments \<circ> mf_items) (fm_functions M))) a)
         (concat (map call_values (fm_roots M @ concat (map mf_calls (fm_functions M))))))"

fun layout_calls :: "nat \<Rightarrow> nat \<Rightarrow> call_signature list \<Rightarrow> layout_error + managed_call_layout list" where
  "layout_calls FiberStackSize FrameAlignment [] = Inr []"
| "layout_calls FiberStackSize FrameAlignment (c # cs) =
     on_ok (LayoutCall FiberStackSize FrameAlignment (fst c) (snd c)) (\<lambda>layout.
       on_ok (layout_calls FiberStackSize FrameAlignment cs) (\<lambda>layouts. Inr (layout # layouts)))"

text \<open>Besides the areas: the frame alignment, the alignment the backing of the stack needs, the widest result
  of a root call, and the two boundaries.\<close>

record frame_plan =
  fp_alignment :: nat
  StackAlignment :: nat
  RootResultCapacity :: nat
  fp_signatures :: "managed_call_layout list"
  fp_calls :: "managed_call_layout list"
  fp_frames :: "(slot list \<times> nat) list"
  fp_roots :: "managed_call_layout list"
  ReserveFloor :: nat
  RootFp :: nat

fun layout_frames :: "nat \<Rightarrow> nat \<Rightarrow> managed_function list \<Rightarrow>
    layout_error + managed_call_layout list \<times> (slot list \<times> nat) list" where
  "layout_frames FiberStackSize FrameAlignment [] = Inr ([], [])"
| "layout_frames FiberStackSize FrameAlignment (f # fs) =
     on_ok (layout_calls FiberStackSize FrameAlignment (mf_calls f)) (\<lambda>calls.
       on_ok (frame_of FiberStackSize FrameAlignment (mf_items f)) (\<lambda>frame.
         on_ok (layout_frames FiberStackSize FrameAlignment fs) (\<lambda>(calls', frames).
           Inr (calls @ calls', frame # frames))))"

definition TransientReserveBytes :: "nat \<Rightarrow> nat" where
  "TransientReserveBytes fiberStackBytes = fiberStackBytes div 2"

definition max_of :: "nat list \<Rightarrow> nat" where "max_of xs = fold max xs 0"

text \<open>\<open>ComputeFrameLayout\<close>, after \<open>LayOutArguments\<close>.\<close>

definition ComputeFrameLayout :: "nat \<Rightarrow> frame_module \<Rightarrow> layout_error + frame_plan" where
  "ComputeFrameLayout FiberStackSize M =
     on_ok (frame_alignment FiberStackSize M) (\<lambda>FrameAlignment.
     on_ok (layout_calls FiberStackSize FrameAlignment (map mf_signature (fm_functions M))) (\<lambda>signatures.
     on_ok (check_items FiberStackSize (concat (map mf_items (fm_functions M)))) (\<lambda>_.
     on_ok (layout_frames FiberStackSize FrameAlignment (fm_functions M)) (\<lambda>(calls, frames).
     on_ok (layout_calls FiberStackSize FrameAlignment (fm_roots M)) (\<lambda>roots.
       let maxOutgoing = max_of (map Size calls); maxRootOutgoing = max_of (map Size roots);
           largestFrame = max_of (map snd frames)
       in if maxRootOutgoing = 0 then Inl NoRootCall
          else on_ok (ReserveFrameBytes FiberStackSize (TransientReserveBytes FiberStackSize) maxOutgoing 1) (\<lambda>(_, floor).
               on_ok (ReserveFrameBytes FiberStackSize floor 0 FrameAlignment) (\<lambda>(_, floor).
                 if maxRootOutgoing \<ge> FiberStackSize then Inl ExceedsStack
                 else let rootFp = FiberStackSize - maxRootOutgoing
                      in if floor \<ge> rootFp \<or> largestFrame > rootFp - floor then Inl ExceedsStack
                         else Inr \<lparr>fp_alignment = FrameAlignment,
                                StackAlignment = fold max (concat (map (alloca_alignments \<circ> mf_items) (fm_functions M))) FrameAlignment,
                                RootResultCapacity = max_of (List.map_filter (map_option ty_bytes \<circ> fst) (fm_roots M)),
                                fp_signatures = signatures, fp_calls = calls,
                                fp_frames = frames, fp_roots = roots, ReserveFloor = floor, RootFp = rootFp\<rparr>)))))))"

section \<open>Reserving\<close>

lemma align_to_unique:
  assumes "a dvd c + p" and "p < a"
  shows "c + p = align_to c a"
proof -
  have pos: "0 < a" using assms(2) by simp
  have le: "align_to c a \<le> c + p" using align_to_least [OF pos _ assms(1), of c] by simp
  have "\<not> align_to c a < c + p"
  proof
    assume less: "align_to c a < c + p"
    have "a dvd (c + p) - align_to c a" using assms(1) by (rule dvd_diff_nat) simp
    then have "a \<le> (c + p) - align_to c a" using less by (intro dvd_imp_le) simp_all
    then show False using align_to_ge [OF pos, of c] assms(2) by linarith
  qed
  with le show ?thesis by simp
qed

lemma reserve_padding:
  assumes "isPowerOf2_64 a" and "c < 2 ^ 64"
  shows "c + unat ((- of_nat c) AND (of_nat a - 1 :: u64)) = align_to c a"
proof -
  obtain k where k: "k < 64" "a = 2 ^ k" using assms(1) by (auto simp: isPowerOf2_64_def)
  let ?n = "unat (- of_nat c :: u64)"
  have "(of_nat a - 1 :: u64) = mask k" by (simp add: k(2) mask_eq_exp_minus_1)
  then have p: "unat ((- of_nat c) AND (of_nat a - 1 :: u64)) = ?n mod a"
    by (simp add: unat_mask_mod k(2))
  have "(- of_nat c :: u64) + of_nat c = 0" by simp
  then have z: "unat ((- of_nat c :: u64) + of_nat c) = 0" by (simp only: unat_0)
  have un: "unat (of_nat c :: u64) = c" using assms(2) by (simp add: unat_of_nat take_bit_nat_eq_self)
  have "unat ((- of_nat c :: u64) + of_nat c) = (?n + c) mod 2 ^ 64"
    unfolding unat_word_ariths un by simp
  then have "(?n + c) mod 2 ^ 64 = 0" using z by simp
  then have "2 ^ 64 dvd ?n + c" by (simp add: dvd_eq_mod_eq_0)
  moreover have "a dvd 2 ^ 64" unfolding k(2) using k(1) by (intro le_imp_power_dvd) simp
  ultimately have "a dvd ?n + c" by (rule dvd_trans [rotated])
  then have "a dvd c + ?n mod a" by (simp add: dvd_eq_mod_eq_0 mod_simps add.commute)
  moreover have "?n mod a < a" using k(2) by simp
  ultimately show ?thesis unfolding p by (rule align_to_unique)
qed

text \<open>Within any stack a module can have, a reservation is the next aligned offset, and succeeds exactly
  when it fits.\<close>

lemma reserve_iff:
  assumes "F < 2 ^ 63"
  shows "ReserveFrameBytes F cursor bytes alignment = Inr (offset, next) \<longleftrightarrow>
    isPowerOf2_64 alignment \<and> alignment \<le> F \<and> offset = align_to cursor alignment \<and> next = offset + bytes \<and> next \<le> F"
proof (cases "isPowerOf2_64 alignment \<and> cursor \<le> F \<and> bytes \<le> F \<and> alignment \<le> F")
  case True
  then have "cursor < 2 ^ 64" "0 < alignment" using assms by (auto simp: isPowerOf2_64_def)
  note pad = reserve_padding [OF conjunct1 [OF True] this(1)] align_to_ge [OF this(2), of cursor]
  then show ?thesis using True \<open>0 < alignment\<close> by (auto simp: ReserveFrameBytes_def Let_def)
next
  case False
  moreover have "cursor \<le> align_to cursor alignment" if "isPowerOf2_64 alignment"
    using that by (intro align_to_ge) (auto simp: isPowerOf2_64_def)
  moreover have "isPowerOf2_64 alignment \<Longrightarrow> 0 < alignment" by (auto simp: isPowerOf2_64_def)
  ultimately show ?thesis by (auto simp: ReserveFrameBytes_def)
qed

text \<open>Slots placed one after another between two cursors, each at the next aligned offset.\<close>

fun placed :: "nat \<Rightarrow> slot list \<Rightarrow> nat \<Rightarrow> bool" where
  "placed cursor [] end = (cursor = end)"
| "placed cursor ((offset, bytes, alignment) # slots) end =
     (isPowerOf2_64 alignment \<and> offset = align_to cursor alignment \<and> placed (offset + bytes) slots end)"

text \<open>The size and the alignment of a value's slot.\<close>

definition value_alignment :: "managed_call_value \<Rightarrow> nat" where
  "value_alignment v = max 8 (max (ty_alignment (storage_type v)) (ByValAlignment v))"

definition value_extent :: "managed_call_value \<Rightarrow> nat \<times> nat" where
  "value_extent v = (align_to (ty_bytes (storage_type v)) 8, value_alignment v)"

lemma reserve_value_placed:
  assumes "F < 2 ^ 63" and "ReserveCallValue F cursor v = Inr (slot, cursor')"
  shows "placed cursor [slot] cursor'" and "snd slot = value_extent v" and "cursor' \<le> F"
  using assms
  by (auto simp: ReserveCallValue_def FixedTypeLayout_def reserve_iff value_extent_def value_alignment_def Let_def
      split: if_splits)

lemma placed_append: "placed a (xs @ ys) c \<longleftrightarrow> (\<exists>b. placed a xs b \<and> placed b ys c)"
  by (induction xs arbitrary: a) auto

lemma reserve_values_placed:
  "F < 2 ^ 63 \<Longrightarrow> cursor \<le> F \<Longrightarrow> reserve_values F cursor vs = Inr (slots, end) \<Longrightarrow>
     placed cursor slots end \<and> end \<le> F \<and> map snd slots = map value_extent vs"
proof (induction vs arbitrary: cursor slots)
  case (Cons v vs)
  then obtain slot cursor' rest where r: "ReserveCallValue F cursor v = Inr (slot, cursor')"
      "reserve_values F cursor' vs = Inr (rest, end)" "slots = slot # rest" by auto
  note s = reserve_value_placed [OF Cons.prems(1) r(1)]
  note ih = Cons.IH [OF Cons.prems(1) s(3) r(2)]
  have "placed cursor ([slot] @ rest) end" unfolding placed_append using s(1) ih by blast
  then show ?case using ih s(2) by (simp add: r(3))
qed auto

lemma reserve_items_placed:
  "F < 2 ^ 63 \<Longrightarrow> cursor \<le> F \<Longrightarrow> reserve_items F cursor is = Inr (slots, end) \<Longrightarrow> placed cursor slots end \<and> end \<le> F"
proof (induction "is" arbitrary: cursor slots)
  case (Cons i "is")
  then show ?case
    by (auto simp: reserve_item_def reserve_iff Let_def split: if_splits frame_item.splits)
qed auto

text \<open>Placed slots are aligned, lie between the cursors, and none overlaps a later one.\<close>

definition slots_sound :: "nat \<Rightarrow> slot list \<Rightarrow> nat \<Rightarrow> bool" where
  "slots_sound start slots end \<longleftrightarrow>
     (\<forall>(offset, bytes, alignment) \<in> set slots. alignment dvd offset \<and> start \<le> offset \<and> offset + bytes \<le> end) \<and>
     sorted_wrt (\<lambda>(offset, bytes, _) (offset', _, _). offset + bytes \<le> offset') slots"

lemma placed_sound: "placed cursor slots end \<Longrightarrow> start \<le> cursor \<Longrightarrow> slots_sound start slots end \<and> cursor \<le> end"
proof (induction cursor slots "end" arbitrary: start rule: placed.induct)
  case (1 cursor "end")
  then show ?case by (simp add: slots_sound_def)
next
  case (2 cursor offset bytes alignment slots "end")
  then have a: "0 < alignment" "offset = align_to cursor alignment" by (auto simp: isPowerOf2_64_def)
  then have "cursor \<le> offset" using align_to_ge by simp
  moreover have "slots_sound (offset + bytes) slots end \<and> offset + bytes \<le> end" using "2.IH" [of "offset + bytes"] "2.prems"(1) a(2) by simp
  ultimately show ?case using "2.prems"(2) a(2) by (auto simp: slots_sound_def)
qed

section \<open>Alignment of the frame\<close>

text \<open>A slot's alignment divides any larger frame alignment.\<close>

lemma power_le_dvd: "isPowerOf2_64 a \<Longrightarrow> isPowerOf2_64 b \<Longrightarrow> a \<le> b \<Longrightarrow> a dvd b"
  by (auto simp: isPowerOf2_64_def le_imp_power_dvd)

lemma include_values_ge:
  "include_values F A vs = Inr A' \<Longrightarrow> A \<le> A' \<and> (\<forall>v \<in> set vs. value_alignment v \<le> A')"
proof (induction vs arbitrary: A)
  case (Cons v vs)
  then show ?case
    by (fastforce simp: IncludeCallValue_def FixedTypeLayout_def value_alignment_def split: if_splits)
qed auto

lemma call_values_set [simp]: "set (call_values c) = set (signature_values c)"
  by (auto simp: call_values_def signature_values_def)

lemma fold_max_ge: "A \<le> fold max xs A \<and> (\<forall>x \<in> set xs. x \<le> fold max xs (A :: nat))"
proof (induction xs arbitrary: A)
  case (Cons x xs)
  from Cons.IH [of "max x A"] show ?case by auto
qed simp

lemma frame_alignment_ge:
  assumes "frame_alignment F M = Inr A"
  shows "16 \<le> A"
    and "f \<in> set (fm_functions M) \<Longrightarrow> v \<in> set (signature_values (mf_signature f)) \<Longrightarrow> value_alignment v \<le> A"
    and "f \<in> set (fm_functions M) \<Longrightarrow> a \<in> set (static_alignments (mf_items f)) \<Longrightarrow> a \<le> A"
    and "f \<in> set (fm_functions M) \<Longrightarrow> c \<in> set (mf_calls f) \<Longrightarrow> v \<in> set (call_values c) \<Longrightarrow> value_alignment v \<le> A"
    and "c \<in> set (fm_roots M) \<Longrightarrow> v \<in> set (call_values c) \<Longrightarrow> value_alignment v \<le> A"
proof -
  from assms obtain B where
    B: "include_values F 16 (concat (map (signature_values \<circ> mf_signature) (fm_functions M))) = Inr B"
    and A: "include_values F (fold max (concat (map (static_alignments \<circ> mf_items) (fm_functions M))) B)
         (concat (map call_values (fm_roots M @ concat (map mf_calls (fm_functions M))))) = Inr A"
    by (auto simp: frame_alignment_def)
  note ge = include_values_ge [OF B] include_values_ge [OF A]
    fold_max_ge [of B "concat (map (static_alignments \<circ> mf_items) (fm_functions M))"]
  show "16 \<le> A" using ge by linarith
  show "value_alignment v \<le> A" if "f \<in> set (fm_functions M)" "v \<in> set (signature_values (mf_signature f))"
  proof -
    have "value_alignment v \<le> B" using ge(1) that by auto
    then show ?thesis using ge by linarith
  qed
  show "a \<le> A" if "f \<in> set (fm_functions M)" "a \<in> set (static_alignments (mf_items f))"
  proof -
    have "a \<le> fold max (concat (map (static_alignments \<circ> mf_items) (fm_functions M))) B"
      using ge(3) that by auto
    then show ?thesis using ge by linarith
  qed
  show "value_alignment v \<le> A" if "f \<in> set (fm_functions M)" "c \<in> set (mf_calls f)" "v \<in> set (call_values c)"
    using ge(2) that by auto
  show "value_alignment v \<le> A" if "c \<in> set (fm_roots M)" "v \<in> set (call_values c)"
    using ge(2) that by auto
qed

section \<open>Outgoing areas and frames are sound\<close>

text \<open>An area laid out for a frame alignment: its slots lie after the bytes reserved at its start, its size is a
  multiple of the frame alignment, and each slot's alignment divides it.\<close>

definition area_sound :: "nat \<Rightarrow> nat \<Rightarrow> slot list \<Rightarrow> nat \<Rightarrow> bool" where
  "area_sound A start slots bytes \<longleftrightarrow>
     slots_sound start slots bytes \<and> A dvd bytes \<and> (\<forall>(_, _, alignment) \<in> set slots. alignment dvd A)"

definition call_slots :: "managed_call_layout \<Rightarrow> slot list" where
  "call_slots l = (case ResultSlot l of None \<Rightarrow> [] | Some slot \<Rightarrow> [slot]) @ ArgSlots l"

lemma placed_powers: "placed start slots end \<Longrightarrow> \<forall>(_, _, alignment) \<in> set slots. isPowerOf2_64 alignment"
  by (induction start slots "end" rule: placed.induct) auto

lemma placed_area:
  assumes "placed start slots end" and "F < 2 ^ 63" and "ReserveFrameBytes F end 0 A = Inr (offset, bytes)"
    and "\<forall>(_, _, alignment) \<in> set slots. alignment \<le> A"
  shows "area_sound A start slots bytes" and "end \<le> bytes"
proof -
  have A: "isPowerOf2_64 A" "bytes = align_to end A" using assms(2,3) by (simp_all add: reserve_iff)
  then show le: "end \<le> bytes" by (auto simp: isPowerOf2_64_def intro: align_to_ge)
  note pow = placed_powers [OF assms(1)]
  have "slots_sound start slots end" using placed_sound [OF assms(1)] by simp
  then have "slots_sound start slots bytes" using le by (fastforce simp: slots_sound_def)
  then show "area_sound A start slots bytes"
    using A pow assms(4) by (fastforce simp: area_sound_def intro: power_le_dvd)
qed

lemma LayoutCall_placed:
  assumes "F < 2 ^ 63" and "16 \<le> F" and "LayoutCall F A result arguments = Inr l"
  shows "placed LinkageBytes (call_slots l) (ArgsEnd l) \<and>
    ReserveFrameBytes F (ArgsEnd l) 0 A = Inr (Size l, Size l) \<and>
    map snd (call_slots l) = map value_extent (map value_of_type (case result of None \<Rightarrow> [] | Some t \<Rightarrow> [t]) @ arguments) \<and>
    map snd (ArgSlots l) = map value_extent arguments"
proof (cases result)
  case None
  then obtain slots argsEnd offset cursor where r: "reserve_values F LinkageBytes arguments = Inr (slots, argsEnd)"
      "ReserveFrameBytes F argsEnd 0 A = Inr (offset, cursor)"
      "l = \<lparr>ResultSlot = None, ArgSlots = slots, ArgsEnd = argsEnd, Size = cursor\<rparr>"
    using assms(3) by (auto simp: LayoutCall_def)
  have "offset = cursor" using r(2) assms(1) by (simp add: reserve_iff)
  then show ?thesis using reserve_values_placed [OF assms(1) _ r(1)] assms(2) r None
    by (simp add: call_slots_def LinkageBytes_def)
next
  case (Some type)
  then obtain slot cursor' slots argsEnd offset cursor where
      v: "ReserveCallValue F LinkageBytes (value_of_type type) = Inr (slot, cursor')"
      and r: "reserve_values F cursor' arguments = Inr (slots, argsEnd)"
      "ReserveFrameBytes F argsEnd 0 A = Inr (offset, cursor)"
      "l = \<lparr>ResultSlot = Some slot, ArgSlots = slots, ArgsEnd = argsEnd, Size = cursor\<rparr>"
    using assms(3) by (auto simp: LayoutCall_def)
  have "offset = cursor" using r(2) assms(1) by (simp add: reserve_iff)
  moreover note s = reserve_value_placed [OF assms(1) v]
  moreover have "placed LinkageBytes ([slot] @ slots) argsEnd"
    unfolding placed_append using s(1) reserve_values_placed [OF assms(1) s(3) r(1)] by blast
  ultimately show ?thesis using reserve_values_placed [OF assms(1) s(3) r(1)] r Some
    by (simp add: call_slots_def)
qed

lemma LayoutCall_sound:
  assumes "F < 2 ^ 63" and "16 \<le> F" and "LayoutCall F A (fst c) (snd c) = Inr l"
    and "\<forall>v \<in> set (signature_values c). value_alignment v \<le> A"
  shows "area_sound A LinkageBytes (call_slots l) (Size l)" and "ArgsEnd l \<le> Size l"
proof -
  note p = LayoutCall_placed [OF assms(1-3)]
  have "set (map snd (call_slots l)) = value_extent ` set (signature_values c)"
    using p by (auto simp: signature_values_def split: option.splits simp del: map_map)
  then have "\<forall>e \<in> set (map snd (call_slots l)). snd e \<le> A" using assms(4) by (simp add: value_extent_def)
  then have "\<forall>(_, _, alignment) \<in> set (call_slots l). alignment \<le> A" by fastforce
  then show "area_sound A LinkageBytes (call_slots l) (Size l)" "ArgsEnd l \<le> Size l"
    using placed_area p assms(1) by blast+
qed

lemma layout_calls_member:
  "layout_calls F A cs = Inr ls \<Longrightarrow> l \<in> set ls \<Longrightarrow> \<exists>c \<in> set cs. LayoutCall F A (fst c) (snd c) = Inr l"
  by (induction cs arbitrary: ls) auto

lemma item_alignments:
  "F < 2 ^ 63 \<Longrightarrow> reserve_items F cursor is = Inr (slots, end) \<Longrightarrow> (offset, bytes, a) \<in> set slots \<Longrightarrow>
     a \<le> 8 \<or> a \<in> set (static_alignments is)"
proof (induction "is" arbitrary: cursor slots)
  case (Cons i "is")
  then show ?case
    by (fastforce simp: static_alignments_def map_filter_simps reserve_item_def Let_def
        split: if_splits frame_item.splits)
qed auto

lemma frame_of_sound:
  assumes "F < 2 ^ 63" and "frame_of F A items = Inr (slots, bytes)" and "16 \<le> A"
    and "\<forall>a \<in> set (static_alignments items). a \<le> A"
  shows "area_sound A 0 slots bytes"
proof -
  obtain c offset where r: "reserve_items F 0 items = Inr (slots, c)" "ReserveFrameBytes F c 0 A = Inr (offset, bytes)"
    using assms(2) by (auto simp: frame_of_def)
  have "\<forall>(_, _, a) \<in> set slots. a \<le> A" using item_alignments [OF assms(1) r(1)] assms(3,4) by force
  then show ?thesis using reserve_items_placed [OF assms(1) _ r(1)] placed_area(1) [OF _ assms(1) r(2)] by simp
qed

lemma layout_frames_members:
  "layout_frames F A fs = Inr (calls, frames) \<Longrightarrow>
     (\<forall>l \<in> set calls. \<exists>f \<in> set fs. \<exists>c \<in> set (mf_calls f). LayoutCall F A (fst c) (snd c) = Inr l) \<and>
     (\<forall>p \<in> set frames. \<exists>f \<in> set fs. frame_of F A (mf_items f) = Inr p)"
proof (induction fs arbitrary: calls frames)
  case (Cons f fs)
  then show ?case using layout_calls_member [of F A "mf_calls f"] by fastforce
qed simp

lemma max_of_ge: "x \<in> set xs \<Longrightarrow> x \<le> max_of xs"
  using fold_max_ge [of 0 xs] by (simp add: max_of_def)

lemma max_of_dvd: "\<forall>x \<in> set xs. A dvd x \<Longrightarrow> A dvd max_of xs"
proof -
  have "\<forall>x \<in> set xs. A dvd x \<Longrightarrow> A dvd (m :: nat) \<Longrightarrow> A dvd fold max xs m" for m
    by (induction xs arbitrary: m) (auto simp: max_def)
  then show "\<forall>x \<in> set xs. A dvd x \<Longrightarrow> A dvd max_of xs" by (simp add: max_of_def)
qed

section \<open>The plan of a module\<close>

lemma ComputeFrameLayout_cases:
  assumes "ComputeFrameLayout F M = Inr P" and "F < 2 ^ 63"
  shows "frame_alignment F M = Inr (fp_alignment P)"
    and "layout_calls F (fp_alignment P) (map mf_signature (fm_functions M)) = Inr (fp_signatures P)"
    and "layout_frames F (fp_alignment P) (fm_functions M) = Inr (fp_calls P, fp_frames P)"
    and "layout_calls F (fp_alignment P) (fm_roots M) = Inr (fp_roots P)"
    and "isPowerOf2_64 (fp_alignment P)" and "fp_alignment P \<le> F"
    and "ReserveFloor P = align_to (F div 2 + max_of (map Size (fp_calls P))) (fp_alignment P)"
    and "RootFp P + max_of (map Size (fp_roots P)) = F" and "max_of (map Size (fp_roots P)) \<noteq> 0"
    and "ReserveFloor P < RootFp P" and "max_of (map snd (fp_frames P)) \<le> RootFp P - ReserveFloor P"
  using assms
  by (auto simp: ComputeFrameLayout_def TransientReserveBytes_def reserve_iff Let_def align_to_def split: if_splits)

lemma plan_areas_sound:
  assumes "ComputeFrameLayout F M = Inr P" and "F < 2 ^ 63"
  shows "l \<in> set (fp_signatures P @ fp_calls P @ fp_roots P) \<Longrightarrow>
      area_sound (fp_alignment P) LinkageBytes (call_slots l) (Size l)"
    and "frame \<in> set (fp_frames P) \<Longrightarrow> area_sound (fp_alignment P) 0 (fst frame) (snd frame)"
proof -
  note P = ComputeFrameLayout_cases [OF assms]
  note ge = frame_alignment_ge [OF P(1)]
  have F: "16 \<le> F" using ge(1) P(6) by linarith
  show "area_sound (fp_alignment P) LinkageBytes (call_slots l) (Size l)"
    if "l \<in> set (fp_signatures P @ fp_calls P @ fp_roots P)"
  proof -
    from that obtain c where c: "LayoutCall F (fp_alignment P) (fst c) (snd c) = Inr l"
      and "c \<in> mf_signature ` set (fm_functions M) \<or> (\<exists>f \<in> set (fm_functions M). c \<in> set (mf_calls f)) \<or> c \<in> set (fm_roots M)"
      using layout_calls_member [OF P(2)] layout_calls_member [OF P(4)] layout_frames_members [OF P(3)]
      by fastforce
    then have "\<forall>v \<in> set (signature_values c). value_alignment v \<le> fp_alignment P" using ge(2,4,5) by fastforce
    then show ?thesis using LayoutCall_sound(1) [OF assms(2) F c] by blast
  qed
  show "area_sound (fp_alignment P) 0 (fst frame) (snd frame)" if "frame \<in> set (fp_frames P)"
    using layout_frames_members [OF P(3)] that ge(1,3) frame_of_sound [OF assms(2), of "fp_alignment P"]
    by (metis prod.collapse)
qed

lemma plan_boundaries:
  assumes "ComputeFrameLayout F M = Inr P" and "isPowerOf2_64 F" and "F < 2 ^ 63"
  shows "fp_alignment P dvd ReserveFloor P" and "fp_alignment P dvd RootFp P"
    and "l \<in> set (fp_calls P) \<Longrightarrow> TransientReserveBytes F + Size l \<le> ReserveFloor P"
    and "l \<in> set (fp_roots P) \<Longrightarrow> RootFp P + Size l \<le> F"
    and "frame \<in> set (fp_frames P) \<Longrightarrow> ReserveFloor P + snd frame \<le> RootFp P"
proof -
  note P = ComputeFrameLayout_cases [OF assms(1,3)]
  show "fp_alignment P dvd ReserveFloor P" by (simp add: P(7))
  have "fp_alignment P dvd max_of (map Size (fp_roots P))"
    using plan_areas_sound(1) [OF assms(1,3)] by (intro max_of_dvd) (auto simp: area_sound_def)
  moreover have "fp_alignment P dvd F" using P(5,6) assms(2) by (rule_tac power_le_dvd)
  ultimately show "fp_alignment P dvd RootFp P" using P(8) by (metis dvd_add_left_iff)
  have "0 < fp_alignment P" using P(5) by (auto simp: isPowerOf2_64_def)
  then show "TransientReserveBytes F + Size l \<le> ReserveFloor P" if "l \<in> set (fp_calls P)"
    using max_of_ge [of "Size l" "map Size (fp_calls P)"] that
      align_to_ge [of "fp_alignment P" "F div 2 + max_of (map Size (fp_calls P))"]
    by (auto simp: P(7) TransientReserveBytes_def)
  show "RootFp P + Size l \<le> F" if "l \<in> set (fp_roots P)"
    using max_of_ge [of "Size l" "map Size (fp_roots P)"] that P(8) by simp
  show "ReserveFloor P + snd frame \<le> RootFp P" if "frame \<in> set (fp_frames P)"
    using max_of_ge [of "snd frame" "map snd (fp_frames P)"] that P(10,11) by simp
qed


text \<open>A function with a four-byte object that calls itself with one argument, entered by a call without
  arguments or result, on a stack of 128 bytes.\<close>

definition word_type :: ir_layout where
  "word_type = \<lparr>ty_sized = True, ty_scalable = False, ty_bytes = 4, ty_alignment = 4\<rparr>"

definition small_module :: frame_module where
  "small_module = \<lparr>fm_functions = [\<lparr>mf_signature = (None, [value_of_type word_type]), mf_items = [StaticAlloca word_type 1 4],
      mf_calls = [(None, [value_of_type word_type])]\<rparr>], fm_roots = [(None, [])]\<rparr>"

definition small_plan :: frame_plan where
  "small_plan =
     (let call = \<lparr>ResultSlot = None, ArgSlots = [(16, 8, 8)], ArgsEnd = 24, Size = 32\<rparr>
      in \<lparr>fp_alignment = 16, StackAlignment = 16, RootResultCapacity = 0, fp_signatures = [call], fp_calls = [call], fp_frames = [([(0, 4, 4)], 16)],
          fp_roots = [\<lparr>ResultSlot = None, ArgSlots = [], ArgsEnd = 16, Size = 16\<rparr>], ReserveFloor = 96, RootFp = 112\<rparr>)"

lemma small_powers [simp]: "isPowerOf2_64 1" "isPowerOf2_64 (Suc 0)" "isPowerOf2_64 4" "isPowerOf2_64 8" "isPowerOf2_64 16" "isPowerOf2_64 128"
  unfolding isPowerOf2_64_def
  by (rule exI [of _ 0], simp, rule exI [of _ 0], simp, rule exI [of _ 2], simp, rule exI [of _ 3], simp,
      rule exI [of _ 4], simp, rule exI [of _ 7], simp)

lemma reserve_fits:
  "F < 2 ^ 63 \<Longrightarrow> isPowerOf2_64 a \<Longrightarrow> a \<le> F \<Longrightarrow> align_to c a + b \<le> F \<Longrightarrow>
     ReserveFrameBytes F c b a = Inr (align_to c a, align_to c a + b)"
  by (simp add: reserve_iff)

lemmas small_layout_defs = word_type_def value_of_type_def storage_type_def FixedTypeLayout_def LayoutCall_def
  ReserveCallValue_def LinkageBytes_def reserve_fits align_to_def Let_def

lemma small_module_plan: "ComputeFrameLayout 128 small_module = Inr small_plan"
  by (simp add: small_layout_defs ComputeFrameLayout_def small_module_def small_plan_def frame_alignment_def
      signature_values_def call_values_def IncludeCallValue_def static_alignments_def alloca_alignments_def map_filter_simps
      check_item_def frame_of_def reserve_item_def TransientReserveBytes_def max_of_def)


section \<open>Variadic arguments\<close>

text \<open>The cursor of an argument list: \<open>va_start\<close> points it past the callee's fixed arguments, and reading a
  value of a bytes and an alignment aligns it, yields it and moves it past the value.\<close>

definition va_start :: "u64 \<Rightarrow> managed_call_layout \<Rightarrow> u64" where
  "va_start fp callee = fp + of_nat (ArgsEnd callee)"

definition advanceCursor :: "u64 \<Rightarrow> nat \<Rightarrow> nat \<Rightarrow> u64 \<times> u64" where
  "advanceCursor cursor bytes alignment =
     (let alignment = max 8 alignment;
          address = (cursor + of_nat (alignment - 1)) AND NOT (of_nat (alignment - 1))
      in (address, address + of_nat (align_to bytes 8)))"

fun va_args :: "u64 \<Rightarrow> (nat \<times> nat) list \<Rightarrow> u64 list" where
  "va_args cursor [] = []"
| "va_args cursor ((bytes, alignment) # rest) =
     (let (address, cursor) = advanceCursor cursor bytes alignment in address # va_args cursor rest)"

lemma reserve_values_append:
  "reserve_values F c (vs @ ws) = Inr (slots, end) \<longleftrightarrow>
     (\<exists>m first rest. reserve_values F c vs = Inr (first, m) \<and> reserve_values F m ws = Inr (rest, end) \<and> slots = first @ rest)"
proof (induction vs arbitrary: c slots)
  case (Cons v vs)
  then show ?case by (simp, fastforce)
qed auto

lemma align_to_add: "0 < a \<Longrightarrow> a dvd b \<Longrightarrow> align_to (b + c) a = b + align_to c a"
proof -
  assume a: "0 < a" "a dvd b"
  then obtain k where k: "b = a * k" by (auto elim: dvdE)
  have e: "b + c + a - 1 = (c + a - 1) + a * k" using a(1) k by simp
  have "((c + a - 1) + a * k) div a = k + (c + a - 1) div a" using a(1) by (simp only: div_mult_self2 neq0_conv)
  then show ?thesis unfolding align_to_def e by (simp add: k algebra_simps)
qed

lemma advanceCursor_aligned:
  assumes "isPowerOf2_64 (max 8 a)" and "max 8 a dvd unat fp" and "unat fp + (align_to c (max 8 a) + max 8 a) < 2 ^ 64"
  shows "advanceCursor (fp + of_nat c) bytes a =
    (fp + of_nat (align_to c (max 8 a)), fp + of_nat (align_to c (max 8 a)) + of_nat (align_to bytes 8))"
proof -
  obtain k where k: "k < 64" "max 8 a = 2 ^ k" using assms(1) by (auto simp: isPowerOf2_64_def)
  have pos: "0 < max 8 a" by simp
  have "c \<le> align_to c (max 8 a)" using pos by (rule align_to_ge)
  then have c: "unat (fp + of_nat c) = unat fp + c"
    using assms(3) by (simp add: unat_plus_if' unat_of_nat take_bit_nat_eq_self)
  have a: "(of_nat (max 8 a) :: u64) = 2 ^ k" by (simp add: k(2))
  have "unat ((fp + of_nat c + of_nat (max 8 a) - 1) AND NOT (of_nat (max 8 a) - 1)) = align_to (unat fp + c) (2 ^ k)"
    using unat_align_up [OF a] k assms(3) c \<open>c \<le> _\<close> by simp
  also have "\<dots> = unat fp + align_to c (max 8 a)" using align_to_add [OF pos assms(2)] k(2) by simp
  also have "\<dots> = unat (fp + of_nat (align_to c (max 8 a)))"
    using assms(3) by (simp add: unat_plus_if' unat_of_nat take_bit_nat_eq_self)
  finally have "(fp + of_nat c + of_nat (max 8 a) - 1) AND NOT (of_nat (max 8 a) - 1) = fp + of_nat (align_to c (max 8 a))"
    by (simp only: word_unat_eq_iff)
  moreover have "(of_nat (max 8 a - 1) :: u64) = of_nat (max 8 a) - 1" by (simp add: of_nat_diff)
  ultimately show ?thesis by (simp add: advanceCursor_def Let_def add_diff_eq)
qed

lemma va_args_placed:
  assumes "A dvd unat fp" and "A \<le> F" and "unat fp + 2 * F < 2 ^ 64"
  shows "placed c slots end \<Longrightarrow> end \<le> F \<Longrightarrow> \<forall>(_, _, alignment) \<in> set slots. alignment dvd A \<and> alignment \<le> A \<Longrightarrow>
     map snd slots = map (\<lambda>(bytes, alignment). (align_to bytes 8, max 8 alignment)) readers \<Longrightarrow>
     va_args (fp + of_nat c) readers = map (\<lambda>(offset, _). fp + of_nat offset) slots"
proof (induction slots arbitrary: c readers)
  case (Cons slot slots)
  obtain offset n a where s: "slot = (offset, n, a)" by (cases slot) auto
  from Cons.prems(4) obtain bytes alignment rest where r: "readers = (bytes, alignment) # rest"
      "n = align_to bytes 8" "a = max 8 alignment"
      "map snd slots = map (\<lambda>(bytes, alignment). (align_to bytes 8, max 8 alignment)) rest"
    by (auto simp: s)
  have p: "isPowerOf2_64 a" "offset = align_to c a" "placed (offset + n) slots end" using Cons.prems(1) by (auto simp: s)
  have a: "a dvd unat fp" "a \<le> F" using Cons.prems(3) assms(1,2) by (auto simp: s)
  have "offset + n \<le> end" using placed_sound [OF p(3)] by blast
  then have "unat fp + (align_to c (max 8 alignment) + max 8 alignment) < 2 ^ 64"
    unfolding r(3) [symmetric] p(2) [symmetric] using Cons.prems(2) assms(3) a(2) by linarith
  note step = advanceCursor_aligned [OF p(1) [unfolded r(3)] a(1) [unfolded r(3)] this, of bytes]
  have "va_args (fp + of_nat (offset + n)) rest = map (\<lambda>(offset, _). fp + of_nat offset) slots"
    using Cons.IH [OF p(3) Cons.prems(2) _ r(4)] Cons.prems(3) by simp
  then show ?case using step p(2) r(1-3) by (simp add: s add.assoc)
qed simp

text \<open>What a reader of each argument asks for: the type's size and the alignment it is passed with.\<close>

definition va_reader :: "managed_call_value \<Rightarrow> nat \<times> nat" where
  "va_reader v = (ty_bytes (storage_type v), max (ty_alignment (storage_type v)) (ByValAlignment v))"

text \<open>C40: caller and callee agree on a variadic call. The area the call site laid out for all its arguments
  extends the one the callee laid out for its fixed ones, result slot included, and the callee's cursor,
  started at its fixed end, yields one after another exactly the addresses at which the caller stored the rest.\<close>

theorem variadic_call_agrees:
  assumes "F < 2 ^ 63" and "16 \<le> F"
    and "LayoutCall F A result (fixed @ rest) = Inr site" and "LayoutCall F A result fixed = Inr callee"
    and "\<forall>v \<in> set rest. value_alignment v \<le> A" and "A dvd unat fp" and "unat fp + 2 * F < 2 ^ 64"
  shows "\<exists>tail. ResultSlot site = ResultSlot callee \<and> ArgSlots site = ArgSlots callee @ tail \<and>
    va_args (va_start fp callee) (map va_reader rest) = map (\<lambda>(offset, _). fp + of_nat offset) tail"
proof -
  note site = LayoutCall_placed [OF assms(1,2,3)]
  from assms(3,4) obtain tail where
    tail: "ArgSlots site = ArgSlots callee @ tail" "ResultSlot site = ResultSlot callee"
      "reserve_values F (ArgsEnd callee) rest = Inr (tail, ArgsEnd site)"
    by (cases result) (auto simp: LayoutCall_def reserve_values_append)
  have A: "isPowerOf2_64 A" "A \<le> F" "ArgsEnd site \<le> F" using site assms(1) by (auto simp: reserve_iff)
    (metis align_to_ge isPowerOf2_64_def le_trans zero_less_numeral zero_less_power)
  have "ArgsEnd callee \<le> F" using LayoutCall_placed [OF assms(1,2,4)] assms(1) by (auto simp: reserve_iff)
    (metis align_to_ge isPowerOf2_64_def le_trans zero_less_numeral zero_less_power)
  note p = reserve_values_placed [OF assms(1) this tail(3)]
  have pow: "\<forall>(_, _, a) \<in> set tail. isPowerOf2_64 a" using p placed_powers by blast
  have "\<forall>e \<in> set (map snd tail). snd e \<le> A" using p assms(5) by (simp add: value_extent_def)
  then have "\<forall>(_, _, a) \<in> set tail. a dvd A \<and> a \<le> A" using pow A(1) by (fastforce intro: power_le_dvd)
  then have "va_args (fp + of_nat (ArgsEnd callee)) (map va_reader rest) = map (\<lambda>(offset, _). fp + of_nat offset) tail"
    using p by (intro va_args_placed [OF assms(6) A(2) assms(7)])
      (auto simp: va_reader_def value_extent_def value_alignment_def A(3))
  with tail show ?thesis by (auto simp: va_start_def)
qed

theorem variadic_call_agrees_witness:
  "\<exists>site callee. LayoutCall 128 16 None ([value_of_type word_type] @ [value_of_type word_type]) = Inr site \<and>
     LayoutCall 128 16 None [value_of_type word_type] = Inr callee \<and>
     va_args (va_start 64 callee) (map va_reader [value_of_type word_type]) = [64 + of_nat (fst (ArgSlots site ! 1))]"
proof -
  let ?w = "value_of_type word_type"
  let ?site = "\<lparr>ResultSlot = None, ArgSlots = [(16, 8, 8), (24, 8, 8)], ArgsEnd = 32, Size = 32\<rparr>"
  let ?callee = "\<lparr>ResultSlot = None, ArgSlots = [(16, 8, 8)], ArgsEnd = 24, Size = 32\<rparr>"
  have site: "LayoutCall 128 16 None ([?w] @ [?w]) = Inr ?site"
    by (simp add: small_layout_defs)
  have callee: "LayoutCall 128 16 None [?w] = Inr ?callee"
    by (simp add: small_layout_defs)
  have "(16 :: nat) dvd unat (64 :: u64)" by simp
  then have "\<exists>tail. ResultSlot ?site = ResultSlot ?callee \<and> ArgSlots ?site = ArgSlots ?callee @ tail \<and>
    va_args (va_start 64 ?callee) (map va_reader [?w]) = map (\<lambda>(offset, _). 64 + of_nat offset) tail"
    by (intro variadic_call_agrees [OF _ _ site callee])
      (simp_all add: value_alignment_def storage_type_def value_of_type_def word_type_def)
  then have "va_args (va_start 64 ?callee) (map va_reader [?w]) = [64 + of_nat (fst (ArgSlots ?site ! 1))]" by auto
  with site callee show ?thesis by blast
qed

end
