(* ===== verification/Managed_Stack.thy ===== *)
theory Managed_Stack
  imports Frame_Layout Step_Dispatch Heap_Access
begin

text \<open>
  The software stack that \<open>stackify.cpp\<close> compiles managed code to: the frame anchor and the prologue, the two
  halves of a managed call, the return, run-time-sized objects and stack saves, yields, loop suspensions,
  \<open>setjmp\<close> and \<open>longjmp\<close>, frame addresses, the entry that fabricates the root frame and the copy of its
  result. Each definition is the code the pass emits, run on the fiber's control record and on memory.
  The emitted code is shown to implement a stack of frames.
\<close>

section \<open>State\<close>

text \<open>The constants the pass folds into the code, and the running fiber.\<close>

record stack_geometry =
  ArenaTier :: bool
  StackBank :: u64
  FiberCount :: u32
  FiberStackSize :: nat
  FrameAlignment :: nat
  Floor :: nat
  Root :: nat
  Fiber :: u32

record stack_state =
  ss_control :: fiber_control
  ss_memory :: bytes

definition load_bytes :: "bytes \<Rightarrow> nat \<Rightarrow> nat \<Rightarrow> u8 list" where
  "load_bytes m a n = map (\<lambda>i. m (a + i)) [0..<n]"

definition store_bytes :: "bytes \<Rightarrow> nat \<Rightarrow> u8 list \<Rightarrow> bytes" where
  "store_bytes m a bs = (\<lambda>x. if a \<le> x \<and> x < a + length bs then bs ! (x - a) else m x)"

definition set_memory :: "bytes \<Rightarrow> stack_state \<Rightarrow> stack_state" where
  "set_memory m s = s\<lparr>ss_memory := m\<rparr>"

definition set_control :: "fiber_control \<Rightarrow> stack_state \<Rightarrow> stack_state" where
  "set_control c s = s\<lparr>ss_control := c\<rparr>"

section \<open>Frame pointers\<close>

definition StackPtr :: "stack_geometry \<Rightarrow> u64 \<Rightarrow> u64" where
  "StackPtr G offset =
     (let normalizedFiber = NormalizeFiber (FiberCount G) (Fiber G);
          normalized = offset AND of_nat (FiberStackSize G - 1)
      in StackBank G + (ucast normalizedFiber * of_nat (FiberStackSize G) + normalized))"

definition FramePointer :: "stack_geometry \<Rightarrow> u64 \<Rightarrow> u64" where
  "FramePointer G address = (if ArenaTier G then address else StackPtr G address)"

definition SliceOffset :: "stack_geometry \<Rightarrow> u64 \<Rightarrow> u64" where
  "SliceOffset G address = address AND of_nat (FiberStackSize G - 1)"

definition LoadFrameAnchor :: "stack_geometry \<Rightarrow> stack_state \<Rightarrow> u64 \<times> u64" where
  "LoadFrameAnchor G s = (let fp = fc_fp (ss_control s) in (fp, FramePointer G fp))"

definition EmitAbort :: "i32 \<Rightarrow> stack_state \<Rightarrow> stack_state" where
  "EmitAbort code s = set_control (store_outcome (OutcomeValue code) (ss_control s)) s"

section \<open>Functions\<close>

text \<open>What the emitted code of a function depends on: the size of its frame, whether it carves or saves the
  stack, whether it calls \<open>setjmp\<close>, and the offset of its result.\<close>

record frame_info =
  FrameSize :: nat
  dynamicSp :: bool
  hasSetjmp :: bool
  ResultOffset :: nat

text \<open>The entry state of a function; no action means that control reaches the body.\<close>

definition prologue :: "stack_geometry \<Rightarrow> frame_info \<Rightarrow> stack_state \<Rightarrow> int option \<times> stack_state" where
  "prologue G info s =
     (let (fp, frame) = LoadFrameAnchor G s
      in if SliceOffset G fp < of_nat (FrameSize info + Floor G)
         then (Some ActionStop, EmitAbort CAPSULE_ERROR_STACK_OVERFLOW s)
         else (None, set_control ((ss_control s)\<lparr>fc_sp := fp - of_nat (FrameSize info)\<rparr>) s))"

text \<open>An actual argument: the bytes of a value, or a pointer to an object of so many bytes passed by value.\<close>

datatype argument = Direct "u8 list" | ByVal u64 nat

fun argument_bytes :: "bytes \<Rightarrow> argument \<Rightarrow> u8 list" where
  "argument_bytes m (Direct bs) = bs"
| "argument_bytes m (ByVal p n) = load_bytes m (unat p) n"

fun StoreCallArguments :: "u64 \<Rightarrow> argument list \<Rightarrow> slot list \<Rightarrow> bytes \<Rightarrow> bytes" where
  "StoreCallArguments out (a # as) ((offset, _) # slots) m =
     StoreCallArguments out as slots (store_bytes m (unat (out + of_nat offset)) (argument_bytes m a))"
| "StoreCallArguments out as slots m = m"

text \<open>The half of a managed call before the suspension: linkage, arguments, the callee's region and frame.\<close>

definition caller_sp :: "frame_info \<Rightarrow> stack_state \<Rightarrow> u64" where
  "caller_sp info s =
     (if dynamicSp info then fc_sp (ss_control s) else fc_fp (ss_control s) - of_nat (FrameSize info))"

definition SuspendAtCall ::
  "stack_geometry \<Rightarrow> frame_info \<Rightarrow> managed_call_layout \<Rightarrow> u32 \<Rightarrow> u32 \<Rightarrow> argument list \<Rightarrow> stack_state \<Rightarrow> int \<times> stack_state" where
  "SuspendAtCall G info layout resumeRegionId calleeRegionId arguments s =
     (let (fp, frame) = LoadFrameAnchor G s;
          calleeFp = caller_sp info s - of_nat (Size layout);
          out = (if dynamicSp info then FramePointer G calleeFp else frame - of_nat (FrameSize info + Size layout));
          m = store_le (ss_memory s) (unat (out + of_nat SavedFpOffset)) 8 fp;
          m = store_le m (unat (out + of_nat ReturnRegionIdOffset)) 4 (ucast resumeRegionId);
          m = StoreCallArguments out arguments (ArgSlots layout) m
      in (ActionContinue,
          set_control ((ss_control s)\<lparr>fc_resume_region_id := calleeRegionId, fc_fp := calleeFp\<rparr>) (set_memory m s)))"

text \<open>The half after it: the bytes of the result, and the caller's stack pointer.\<close>

definition returned_frame :: "stack_geometry \<Rightarrow> frame_info \<Rightarrow> managed_call_layout \<Rightarrow> stack_state \<Rightarrow> u64" where
  "returned_frame G info layout s =
     (if dynamicSp info then FramePointer G (fc_sp (ss_control s) - of_nat LinkageBytes)
      else snd (LoadFrameAnchor G s) - of_nat (FrameSize info + Size layout))"

definition call_result :: "stack_geometry \<Rightarrow> frame_info \<Rightarrow> managed_call_layout \<Rightarrow> nat \<Rightarrow> stack_state \<Rightarrow> u8 list" where
  "call_result G info layout bytes s =
     (case ResultSlot layout of
        None \<Rightarrow> []
      | Some (offset, _) \<Rightarrow> load_bytes (ss_memory s) (unat (returned_frame G info layout s + of_nat offset)) bytes)"

definition resume_call :: "stack_geometry \<Rightarrow> frame_info \<Rightarrow> managed_call_layout \<Rightarrow> stack_state \<Rightarrow> stack_state" where
  "resume_call G info layout s =
     (let control = ss_control s
      in if dynamicSp info
         then set_control (control\<lparr>fc_sp := fc_sp control - of_nat LinkageBytes + of_nat (Size layout)\<rparr>) s
         else if hasSetjmp info
         then set_control (control\<lparr>fc_sp := fc_fp control - of_nat (FrameSize info)\<rparr>) s
         else s)"

definition LowerReturn :: "stack_geometry \<Rightarrow> frame_info \<Rightarrow> u8 list \<Rightarrow> stack_state \<Rightarrow> int \<times> stack_state" where
  "LowerReturn G info result s =
     (let (fp, frame) = LoadFrameAnchor G s;
          m = store_bytes (ss_memory s) (unat (frame + of_nat (ResultOffset info))) result;
          returnRegionId = ucast (load_le m (unat (frame + of_nat ReturnRegionIdOffset)) 4);
          savedFp = load_le m (unat (frame + of_nat SavedFpOffset)) 8
      in (ActionContinue,
          set_control ((ss_control s)\<lparr>fc_resume_region_id := returnRegionId, fc_sp := fp + of_nat LinkageBytes,
            fc_fp := savedFp\<rparr>) (set_memory m s)))"

section \<open>Carving, saving, suspending\<close>

text \<open>A slot of the frame at an offset from its base.\<close>

definition frame_slot :: "stack_geometry \<Rightarrow> frame_info \<Rightarrow> nat \<Rightarrow> stack_state \<Rightarrow> nat" where
  "frame_slot G info offset s = unat (snd (LoadFrameAnchor G s) + of_nat offset - of_nat (FrameSize info))"

text \<open>A run-time-sized object of so many elements: the pointer is parked in its handle.\<close>

definition LowerDynamicAlloca ::
  "stack_geometry \<Rightarrow> frame_info \<Rightarrow> nat \<Rightarrow> nat \<Rightarrow> nat \<Rightarrow> u64 \<Rightarrow> stack_state \<Rightarrow> int option \<times> stack_state" where
  "LowerDynamicAlloca G info handleOffset elemBytes alignment count s =
     (let align = max (FrameAlignment G) alignment;
          frontier = fc_sp (ss_control s);
          park = (\<lambda>pointer s. set_memory (store_le (ss_memory s) (frame_slot G info handleOffset s) 8 pointer) s)
      in if elemBytes = 0
         then (None, park (FramePointer G (frontier AND NOT (of_nat (align - 1)))) s)
         else let tooMany = of_nat (FiberStackSize G div elemBytes) < count;
                  need = count * of_nat elemBytes;
                  reserve = need + of_nat (align - 1);
                  low = SliceOffset G frontier < reserve + of_nat (Floor G)
              in if tooMany \<or> low then (Some ActionStop, EmitAbort CAPSULE_ERROR_STACK_OVERFLOW s)
                 else let next = (frontier - need) AND NOT (of_nat (align - 1))
                      in (None, park (FramePointer G next) (set_control ((ss_control s)\<lparr>fc_sp := next\<rparr>) s)))"

definition stack_save :: "stack_geometry \<Rightarrow> frame_info \<Rightarrow> nat \<Rightarrow> stack_state \<Rightarrow> stack_state" where
  "stack_save G info offset s =
     set_memory (store_le (ss_memory s) (frame_slot G info offset s) 8 (fc_sp (ss_control s))) s"

definition stack_restore :: "stack_geometry \<Rightarrow> frame_info \<Rightarrow> nat \<Rightarrow> stack_state \<Rightarrow> stack_state" where
  "stack_restore G info offset s =
     set_control ((ss_control s)\<lparr>fc_sp := load_le (ss_memory s) (frame_slot G info offset s) 8\<rparr>) s"

text \<open>\<open>LowerFrameAddresses\<close>: the walk of the frame chain to a depth; past the root it stays null.\<close>

fun frame_parent :: "stack_geometry \<Rightarrow> bytes \<Rightarrow> u64 \<Rightarrow> nat \<Rightarrow> u64" where
  "frame_parent G m fp 0 = fp"
| "frame_parent G m fp (Suc depth) =
     (let above = frame_parent G m fp depth
      in if above = 0 then 0 else load_le m (unat (FramePointer G above + of_nat SavedFpOffset)) 8)"

definition LowerFrameAddress :: "stack_geometry \<Rightarrow> nat \<Rightarrow> stack_state \<Rightarrow> u64" where
  "LowerFrameAddress G depth s =
     (let fp = frame_parent G (ss_memory s) (fc_fp (ss_control s)) depth
      in if fp = 0 then 0 else FramePointer G fp)"

definition SuspendAtYield :: "u32 \<Rightarrow> stack_state \<Rightarrow> int \<times> stack_state" where
  "SuspendAtYield resumeRegionId s =
     (ActionStop, set_control (store_outcome (ucast CAPSULE_YIELD)
        ((ss_control s)\<lparr>fc_resume_region_id := resumeRegionId\<rparr>)) s)"

definition SuspendAtBackedge :: "u32 \<Rightarrow> stack_state \<Rightarrow> int \<times> stack_state" where
  "SuspendAtBackedge resumeRegionId s =
     (ActionContinue, set_control ((ss_control s)\<lparr>fc_resume_region_id := resumeRegionId\<rparr>) s)"

section \<open>Non-local jumps\<close>

definition JumpRegionIdOffset :: nat where "JumpRegionIdOffset = 0"
definition JumpSpOffset :: nat where "JumpSpOffset = 8"
definition JumpFpOffset :: nat where "JumpFpOffset = 16"
definition JumpResultOffset :: nat where "JumpResultOffset = 24"

lemmas jump_defs = JumpRegionIdOffset_def JumpSpOffset_def JumpFpOffset_def JumpResultOffset_def

definition LowerSetjmp :: "stack_geometry \<Rightarrow> frame_info \<Rightarrow> nat \<Rightarrow> u32 \<Rightarrow> u64 \<Rightarrow> stack_state \<Rightarrow> stack_state" where
  "LowerSetjmp G info slotOffset resumeRegionId env s =
     (let slot = frame_slot G info slotOffset s;
          field = (\<lambda>offset. unat (env + of_nat offset));
          m = store_le (ss_memory s) slot 4 0;
          m = store_le m (field JumpRegionIdOffset) 4 (ucast resumeRegionId);
          m = store_le m (field JumpSpOffset) 8 (fc_sp (ss_control s));
          m = store_le m (field JumpFpOffset) 8 (fc_fp (ss_control s));
          m = store_le m (field JumpResultOffset) 8 (of_nat slot)
      in set_memory m s)"

definition setjmp_result :: "stack_geometry \<Rightarrow> frame_info \<Rightarrow> nat \<Rightarrow> stack_state \<Rightarrow> u32" where
  "setjmp_result G info slotOffset s = ucast (load_le (ss_memory s) (frame_slot G info slotOffset s) 4)"

definition LowerLongjmp :: "u64 \<Rightarrow> u32 \<Rightarrow> stack_state \<Rightarrow> int \<times> stack_state" where
  "LowerLongjmp env v s =
     (let field = (\<lambda>offset. unat (env + of_nat offset));
          m = store_le (ss_memory s) (unat (load_le (ss_memory s) (field JumpResultOffset) 8)) 4 (ucast (if v = 0 then 1 else v))
      in (ActionContinue,
          set_control ((ss_control s)\<lparr>fc_sp := load_le m (field JumpSpOffset) 8, fc_fp := load_le m (field JumpFpOffset) 8,
            fc_resume_region_id := ucast (load_le m (field JumpRegionIdOffset) 4)\<rparr>) (set_memory m s)))"

section \<open>The native boundary\<close>

text \<open>\<open>RewriteEntryCall\<close> up to the trampoline: the root frame at the upper edge of the fiber's stack.\<close>

definition RewriteEntryCall ::
  "stack_geometry \<Rightarrow> managed_call_layout \<Rightarrow> u32 \<Rightarrow> u32 \<Rightarrow> argument list \<Rightarrow> stack_state \<Rightarrow> stack_state" where
  "RewriteEntryCall G layout returnSize entryRegionId arguments s =
     (let out = StackPtr G (of_nat (Root G));
          m = store_le (ss_memory s) (unat (out + of_nat SavedFpOffset)) 8 0;
          m = store_le m (unat (out + of_nat ReturnRegionIdOffset)) 4 (ucast BPF_CAPSULE_REGION_ID_DONE);
          m = StoreCallArguments out arguments (ArgSlots layout) m
      in set_control ((store_outcome 0 (ss_control s))\<lparr>fc_return_size := returnSize, fc_resume_region_id := entryRegionId,
            fc_sp := out, fc_fp := out\<rparr>) (set_memory m s))"

text \<open>The result of the root call, read where it was laid out.\<close>

definition root_result :: "stack_geometry \<Rightarrow> managed_call_layout \<Rightarrow> nat \<Rightarrow> stack_state \<Rightarrow> u8 list" where
  "root_result G layout bytes s =
     (case ResultSlot layout of
        None \<Rightarrow> []
      | Some (offset, _) \<Rightarrow> load_bytes (ss_memory s) (unat (StackPtr G (of_nat (Root G + offset)))) bytes)"

text \<open>\<open>RewriteReturnCopies\<close>: the widths of the parts, and their copy one after another. The width of a part
  starts at the alignment and is halved while it does not fit or does not divide the offset.\<close>

fun part_width :: "nat \<Rightarrow> nat \<Rightarrow> nat \<Rightarrow> nat" where
  "part_width bytes offset width =
     (if width \<noteq> 0 \<and> (width > bytes - offset \<or> offset mod width \<noteq> 0) then part_width bytes offset (width div 2) else width)"

declare part_width.simps [simp del]

function copy_parts :: "nat \<Rightarrow> nat \<Rightarrow> nat \<Rightarrow> nat \<Rightarrow> nat \<Rightarrow> bytes \<Rightarrow> bytes" where
  "copy_parts source output bytes alignment offset m =
     (if offset < bytes
      then let width = part_width bytes offset (min 8 alignment);
               m = store_le m (output + offset) width (load_le m (source + offset) width)
           in if width = 0 then m else copy_parts source output bytes alignment (offset + width) m
      else m)"
  by pat_completeness auto
termination
  by (relation "measure (\<lambda>(source, output, bytes, alignment, offset, m). bytes - offset)") auto

declare copy_parts.simps [simp del]

definition RewriteReturnCopy :: "stack_geometry \<Rightarrow> u64 \<Rightarrow> nat \<Rightarrow> nat \<Rightarrow> stack_state \<Rightarrow> stack_state" where
  "RewriteReturnCopy G output bytes alignment s =
     (let resultOffset = align_to LinkageBytes (max 8 alignment);
          source = StackPtr G (of_nat (Root G + resultOffset))
      in set_memory (copy_parts (unat source) (unat output) bytes alignment 0 (ss_memory s)) s)"

text \<open>\<open>CalleeRegionId\<close>: a direct callee's entry region, or the low word of a function token.\<close>

definition CalleeRegionId :: "u32 option \<Rightarrow> u64 \<Rightarrow> u32" where
  "CalleeRegionId callee token = (case callee of Some entryRegionId \<Rightarrow> entryRegionId | None \<Rightarrow> ucast token)"

text \<open>How a return is lowered, from whether its block publishes an outcome and, for each predecessor, whether
  that one does and whether it branches straight to the return.\<close>

datatype return_lowering = TerminalReturn | OrdinaryReturn | SplitReturn | ConditionalOutcome

definition return_lowering :: "bool \<Rightarrow> (bool \<times> bool) list \<Rightarrow> return_lowering" where
  "return_lowering publishesOutcome predecessors =
     (if publishesOutcome then TerminalReturn
      else if \<exists>(publishes, direct) \<in> set predecessors. publishes \<and> \<not> direct then ConditionalOutcome
      else let terminal = filter fst predecessors; hasOrdinaryPredecessor = (\<exists>(publishes, _) \<in> set predecessors. \<not> publishes)
           in if terminal \<noteq> [] \<and> \<not> hasOrdinaryPredecessor then TerminalReturn
              else if terminal \<noteq> [] then SplitReturn else OrdinaryReturn)"

text \<open>What a path into the return then does: stop at once, or pop the frame.\<close>

fun path_stops :: "return_lowering \<Rightarrow> bool \<Rightarrow> bool" where
  "path_stops TerminalReturn publishes = True"
| "path_stops OrdinaryReturn publishes = False"
| "path_stops SplitReturn publishes = publishes"
| "path_stops ConditionalOutcome publishes = False"

section \<open>A stack of frames\<close>

text \<open>What the emitted code implements: a list of frames, the running one first. Offsets are relative to the
  fiber's slice. A frame has the function it runs, its boundary, its frontier, the size of the area it was
  called with, the region its return resumes, and the frontiers it has saved, by slot.\<close>

record aframe =
  af_info :: frame_info
  af_fp :: nat
  af_frontier :: nat
  af_area :: nat
  af_return :: u32
  af_saved :: "(nat \<times> nat) list"

text \<open>The running function is about to claim its frame, or runs, or has just been returned to from a call
  with an area of a size.\<close>

datatype phase = Entering | Running | Returned nat

record astack =
  as_frames :: "aframe list"
  as_phase :: phase
  as_region :: u32

datatype stack_op =
    Enter
  | Call managed_call_layout u32 u32 frame_info "argument list"
  | Return "u8 list"
  | Resume managed_call_layout
  | Carve nat nat nat u64
  | Save nat
  | Restore nat
  | Backedge u32
  | Yield u32
  | Setjmp nat u32 u64
  | Longjmp u64 u32 nat nat u32
  | Body bytes

text \<open>The emitted code of an operation of a function. Besides the operands a call names the function it
  calls, and a jump the depth of the frame, the frontier and the region it returns to; the emitted
  code does not depend on these.\<close>

fun run_op :: "stack_geometry \<Rightarrow> frame_info \<Rightarrow> stack_op \<Rightarrow> stack_state \<Rightarrow> int option \<times> stack_state" where
  "run_op G info Enter s = prologue G info s"
| "run_op G info (Call layout resume callee _ args) s = apfst Some (SuspendAtCall G info layout resume callee args s)"
| "run_op G info (Return result) s = apfst Some (LowerReturn G info result s)"
| "run_op G info (Resume layout) s = (None, resume_call G info layout s)"
| "run_op G info (Carve handle elem alignment count) s = LowerDynamicAlloca G info handle elem alignment count s"
| "run_op G info (Save slot) s = (None, stack_save G info slot s)"
| "run_op G info (Restore slot) s = (None, stack_restore G info slot s)"
| "run_op G info (Backedge resume) s = apfst Some (SuspendAtBackedge resume s)"
| "run_op G info (Yield resume) s = apfst Some (SuspendAtYield resume s)"
| "run_op G info (Setjmp slot resume env) s = (None, LowerSetjmp G info slot resume env s)"
| "run_op G info (Longjmp env v _ _ _) s = apfst Some (LowerLongjmp env v s)"
| "run_op G info (Body m) s = (None, set_memory m s)"

text \<open>The same operations on the list of frames.\<close>

definition lift_frontier :: "nat \<Rightarrow> aframe \<Rightarrow> aframe" where
  "lift_frontier v f = f\<lparr>af_frontier := v, af_saved := filter (\<lambda>(_, w). v \<le> w) (af_saved f)\<rparr>"

fun spec_op :: "stack_geometry \<Rightarrow> stack_op \<Rightarrow> astack \<Rightarrow> int option \<times> astack" where
  "spec_op G Enter a =
     (let f = hd (as_frames a)
      in if af_fp f < FrameSize (af_info f) + Floor G then (Some ActionStop, a)
         else (None, a\<lparr>as_frames := f\<lparr>af_frontier := af_fp f - FrameSize (af_info f)\<rparr> # tl (as_frames a), as_phase := Running\<rparr>))"
| "spec_op G (Call layout resume callee info args) a =
     (let fp = af_frontier (hd (as_frames a)) - Size layout
      in (Some ActionContinue,
          a\<lparr>as_frames := \<lparr>af_info = info, af_fp = fp, af_frontier = fp, af_area = Size layout, af_return = resume, af_saved = []\<rparr> # as_frames a,
            as_phase := Entering, as_region := callee\<rparr>))"
| "spec_op G (Return result) a =
     (let f = hd (as_frames a)
      in (Some ActionContinue, a\<lparr>as_frames := tl (as_frames a), as_phase := Returned (af_area f), as_region := af_return f\<rparr>))"
| "spec_op G (Resume layout) a = (None, a\<lparr>as_phase := Running\<rparr>)"
| "spec_op G (Carve handle elem alignment count) a =
     (let f = hd (as_frames a); align = max (FrameAlignment G) alignment; need = unat count * elem
      in if elem = 0 then (None, a)
         else if FiberStackSize G div elem < unat count \<or> af_frontier f < need + (align - 1) + Floor G then (Some ActionStop, a)
         else (None, a\<lparr>as_frames := f\<lparr>af_frontier := (af_frontier f - need) div align * align\<rparr> # tl (as_frames a)\<rparr>))"
| "spec_op G (Save slot) a =
     (let f = hd (as_frames a)
      in (None, a\<lparr>as_frames := f\<lparr>af_saved := (slot, af_frontier f) # filter (\<lambda>(o', _). o' \<noteq> slot) (af_saved f)\<rparr> # tl (as_frames a)\<rparr>))"
| "spec_op G (Restore slot) a =
     (let f = hd (as_frames a)
      in (None, a\<lparr>as_frames := lift_frontier (the (map_of (af_saved f) slot)) f # tl (as_frames a)\<rparr>))"
| "spec_op G (Backedge resume) a = (Some ActionContinue, a\<lparr>as_region := resume\<rparr>)"
| "spec_op G (Yield resume) a = (Some ActionStop, a\<lparr>as_region := resume\<rparr>)"
| "spec_op G (Setjmp slot resume env) a = (None, a)"
| "spec_op G (Longjmp env v depth frontier region) a =
     (let fs = drop depth (as_frames a)
      in (Some ActionContinue, a\<lparr>as_frames := lift_frontier frontier (hd fs) # tl fs, as_region := region\<rparr>))"
| "spec_op G (Body m) a = (None, a)"

section \<open>Addresses\<close>

text \<open>The fiber's slice starts at a multiple of its size, so the low bits of an address in it are its offset.\<close>

definition slice_base :: "stack_geometry \<Rightarrow> nat" where
  "slice_base G = unat (StackBank G) + unat (NormalizeFiber (FiberCount G) (Fiber G)) * FiberStackSize G"

definition address :: "stack_geometry \<Rightarrow> nat \<Rightarrow> u64" where
  "address G offset = of_nat (slice_base G + offset)"

definition geometry_ok :: "stack_geometry \<Rightarrow> bool" where
  "geometry_ok G \<longleftrightarrow>
     isPowerOf2_64 (FiberStackSize G) \<and> FiberStackSize G \<le> MaxFiberStackBytes \<and> FiberStackSize G dvd unat (StackBank G) \<and>
     0 < slice_base G \<and> slice_base G + FiberStackSize G < 2 ^ 64 \<and>
     isPowerOf2_64 (FrameAlignment G) \<and> FrameAlignment G \<le> FiberStackSize G \<and> 16 \<le> FrameAlignment G \<and>
     TransientReserveBytes (FiberStackSize G) \<le> Floor G \<and> Floor G \<le> Root G \<and> Root G + LinkageBytes \<le> FiberStackSize G \<and>
     FrameAlignment G dvd Root G"

lemma geometry_okD:
  assumes "geometry_ok G"
  shows "slice_base G + FiberStackSize G < 18446744073709551616" and "FiberStackSize G dvd slice_base G"
    and "FiberStackSize G \<le> 2097152" and "16 \<le> FrameAlignment G" and "Floor G \<le> Root G" and "Root G + 16 \<le> FiberStackSize G"
    and "FrameAlignment G dvd slice_base G" and "TransientReserveBytes (FiberStackSize G) \<le> Floor G"
    and "0 < slice_base G" and "FrameAlignment G dvd Root G"
proof -
  have "FrameAlignment G dvd FiberStackSize G" using assms by (auto simp: geometry_ok_def intro: power_le_dvd)
  moreover show "FiberStackSize G dvd slice_base G" using assms by (auto simp: geometry_ok_def slice_base_def)
  ultimately show "FrameAlignment G dvd slice_base G" by (rule dvd_trans)
qed (use assms in \<open>auto simp: geometry_ok_def MaxFiberStackBytes_def LinkageBytes_def\<close>)

lemma unat_address:
  assumes "geometry_ok G" and "offset \<le> FiberStackSize G"
  shows "unat (address G offset) = slice_base G + offset"
proof -
  have "slice_base G + offset < 2 ^ 64" using geometry_okD(1) [OF assms(1)] assms(2) by simp
  then show ?thesis unfolding address_def by (intro unat_of_nat_small) simp
qed

lemma address_add [simp]: "address G offset + of_nat n = address G (offset + n)"
  by (simp add: address_def add.assoc)

lemma address_sub: "n \<le> offset \<Longrightarrow> address G offset - of_nat n = address G (offset - n)"
  by (simp add: address_def of_nat_diff)

lemma address_inj:
  "geometry_ok G \<Longrightarrow> i \<le> FiberStackSize G \<Longrightarrow> j \<le> FiberStackSize G \<Longrightarrow> address G i = address G j \<longleftrightarrow> i = j"
  by (metis unat_address add_left_cancel)

lemma address_nonzero: "geometry_ok G \<Longrightarrow> i \<le> FiberStackSize G \<Longrightarrow> address G i \<noteq> 0"
  using unat_address [of G i] geometry_okD(9) [of G] by force

lemma slice_mask:
  assumes "geometry_ok G"
  shows "unat (w AND of_nat (FiberStackSize G - 1) :: u64) = unat w mod FiberStackSize G"
proof -
  obtain k where k: "FiberStackSize G = 2 ^ k" using assms by (auto simp: geometry_ok_def isPowerOf2_64_def)
  have "(of_nat (FiberStackSize G - 1) :: u64) = mask k" by (simp add: k mask_eq_exp_minus_1 of_nat_diff)
  then show ?thesis by (simp add: unat_mask_mod k)
qed

lemma SliceOffset_address:
  assumes "geometry_ok G" and "offset < FiberStackSize G"
  shows "SliceOffset G (address G offset) = of_nat offset"
proof -
  have "unat (SliceOffset G (address G offset)) = (slice_base G + offset) mod FiberStackSize G"
    unfolding SliceOffset_def slice_mask [OF assms(1)] using assms by (simp add: unat_address)
  also have "\<dots> = offset" using geometry_okD(2) [OF assms(1)] assms(2) by (auto elim!: dvdE)
  finally show ?thesis by (rule word_of_unat)
qed

lemma StackPtr_offset:
  assumes "geometry_ok G"
  shows "StackPtr G w = address G (unat (SliceOffset G w))"
  by (simp add: StackPtr_def address_def slice_base_def SliceOffset_def Let_def)

lemma StackPtr_address:
  assumes "geometry_ok G" and "offset < FiberStackSize G"
  shows "StackPtr G (address G offset) = address G offset"
  using assms geometry_okD(1,3) [OF assms(1)]
  by (simp add: StackPtr_offset SliceOffset_address unat_of_nat take_bit_nat_eq_self)

lemma FramePointer_address [simp]:
  "geometry_ok G \<Longrightarrow> offset < FiberStackSize G \<Longrightarrow> FramePointer G (address G offset) = address G offset"
  by (simp add: FramePointer_def StackPtr_address)

lemma StackPtr_root:
  assumes "geometry_ok G" and "offset < FiberStackSize G"
  shows "StackPtr G (of_nat offset) = address G offset"
proof -
  have "offset < 18446744073709551616" using geometry_okD(3) [OF assms(1)] assms(2) by linarith
  then have "unat (SliceOffset G (of_nat offset)) = offset"
    unfolding SliceOffset_def slice_mask [OF assms(1)] using assms(2) by (simp add: unat_of_nat take_bit_nat_eq_self)
  then show ?thesis by (simp add: StackPtr_offset [OF assms(1)])
qed

section \<open>The representation\<close>

text \<open>Where a frame may lie when it is entered, and once it is claimed.\<close>

definition function_ok :: "stack_geometry \<Rightarrow> frame_info \<Rightarrow> bool" where
  "function_ok G info \<longleftrightarrow> FrameAlignment G dvd FrameSize info \<and> FrameSize info \<le> FiberStackSize G"

definition entry_ok :: "stack_geometry \<Rightarrow> aframe \<Rightarrow> bool" where
  "entry_ok G f \<longleftrightarrow>
     TransientReserveBytes (FiberStackSize G) \<le> af_fp f \<and> af_fp f \<le> Root G \<and> af_fp f + af_area f \<le> FiberStackSize G \<and>
     LinkageBytes \<le> af_area f \<and> FrameAlignment G dvd af_fp f \<and> function_ok G (af_info f)"

definition frame_ok :: "stack_geometry \<Rightarrow> aframe \<Rightarrow> bool" where
  "frame_ok G f \<longleftrightarrow>
     Floor G \<le> af_frontier f \<and> af_frontier f + FrameSize (af_info f) \<le> af_fp f \<and> FrameAlignment G dvd af_frontier f \<and>
     (\<not> dynamicSp (af_info f) \<longrightarrow> af_frontier f + FrameSize (af_info f) = af_fp f) \<and>
     (\<forall>(slot, v) \<in> set (af_saved f). slot + 8 \<le> FrameSize (af_info f) \<and> af_frontier f \<le> v \<and>
        v + FrameSize (af_info f) \<le> af_fp f \<and> FrameAlignment G dvd v)"

text \<open>The words in memory a frame depends on: its linkage and its saved frontiers.\<close>

definition slot_address :: "stack_geometry \<Rightarrow> aframe \<Rightarrow> nat \<Rightarrow> nat" where
  "slot_address G f slot = slice_base G + (af_fp f - FrameSize (af_info f) + slot)"

definition link_address :: "stack_geometry \<Rightarrow> aframe \<Rightarrow> nat" where
  "link_address G f = slice_base G + af_fp f"

definition stored :: "stack_geometry \<Rightarrow> bytes \<Rightarrow> aframe \<Rightarrow> u64 \<Rightarrow> bool" where
  "stored G m f parent \<longleftrightarrow>
     load_le m (link_address G f) 8 = parent \<and> load_le m (link_address G f + 8) 4 = ucast (af_return f) \<and>
     (\<forall>(slot, v) \<in> set (af_saved f). load_le m (slot_address G f slot) 8 = address G v)"

definition protected_words :: "stack_geometry \<Rightarrow> aframe \<Rightarrow> nat set" where
  "protected_words G f =
     {link_address G f ..< link_address G f + 12} \<union> (\<Union>(slot, _) \<in> set (af_saved f). {slot_address G f slot ..< slot_address G f slot + 8})"

fun parent_fp :: "stack_geometry \<Rightarrow> aframe list \<Rightarrow> u64" where
  "parent_fp G [] = 0"
| "parent_fp G (f # fs) = address G (af_fp f)"

text \<open>Each frame hangs below the frontier of its caller by exactly the area of the call.\<close>

fun chain :: "stack_geometry \<Rightarrow> bytes \<Rightarrow> aframe list \<Rightarrow> bool" where
  "chain G m [] = True"
| "chain G m (f # fs) =
     (entry_ok G f \<and> stored G m f (parent_fp G fs) \<and> chain G m fs \<and>
      (case fs of [] \<Rightarrow> af_return f = BPF_CAPSULE_REGION_ID_DONE
       | g # _ \<Rightarrow> frame_ok G g \<and> af_fp f + af_area f = af_frontier g))"

fun phase_ok :: "stack_geometry \<Rightarrow> u64 \<Rightarrow> aframe list \<Rightarrow> phase \<Rightarrow> bool" where
  "phase_ok G sp (f # fs) Entering = (af_frontier f = af_fp f \<and> af_saved f = [])"
| "phase_ok G sp [] Entering = False"
| "phase_ok G sp (f # fs) Running =
     (frame_ok G f \<and> (dynamicSp (af_info f) \<or> hasSetjmp (af_info f) \<longrightarrow> sp = address G (af_frontier f)))"
| "phase_ok G sp [] Running = False"
| "phase_ok G sp (f # fs) (Returned area) =
     (frame_ok G f \<and> LinkageBytes \<le> area \<and> area \<le> af_frontier f \<and> sp = address G (af_frontier f - area + LinkageBytes))"
| "phase_ok G sp [] (Returned area) = True"

definition represents :: "stack_geometry \<Rightarrow> stack_state \<Rightarrow> astack \<Rightarrow> bool" where
  "represents G s a \<longleftrightarrow>
     chain G (ss_memory s) (as_frames a) \<and> fc_fp (ss_control s) = parent_fp G (as_frames a) \<and>
     fc_resume_region_id (ss_control s) = as_region a \<and> phase_ok G (fc_sp (ss_control s)) (as_frames a) (as_phase a)"

text \<open>Memory outside the protected words does not matter.\<close>

lemma frame_updates [simp]:
  "entry_ok G (f\<lparr>af_frontier := x\<rparr>) = entry_ok G f" "stored G m (f\<lparr>af_frontier := x\<rparr>) = stored G m f"
  "entry_ok G (f\<lparr>af_saved := y\<rparr>) = entry_ok G f" "link_address G (f\<lparr>af_saved := y\<rparr>) = link_address G f"
  "slot_address G (f\<lparr>af_saved := y\<rparr>) = slot_address G f" "slot_address G (f\<lparr>af_frontier := x\<rparr>) = slot_address G f"
  by (auto simp: entry_ok_def stored_def link_address_def slot_address_def fun_eq_iff)

lemma stored_cong:
  assumes "\<forall>x \<in> protected_words G f. m' x = m x"
  shows "stored G m' f parent \<longleftrightarrow> stored G m f parent"
proof -
  have "load_le m' (link_address G f) 8 = load_le m (link_address G f) 8"
    "load_le m' (link_address G f + 8) 4 = load_le m (link_address G f + 8) 4"
    using assms by (auto intro!: load_le_cong simp: protected_words_def)
  moreover have "load_le m' (slot_address G f slot) 8 = load_le m (slot_address G f slot) 8" if "(slot, v) \<in> set (af_saved f)" for slot v
    using assms that by (intro load_le_cong) (fastforce simp: protected_words_def)
  ultimately show ?thesis unfolding stored_def by auto
qed

lemma chain_cong: "\<forall>f \<in> set fs. \<forall>x \<in> protected_words G f. m' x = m x \<Longrightarrow> chain G m' fs \<longleftrightarrow> chain G m fs"
proof (induction fs)
  case (Cons f fs)
  then show ?case using stored_cong [of G f m' m] by simp
qed simp

text \<open>The protected words of a frame lie between its locals and the end of its linkage; those of the frames
  below it in the list lie above the area it was called with.\<close>

lemma chain_frames:
  "chain G m (f # fs) \<Longrightarrow> g \<in> set fs \<Longrightarrow>
     entry_ok G g \<and> frame_ok G g \<and> af_fp f + af_area f \<le> af_frontier g \<and> Floor G \<le> af_frontier g"
proof (induction fs arbitrary: f)
  case (Cons h fs)
  have h: "entry_ok G h" "frame_ok G h" "af_fp f + af_area f = af_frontier h" "chain G m (h # fs)"
    using Cons.prems(1) by auto
  show ?case
  proof (cases "g = h")
    case True
    then show ?thesis using h by (simp add: frame_ok_def)
  next
    case False
    then have "entry_ok G g \<and> frame_ok G g \<and> af_fp h + af_area h \<le> af_frontier g \<and> Floor G \<le> af_frontier g"
      using Cons.IH [OF h(4)] Cons.prems(2) by simp
    then show ?thesis using h(2,3) by (auto simp: frame_ok_def)
  qed
qed simp

lemma slot_inside:
  assumes "frame_ok G g" and "slot + n \<le> FrameSize (af_info g)"
  shows "slice_base G + af_frontier g \<le> slot_address G g slot" and "slot_address G g slot + n \<le> link_address G g"
  using assms by (auto simp: frame_ok_def link_address_def slot_address_def)

lemma protected_above:
  assumes "frame_ok G g" and "x \<in> protected_words G g"
  shows "slice_base G + af_frontier g \<le> x" and "x < link_address G g + 12"
proof -
  consider "link_address G g \<le> x" "x < link_address G g + 12"
    | slot where "slot + 8 \<le> FrameSize (af_info g)" "slot_address G g slot \<le> x" "x < slot_address G g slot + 8"
    using assms by (fastforce simp: protected_words_def frame_ok_def)
  then have "slice_base G + af_frontier g \<le> x \<and> x < link_address G g + 12"
  proof cases
    case 1
    then show ?thesis using assms(1) by (simp add: frame_ok_def link_address_def)
  next
    case 2
    then show ?thesis using slot_inside [OF assms(1) 2(1)] by simp
  qed
  then show "slice_base G + af_frontier g \<le> x" "x < link_address G g + 12" by simp_all
qed

text \<open>When an operation is one the running function may perform. A call names an area of the layout and
  arguments that fit it; writes of the body spare the protected words; a jump buffer still holds what
  \<open>setjmp\<close> stored in it, for a frame that is still live.\<close>

definition avoids :: "stack_geometry \<Rightarrow> aframe list \<Rightarrow> nat \<Rightarrow> nat \<Rightarrow> bool" where
  "avoids G fs a n \<longleftrightarrow> (\<forall>f \<in> set fs. \<forall>x \<in> protected_words G f. x < a \<or> a + n \<le> x)"

fun argument_size :: "argument \<Rightarrow> nat" where
  "argument_size (Direct bs) = length bs"
| "argument_size (ByVal p n) = n"

definition arguments_fit :: "managed_call_layout \<Rightarrow> argument list \<Rightarrow> bool" where
  "arguments_fit layout args \<longleftrightarrow>
     (\<forall>((offset, bytes, _), a) \<in> set (zip (ArgSlots layout) args).
        LinkageBytes \<le> offset \<and> offset + bytes \<le> Size layout \<and> argument_size a \<le> bytes)"

definition call_ok :: "stack_geometry \<Rightarrow> managed_call_layout \<Rightarrow> frame_info \<Rightarrow> argument list \<Rightarrow> bool" where
  "call_ok G layout info args \<longleftrightarrow>
     LinkageBytes \<le> Size layout \<and> FrameAlignment G dvd Size layout \<and> function_ok G info \<and> arguments_fit layout args"

fun op_ok :: "stack_geometry \<Rightarrow> bytes \<Rightarrow> astack \<Rightarrow> stack_op \<Rightarrow> bool" where
  "op_ok G m a Enter = (as_phase a = Entering)"
| "op_ok G m a (Resume layout) = (as_phase a = Returned (Size layout) \<and> as_frames a \<noteq> [])"
| "op_ok G m a (Call layout resume callee info args) =
     (as_phase a = Running \<and> call_ok G layout info args \<and> TransientReserveBytes (FiberStackSize G) + Size layout \<le> Floor G)"
| "op_ok G m a (Return result) =
     (let f = hd (as_frames a)
      in as_phase a = Running \<and>
         (result \<noteq> [] \<longrightarrow> LinkageBytes \<le> ResultOffset (af_info f) \<and> ResultOffset (af_info f) + length result \<le> af_area f))"
| "op_ok G m a (Carve handle elem alignment count) =
     (let f = hd (as_frames a); align = max (FrameAlignment G) alignment
      in as_phase a = Running \<and> dynamicSp (af_info f) \<and> isPowerOf2_64 align \<and> align \<le> FiberStackSize G \<and>
         handle + 8 \<le> FrameSize (af_info f) \<and> avoids G [f] (slot_address G f handle) 8)"
| "op_ok G m a (Save slot) =
     (let f = hd (as_frames a)
      in as_phase a = Running \<and> dynamicSp (af_info f) \<and> slot + 8 \<le> FrameSize (af_info f) \<and>
         (\<forall>(o', _) \<in> set (af_saved f). o' = slot \<or> o' + 8 \<le> slot \<or> slot + 8 \<le> o'))"
| "op_ok G m a (Restore slot) =
     (let f = hd (as_frames a) in as_phase a = Running \<and> dynamicSp (af_info f) \<and> slot \<in> fst ` set (af_saved f))"
| "op_ok G m a (Backedge resume) = (as_phase a = Running)"
| "op_ok G m a (Yield resume) = (as_phase a = Running)"
| "op_ok G m a (Setjmp slot resume env) =
     (let f = hd (as_frames a)
      in as_phase a = Running \<and> hasSetjmp (af_info f) \<and> slot + 4 \<le> FrameSize (af_info f) \<and>
         avoids G [f] (slot_address G f slot) 4 \<and> avoids G (as_frames a) (unat env) 32 \<and> unat env + 32 < 2 ^ 64)"
| "op_ok G m a (Longjmp env v depth frontier region) =
     (let fs = drop depth (as_frames a); f = hd fs; result = unat (load_le m (unat (env + of_nat JumpResultOffset)) 8)
      in as_phase a = Running \<and> depth < length (as_frames a) \<and> hasSetjmp (af_info f) \<and>
         af_frontier f \<le> frontier \<and> frontier + FrameSize (af_info f) \<le> af_fp f \<and> FrameAlignment G dvd frontier \<and>
         load_le m (unat env) 4 = ucast region \<and> load_le m (unat (env + of_nat JumpSpOffset)) 8 = address G frontier \<and>
         load_le m (unat (env + of_nat JumpFpOffset)) 8 = address G (af_fp f) \<and> unat env + 32 < 2 ^ 64 \<and>
         avoids G fs result 4 \<and> (result + 4 \<le> unat env \<or> unat env + 24 \<le> result))"
| "op_ok G m a (Body m') = (as_phase a = Running \<and> (\<forall>f \<in> set (as_frames a). \<forall>x \<in> protected_words G f. m' x = m x))"

text \<open>A step of the running function keeps the representation, and both sides take the same action.\<close>

definition simulates :: "stack_geometry \<Rightarrow> stack_op \<Rightarrow> stack_state \<Rightarrow> astack \<Rightarrow> bool" where
  "simulates G op s a \<longleftrightarrow>
     fst (run_op G (af_info (hd (as_frames a))) op s) = fst (spec_op G op a) \<and>
     represents G (snd (run_op G (af_info (hd (as_frames a))) op s)) (snd (spec_op G op a))"

lemma running_frames:
  assumes "represents G s a" and "as_phase a = Running"
  obtains f fs where "as_frames a = f # fs" "frame_ok G f" "entry_ok G f" "chain G (ss_memory s) (f # fs)"
    "fc_fp (ss_control s) = address G (af_fp f)"
    "dynamicSp (af_info f) \<or> hasSetjmp (af_info f) \<longrightarrow> fc_sp (ss_control s) = address G (af_frontier f)"
  using assms by (cases "as_frames a") (auto simp: represents_def)

lemma anchor:
  assumes "geometry_ok G" and "entry_ok G f" and "fc_fp (ss_control s) = address G (af_fp f)"
  shows "LoadFrameAnchor G s = (address G (af_fp f), address G (af_fp f))" and "af_fp f < FiberStackSize G"
proof -
  show "af_fp f < FiberStackSize G" using assms(2) geometry_okD(6) [OF assms(1)] by (simp add: entry_ok_def)
  then show "LoadFrameAnchor G s = (address G (af_fp f), address G (af_fp f))"
    using assms by (simp add: LoadFrameAnchor_def Let_def)
qed

lemma small_less:
  "i \<le> 8388608 \<Longrightarrow> j \<le> 8388608 \<Longrightarrow> (of_nat i :: u64) < of_nat j \<longleftrightarrow> i < j"
  by (simp add: word_less_nat_alt unat_of_nat_small)

lemma Backedge_simulates:
  "represents G s a \<Longrightarrow> op_ok G m a (Backedge r) \<Longrightarrow> simulates G (Backedge r) s a"
  by (simp add: simulates_def represents_def SuspendAtBackedge_def set_control_def)

lemma Yield_simulates:
  "represents G s a \<Longrightarrow> op_ok G m a (Yield r) \<Longrightarrow> simulates G (Yield r) s a"
  by (simp add: simulates_def represents_def SuspendAtYield_def set_control_def store_outcome_def)

lemma Body_simulates:
  "represents G s a \<Longrightarrow> op_ok G (ss_memory s) a (Body m) \<Longrightarrow> simulates G (Body m) s a"
  by (simp add: simulates_def represents_def set_memory_def chain_cong [of _ G m "ss_memory s"])

lemma Enter_simulates:
  assumes G: "geometry_ok G" and "represents G s a" and "op_ok G m a Enter"
  shows "simulates G Enter s a"
proof -
  obtain f fs where a: "as_frames a = f # fs" "af_frontier f = af_fp f" "af_saved f = []"
    using assms(2,3) by (cases "as_frames a") (auto simp: represents_def)
  have r: "entry_ok G f" "fc_fp (ss_control s) = address G (af_fp f)" "chain G (ss_memory s) (f # fs)"
    using assms(2) a(1) by (auto simp: represents_def)
  note f = anchor [OF G r(1,2)]
  have "SliceOffset G (address G (af_fp f)) < of_nat (FrameSize (af_info f) + Floor G) \<longleftrightarrow> af_fp f < FrameSize (af_info f) + Floor G"
    using r(1) geometry_okD(3,5,6) [OF G] f(2)
    by (simp add: SliceOffset_address [OF G] small_less entry_ok_def function_ok_def del: of_nat_add)
  moreover have "frame_ok G (f\<lparr>af_frontier := af_fp f - FrameSize (af_info f)\<rparr>)" if "FrameSize (af_info f) + Floor G \<le> af_fp f"
    using that r(1) a(3) by (auto simp: frame_ok_def entry_ok_def function_ok_def)
  ultimately show ?thesis using assms(2) a r f
    by (auto simp: simulates_def prologue_def represents_def EmitAbort_def store_outcome_def set_control_def Let_def
        address_sub split: list.splits)
qed

subsection \<open>Calls\<close>

lemma address_back: "address G (c + n) - of_nat n = address G c"
  by (simp add: address_def)

lemma argument_bytes_size [simp]: "length (argument_bytes m a) = argument_size a"
  by (cases a) (simp_all add: load_bytes_def)

lemma StoreCallArguments_outside:
  assumes "geometry_ok G" and "c + area \<le> FiberStackSize G"
    and "\<forall>((offset, bytes, _), a) \<in> set (zip slots args). LinkageBytes \<le> offset \<and> offset + bytes \<le> area \<and> argument_size a \<le> bytes"
    and "x < slice_base G + c + LinkageBytes \<or> slice_base G + c + area \<le> x"
  shows "StoreCallArguments (address G c) args slots m x = m x"
  using assms(3)
proof (induction args arbitrary: slots m)
  case (Cons a args)
  show ?case
  proof (cases slots)
    case (Cons slot rest)
    obtain offset bytes alignment where slot: "slot = (offset, bytes, alignment)" by (cases slot)
    have fits: "LinkageBytes \<le> offset" "offset + bytes \<le> area" "argument_size a \<le> bytes"
      using Cons.prems by (auto simp: Cons slot)
    then have "unat (address G (c + offset)) = slice_base G + (c + offset)"
      using assms(2) by (intro unat_address [OF assms(1)]) simp
    then have "store_bytes m (unat (address G (c + offset))) (argument_bytes m a) x = m x"
      using fits assms(4) by (auto simp: store_bytes_def)
    then show ?thesis using Cons.IH [of rest] Cons.prems by (simp add: Cons slot)
  qed simp
qed simp

lemma running_sp:
  assumes "geometry_ok G" and "frame_ok G f" and "fc_fp (ss_control s) = address G (af_fp f)"
    and "dynamicSp (af_info f) \<or> hasSetjmp (af_info f) \<longrightarrow> fc_sp (ss_control s) = address G (af_frontier f)"
  shows "caller_sp (af_info f) s = address G (af_frontier f)"
proof -
  have "\<not> dynamicSp (af_info f) \<Longrightarrow> af_fp f - FrameSize (af_info f) = af_frontier f" "FrameSize (af_info f) \<le> af_fp f"
    using assms(2) by (auto simp: frame_ok_def)
  then show ?thesis using assms(3,4) by (simp add: caller_sp_def address_sub)
qed

lemma chain_below:
  assumes "chain G m (f # fs)" and "frame_ok G f" and "\<And>x. slice_base G + af_frontier f \<le> x \<Longrightarrow> m' x = m x"
  shows "chain G m' (f # fs)"
proof -
  have "m' x = m x" if "g \<in> set (f # fs)" "x \<in> protected_words G g" for g x
  proof -
    have "frame_ok G g" "af_frontier f \<le> af_frontier g"
      using that(1) assms(2) chain_frames [OF assms(1), of g] by (auto simp: frame_ok_def)
    then show ?thesis using protected_above(1) [of G g x] that(2) assms(3) by simp
  qed
  then show ?thesis using assms(1) chain_cong [of "f # fs" G m' m] by blast
qed

text \<open>The area of a call: the words it writes below the caller's frontier.\<close>

lemma linkage_stored:
  assumes "geometry_ok G" and "c + area \<le> FiberStackSize G" and "LinkageBytes \<le> area"
    and "\<forall>((offset, bytes, _), a) \<in> set (zip slots args). LinkageBytes \<le> offset \<and> offset + bytes \<le> area \<and> argument_size a \<le> bytes"
    and "m' = StoreCallArguments (address G c) args slots
      (store_le (store_le m (unat (address G (c + SavedFpOffset))) 8 fp) (unat (address G (c + ReturnRegionIdOffset))) 4 (ucast (rid :: u32)))"
  shows "load_le m' (slice_base G + c) 8 = fp" and "load_le m' (slice_base G + c + 8) 4 = ucast rid"
    and "x < slice_base G + c \<or> slice_base G + c + area \<le> x \<Longrightarrow> m' x = m x"
proof -
  let ?base = "slice_base G + c"
  let ?linked = "store_le (store_le m ?base 8 fp) (?base + 8) 4 (ucast rid)"
  have "unat (address G (c + SavedFpOffset)) = ?base" "unat (address G (c + ReturnRegionIdOffset)) = ?base + 8"
    using assms(2,3) by (subst unat_address [OF assms(1)]; simp add: linkage_defs)+
  then have m': "m' = StoreCallArguments (address G c) args slots ?linked" using assms(5) by simp
  note outside = StoreCallArguments_outside [OF assms(1,2,4)]
  have "load_le m' ?base 8 = load_le ?linked ?base 8"
    unfolding m' by (rule load_le_cong) (simp add: outside LinkageBytes_def)
  then show "load_le m' ?base 8 = fp" by (simp add: load_store_other load_store_same take_bit_word_self)
  have "load_le m' (?base + 8) 4 = load_le ?linked (?base + 8) 4"
    unfolding m' by (rule load_le_cong) (simp add: outside LinkageBytes_def)
  also have "\<dots> = take_bit 32 (ucast rid)" by (simp add: load_store_same)
  also have "\<dots> = ucast rid" by (rule bit_word_eqI) (auto simp: bit_simps dest: bit_imp_le_length)
  finally show "load_le m' (?base + 8) 4 = ucast rid" .
  show "m' x = m x" if "x < ?base \<or> ?base + area \<le> x"
    unfolding m' using that assms(3) by (subst outside) (auto simp: LinkageBytes_def store_le_other)
qed

lemma Call_simulates:
  assumes G: "geometry_ok G" and rep: "represents G s a" and ok: "op_ok G m a (Call layout resume callee info args)"
  shows "simulates G (Call layout resume callee info args) s a"
proof -
  have call: "call_ok G layout info args" "TransientReserveBytes (FiberStackSize G) + Size layout \<le> Floor G" "as_phase a = Running"
    using ok by auto
  obtain f fs where a: "as_frames a = f # fs" "frame_ok G f" "entry_ok G f" "chain G (ss_memory s) (f # fs)"
    and fp: "fc_fp (ss_control s) = address G (af_fp f)"
    and sp: "dynamicSp (af_info f) \<or> hasSetjmp (af_info f) \<longrightarrow> fc_sp (ss_control s) = address G (af_frontier f)"
    using running_frames [OF rep call(3)] .
  note f = anchor [OF G a(3) fp]
  define c where "c = af_frontier f - Size layout"
  have c: "c + Size layout = af_frontier f" "TransientReserveBytes (FiberStackSize G) \<le> c" "af_frontier f \<le> af_fp f"
    "c + Size layout \<le> FiberStackSize G" "c < FiberStackSize G"
    using call(2) a(2) f(2) by (auto simp: c_def frame_ok_def)
  let ?out = "if dynamicSp (af_info f) then FramePointer G (address G c) else address G (af_fp f) - of_nat (FrameSize (af_info f) + Size layout)"
  have out: "?out = address G c"
  proof (cases "dynamicSp (af_info f)")
    case False
    then have "af_fp f = c + (FrameSize (af_info f) + Size layout)" using a(2) c(1) by (auto simp: frame_ok_def)
    then show ?thesis using False by (simp add: address_back del: of_nat_add)
  qed (simp add: G c(5))
  have fits: "LinkageBytes \<le> Size layout" "FrameAlignment G dvd Size layout" "function_ok G info"
    "\<forall>((offset, bytes, _), a) \<in> set (zip (ArgSlots layout) args). LinkageBytes \<le> offset \<and> offset + bytes \<le> Size layout \<and> argument_size a \<le> bytes"
    using call(1) by (auto simp: call_ok_def arguments_fit_def)
  have calleeFp: "caller_sp (af_info f) s - of_nat (Size layout) = address G c"
    using running_sp [OF G a(2) fp sp] c(1) by (simp add: address_sub c_def)
  let ?m = "StoreCallArguments (address G c) args (ArgSlots layout)
    (store_le (store_le (ss_memory s) (unat (address G (c + SavedFpOffset))) 8 (address G (af_fp f)))
      (unat (address G (c + ReturnRegionIdOffset))) 4 (ucast resume))"
  note m = linkage_stored [OF G c(4) fits(1,4) refl, where m = "ss_memory s" and fp = "address G (af_fp f)" and rid = resume]
  have chain: "chain G ?m (f # fs)" by (rule chain_below [OF a(4,2)]) (use m(3) c(1) in auto)
  have "FrameAlignment G dvd c" using a(2) fits(2) c(1) by (metis frame_ok_def dvd_add_left_iff)
  then have "entry_ok G \<lparr>af_info = info, af_fp = c, af_frontier = c, af_area = Size layout, af_return = resume, af_saved = []\<rparr>"
    using c fits a(3) by (auto simp: entry_ok_def)
  then have "chain G ?m (\<lparr>af_info = info, af_fp = c, af_frontier = c, af_area = Size layout, af_return = resume, af_saved = []\<rparr> # f # fs)"
    using chain a(2) c(1) m(1,2) by (simp add: stored_def link_address_def add.assoc)
  then show ?thesis
    using a(1) f(1) out calleeFp
    by (simp add: simulates_def represents_def SuspendAtCall_def set_control_def set_memory_def Let_def c_def [symmetric])
qed

lemma result_stored:
  assumes "geometry_ok G" and "entry_ok G f"
    and "result \<noteq> [] \<longrightarrow> LinkageBytes \<le> offset \<and> offset + length result \<le> af_area f"
    and "x < link_address G f + LinkageBytes \<or> link_address G f + af_area f \<le> x"
  shows "store_bytes m (unat (address G (af_fp f + offset))) result x = m x"
proof (cases "result = []")
  case False
  then have fits: "LinkageBytes \<le> offset" "offset + length result \<le> af_area f" using assms(3) by auto
  then have "unat (address G (af_fp f + offset)) = link_address G f + offset"
    using assms(2) by (subst unat_address [OF assms(1)]) (auto simp: entry_ok_def link_address_def)
  then show ?thesis using fits assms(4) by (auto simp: store_bytes_def)
qed (auto simp: store_bytes_def)

lemma ucast_region [simp]: "(ucast (ucast (rid :: u32) :: u64) :: u32) = rid"
  by (rule bit_word_eqI) (auto simp: bit_simps)

lemma Return_simulates:
  assumes G: "geometry_ok G" and rep: "represents G s a" and ok: "op_ok G m a (Return result)"
  shows "simulates G (Return result) s a"
proof -
  have run: "as_phase a = Running" using ok by (simp add: Let_def)
  obtain f fs where a: "as_frames a = f # fs" "frame_ok G f" "entry_ok G f" "chain G (ss_memory s) (f # fs)"
    and fp: "fc_fp (ss_control s) = address G (af_fp f)"
    using running_frames [OF rep run] by metis
  note f = anchor [OF G a(3) fp]
  let ?m = "store_bytes (ss_memory s) (unat (address G (af_fp f + ResultOffset (af_info f)))) result"
  have same: "?m x = ss_memory s x" if "x < link_address G f + LinkageBytes \<or> link_address G f + af_area f \<le> x" for x
    using result_stored [OF G a(3) _ that] ok a(1) by (simp add: Let_def)
  have area: "LinkageBytes \<le> af_area f" "af_fp f + af_area f \<le> FiberStackSize G" using a(3) by (auto simp: entry_ok_def)
  have link: "unat (address G (af_fp f + SavedFpOffset)) = link_address G f" "unat (address G (af_fp f + ReturnRegionIdOffset)) = link_address G f + 8"
    using area by (subst unat_address [OF G]; simp add: linkage_defs link_address_def)+
  have "load_le ?m (link_address G f) 8 = load_le (ss_memory s) (link_address G f) 8"
    "load_le ?m (link_address G f + 8) 4 = load_le (ss_memory s) (link_address G f + 8) 4"
    by (rule load_le_cong, rule same, simp add: LinkageBytes_def)+
  then have loads: "load_le ?m (link_address G f) 8 = parent_fp G fs" "load_le ?m (link_address G f + 8) 4 = ucast (af_return f)"
    using a(4) by (auto simp: stored_def)
  have chain: "chain G ?m fs \<and> phase_ok G (address G (af_fp f + LinkageBytes)) fs (Returned (af_area f))"
  proof (cases fs)
    case (Cons g gs)
    then have g: "frame_ok G g" "af_fp f + af_area f = af_frontier g" "chain G (ss_memory s) (g # gs)" using a(4) by auto
    have "chain G ?m (g # gs)" by (rule chain_below [OF g(3,1)]) (use g(2) in \<open>auto intro: same simp: link_address_def\<close>)
    then show ?thesis using g(1,2) area(1) by (simp add: Cons flip: g(2))
  qed simp
  then show ?thesis using a(1) f(1) link loads
    by (simp add: simulates_def represents_def LowerReturn_def set_control_def set_memory_def Let_def)
qed

lemma Resume_simulates:
  assumes G: "geometry_ok G" and rep: "represents G s a" and ok: "op_ok G m a (Resume layout)"
  shows "simulates G (Resume layout) s a"
proof -
  obtain f fs where a: "as_frames a = f # fs" using ok by (cases "as_frames a") auto
  have r: "frame_ok G f" "LinkageBytes \<le> Size layout" "Size layout \<le> af_frontier f"
      "fc_sp (ss_control s) = address G (af_frontier f - Size layout + LinkageBytes)" "fc_fp (ss_control s) = address G (af_fp f)"
    using rep ok a by (auto simp: represents_def)
  obtain n where "af_frontier f = n + Size layout" using r(3) by (metis le_add_diff_inverse2)
  then have "fc_sp (ss_control s) - of_nat LinkageBytes + of_nat (Size layout) = address G (af_frontier f)"
    by (simp add: r(4) address_back)
  moreover have "fc_fp (ss_control s) - of_nat (FrameSize (af_info f)) = address G (af_frontier f)" if "\<not> dynamicSp (af_info f)"
    using that r(1) address_back [of G "af_frontier f" "FrameSize (af_info f)"] by (simp add: frame_ok_def r(5))
  ultimately show ?thesis using rep a r(1)
    by (auto simp: simulates_def represents_def resume_call_def set_control_def Let_def)
qed

subsection \<open>Writes to the running frame\<close>

lemma frame_slot_address:
  assumes "geometry_ok G" and "frame_ok G f" and "entry_ok G f" and "fc_fp (ss_control s) = address G (af_fp f)"
    and "slot \<le> FrameSize (af_info f)"
  shows "frame_slot G (af_info f) slot s = slot_address G f slot"
proof -
  have le: "FrameSize (af_info f) \<le> af_fp f" using assms(2) by (simp add: frame_ok_def)
  have "address G (af_fp f + slot) - of_nat (FrameSize (af_info f)) = address G (af_fp f - FrameSize (af_info f) + slot)"
    using le by (subst address_sub) simp_all
  moreover have "af_fp f - FrameSize (af_info f) + slot \<le> FiberStackSize G"
    using anchor(2) [OF assms(1,3,4)] assms(5) le by simp
  ultimately show ?thesis
    by (simp add: frame_slot_def anchor(1) [OF assms(1,3,4)] unat_address [OF assms(1)] slot_address_def)
qed

lemma chain_write:
  assumes "chain G m (f # fs)" and "frame_ok G f" and "slot + n \<le> FrameSize (af_info f)" and "avoids G [f] (slot_address G f slot) n"
  shows "chain G (store_le m (slot_address G f slot) n v) (f # fs)"
proof -
  have "store_le m (slot_address G f slot) n v x = m x" if g: "g \<in> set (f # fs)" "x \<in> protected_words G g" for g x
  proof (cases "g = f")
    case True
    then show ?thesis using assms(4) g(2) by (intro store_le_other) (auto simp: avoids_def)
  next
    case False
    then have "frame_ok G g" "af_fp f + af_area f \<le> af_frontier g" using g(1) chain_frames [OF assms(1), of g] by auto
    then show ?thesis using protected_above(1) [OF _ g(2)] slot_inside(2) [OF assms(2,3)]
      by (intro store_le_other) (auto simp: link_address_def)
  qed
  then show ?thesis using assms(1) chain_cong [of "f # fs" G _ m] by blast
qed

lemma chain_frontier [simp]: "chain G m (f\<lparr>af_frontier := v\<rparr> # fs) = chain G m (f # fs)"
  by (cases fs) simp_all

lemma carved_frontier:
  assumes G: "geometry_ok G" and "isPowerOf2_64 align" and "align \<le> FiberStackSize G" and "offset < FiberStackSize G"
  shows "address G offset AND NOT (of_nat (align - 1)) = address G (offset div align * align)"
proof -
  obtain k where k: "align = 2 ^ k" using assms(2) by (auto simp: isPowerOf2_64_def)
  have "align dvd FiberStackSize G" using assms(2,3) G by (auto simp: geometry_ok_def intro: power_le_dvd)
  then have dvd: "align dvd slice_base G" using geometry_okD(2) [OF G] by (rule dvd_trans)
  have "(of_nat (align - 1) :: u64) = mask k" by (simp add: k mask_eq_exp_minus_1 of_nat_diff)
  then have "unat (address G offset AND NOT (of_nat (align - 1))) = (slice_base G + offset) div align * align"
    using assms(4) by (simp add: unat_and_not_mask unat_address [OF G] k)
  also have "\<dots> = slice_base G + offset div align * align"
    using dvd by (auto elim!: dvdE simp: algebra_simps k)
  also have "\<dots> = unat (address G (offset div align * align))"
    using assms(4) div_times_less_eq_dividend [of offset align] by (intro unat_address [OF G, symmetric]) linarith
  finally show ?thesis by (simp only: word_unat_eq_iff)
qed

lemma carve_request:
  assumes G: "geometry_ok G" and "elem \<noteq> 0" and "align \<le> FiberStackSize G" and "offset < FiberStackSize G"
    and "unat count \<le> FiberStackSize G div elem"
  shows "count * of_nat elem = (of_nat (unat count * elem) :: u64)"
    and "of_nat offset < count * of_nat elem + of_nat (align - 1) + of_nat (Floor G) \<longleftrightarrow> offset < unat count * elem + (align - 1) + Floor G"
proof -
  show need: "count * of_nat elem = (of_nat (unat count * elem) :: u64)" by simp
  have "unat count * elem \<le> FiberStackSize G"
    using assms(5) div_times_less_eq_dividend [of "FiberStackSize G" elem] by (meson le_trans mult_le_mono1)
  then have "unat count * elem + (align - 1) + Floor G \<le> 8388608" "offset \<le> 8388608"
    using assms(3,4) geometry_okD(3,5,6) [OF G] by linarith+
  then have "(of_nat offset :: u64) < of_nat (unat count * elem + (align - 1) + Floor G) \<longleftrightarrow> offset < unat count * elem + (align - 1) + Floor G"
    by (intro small_less)
  then show "of_nat offset < count * of_nat elem + of_nat (align - 1) + of_nat (Floor G) \<longleftrightarrow> offset < unat count * elem + (align - 1) + Floor G"
    unfolding need by (simp only: of_nat_add)
qed

lemma running_simulates:
  assumes G: "geometry_ok G" and rep: "represents G s a" and run: "as_phase a = Running"
    and step: "\<And>f fs. as_frames a = f # fs \<Longrightarrow> frame_ok G f \<Longrightarrow> entry_ok G f \<Longrightarrow> chain G (ss_memory s) (f # fs) \<Longrightarrow>
      fc_fp (ss_control s) = address G (af_fp f) \<Longrightarrow>
      (dynamicSp (af_info f) \<or> hasSetjmp (af_info f) \<Longrightarrow> fc_sp (ss_control s) = address G (af_frontier f)) \<Longrightarrow>
      (\<And>slot. slot \<le> FrameSize (af_info f) \<Longrightarrow> frame_slot G (af_info f) slot s = slot_address G f slot) \<Longrightarrow>
      fc_resume_region_id (ss_control s) = as_region a \<Longrightarrow> simulates G op s a"
  shows "simulates G op s a"
proof -
  obtain f fs where a: "as_frames a = f # fs" "frame_ok G f" "entry_ok G f" "chain G (ss_memory s) (f # fs)"
    "fc_fp (ss_control s) = address G (af_fp f)"
    "dynamicSp (af_info f) \<or> hasSetjmp (af_info f) \<longrightarrow> fc_sp (ss_control s) = address G (af_frontier f)"
    using running_frames [OF rep run] .
  show ?thesis by (rule step [OF a(1-5)]) (use a(6) frame_slot_address [OF G a(2,3,5)] rep in \<open>auto simp: represents_def\<close>)
qed

lemma carve_frame_ok:
  assumes "geometry_ok G" and "frame_ok G f" and "dynamicSp (af_info f)" and "need + (align - 1) + Floor G \<le> af_frontier f"
    and "isPowerOf2_64 align" and "FrameAlignment G \<le> align"
  shows "frame_ok G (f\<lparr>af_frontier := (af_frontier f - need) div align * align\<rparr>)"
proof -
  let ?v = "(af_frontier f - need) div align * align"
  have pos: "0 < align" using assms(5) by (auto simp: isPowerOf2_64_def)
  have "af_frontier f - need = ?v + (af_frontier f - need) mod align" by simp
  moreover have "(af_frontier f - need) mod align < align" using pos by simp
  ultimately have v: "Floor G \<le> ?v" "?v \<le> af_frontier f" using assms(4) by linarith+
  have "FrameAlignment G dvd align" using assms(1,5,6) by (auto simp: geometry_ok_def intro: power_le_dvd)
  then have "FrameAlignment G dvd ?v" by simp
  then show ?thesis using v assms(2,3) by (auto simp: frame_ok_def)
qed

lemma Carve_simulates:
  assumes G: "geometry_ok G" and rep: "represents G s a" and ok: "op_ok G m a (Carve handle elem alignment count)"
  shows "simulates G (Carve handle elem alignment count) s a"
proof (rule running_simulates [OF G rep])
  show "as_phase a = Running" using ok by (simp add: Let_def)
next
  fix f fs
  assume a: "as_frames a = f # fs" and f: "frame_ok G f" "entry_ok G f" and chain: "chain G (ss_memory s) (f # fs)"
    and fp: "fc_fp (ss_control s) = address G (af_fp f)"
    and sp: "dynamicSp (af_info f) \<or> hasSetjmp (af_info f) \<Longrightarrow> fc_sp (ss_control s) = address G (af_frontier f)"
    and slot: "\<And>slot. slot \<le> FrameSize (af_info f) \<Longrightarrow> frame_slot G (af_info f) slot s = slot_address G f slot"
    and region: "fc_resume_region_id (ss_control s) = as_region a"
  define align where "align = max (FrameAlignment G) alignment"
  have ok': "as_phase a = Running" "dynamicSp (af_info f)" "isPowerOf2_64 align" "align \<le> FiberStackSize G"
    "handle + 8 \<le> FrameSize (af_info f)" "avoids G [f] (slot_address G f handle) 8"
    using ok a by (auto simp: Let_def align_def)
  have frontier: "af_frontier f < FiberStackSize G" using f(1) anchor(2) [OF G f(2) fp] by (simp add: frame_ok_def)
  have handle: "\<And>c. frame_slot G (af_info f) handle (s\<lparr>ss_control := (ss_control s)\<lparr>fc_sp := c\<rparr>\<rparr>) = slot_address G f handle"
    "frame_slot G (af_info f) handle s = slot_address G f handle"
    using slot ok'(5) by (auto simp: frame_slot_def LoadFrameAnchor_def)
  note writes = chain_write [OF chain f(1) ok'(5,6)]
  have "FiberStackSize G div elem < 18446744073709551616"
    using geometry_okD(3) [OF G] div_le_dividend [of "FiberStackSize G" elem] by linarith
  then have many: "(of_nat (FiberStackSize G div elem) :: u64) < count \<longleftrightarrow> FiberStackSize G div elem < unat count"
    by (simp add: word_less_nat_alt unat_of_nat_small)
  have stop: "simulates G (Carve handle elem alignment count) s a"
    if "run_op G (af_info f) (Carve handle elem alignment count) s = (Some ActionStop, EmitAbort CAPSULE_ERROR_STACK_OVERFLOW s)"
      and "spec_op G (Carve handle elem alignment count) a = (Some ActionStop, a)"
    using that rep a by (simp add: simulates_def represents_def EmitAbort_def store_outcome_def set_control_def)
  consider "elem = 0" | "elem \<noteq> 0" "FiberStackSize G div elem < unat count"
    | "elem \<noteq> 0" "unat count \<le> FiberStackSize G div elem" by linarith
  then show "simulates G (Carve handle elem alignment count) s a"
  proof cases
    case 1
    then show ?thesis using a writes f(1) fp sp ok'(1) region handle
      by (simp add: simulates_def represents_def LowerDynamicAlloca_def set_memory_def Let_def)
  next
    case 2
    then show ?thesis using a many by (intro stop) (simp_all add: LowerDynamicAlloca_def Let_def)
  next
    case 3
    note request = carve_request [OF G 3(1) ok'(4) frontier 3(2)]
    have sp': "fc_sp (ss_control s) = address G (af_frontier f)" using sp ok'(2) by simp
    show ?thesis
    proof (cases "af_frontier f < unat count * elem + (align - 1) + Floor G")
      case True
      then show ?thesis using a 3 many request(2) sp' SliceOffset_address [OF G frontier]
        by (intro stop) (simp_all add: LowerDynamicAlloca_def Let_def align_def [symmetric])
    next
      case False
      let ?v = "(af_frontier f - unat count * elem) div align * align"
      have le: "unat count * elem \<le> af_frontier f" using False by simp
      have "address G (af_frontier f) - count * of_nat elem = address G (af_frontier f - unat count * elem)"
        unfolding request(1) using le by (rule address_sub)
      then have v: "(address G (af_frontier f) - count * of_nat elem) AND NOT (of_nat (align - 1)) = address G ?v"
        using carved_frontier [OF G ok'(3,4), of "af_frontier f - unat count * elem"] frontier by simp
      have "frame_ok G (f\<lparr>af_frontier := ?v\<rparr>)"
        using False ok'(2,3) by (intro carve_frame_ok [OF G f(1)]) (simp_all add: align_def)
      then show ?thesis using a 3 many request(2) sp' SliceOffset_address [OF G frontier] False v writes fp ok'(1) region handle(1)
        by (simp add: simulates_def represents_def LowerDynamicAlloca_def set_memory_def set_control_def Let_def align_def [symmetric]
            del: chain.simps)
    qed
  qed
qed

lemma chain_head:
  assumes "chain G m (f # fs)" and "entry_ok G f'" and "stored G m' f' (parent_fp G fs)"
    and "af_fp f' = af_fp f" "af_area f' = af_area f" "af_return f' = af_return f"
    and "\<And>g x. g \<in> set fs \<Longrightarrow> x \<in> protected_words G g \<Longrightarrow> m' x = m x"
  shows "chain G m' (f' # fs)"
proof -
  have "chain G m' fs" using assms(1,7) chain_cong [of fs G m' m] by simp
  then show ?thesis using assms(1-6) by (cases fs) simp_all
qed

lemma protected_callers:
  assumes "chain G m (f # fs)" and "g \<in> set fs" and "x \<in> protected_words G g"
  shows "link_address G f + LinkageBytes \<le> x"
proof -
  have "entry_ok G f" using assms(1) by simp
  moreover have "frame_ok G g" "af_fp f + af_area f \<le> af_frontier g" using chain_frames [OF assms(1,2)] by auto
  ultimately show ?thesis using protected_above(1) [OF _ assms(3)] by (auto simp: entry_ok_def link_address_def)
qed

lemma Save_simulates:
  assumes G: "geometry_ok G" and rep: "represents G s a" and ok: "op_ok G m a (Save slot)"
  shows "simulates G (Save slot) s a"
proof (rule running_simulates [OF G rep])
  show "as_phase a = Running" using ok by (simp add: Let_def)
next
  fix f fs
  assume a: "as_frames a = f # fs" and f: "frame_ok G f" "entry_ok G f" and chain: "chain G (ss_memory s) (f # fs)"
    and fp: "fc_fp (ss_control s) = address G (af_fp f)"
    and sp: "dynamicSp (af_info f) \<or> hasSetjmp (af_info f) \<Longrightarrow> fc_sp (ss_control s) = address G (af_frontier f)"
    and slot: "\<And>slot. slot \<le> FrameSize (af_info f) \<Longrightarrow> frame_slot G (af_info f) slot s = slot_address G f slot"
    and region: "fc_resume_region_id (ss_control s) = as_region a"
  have ok': "dynamicSp (af_info f)" "slot + 8 \<le> FrameSize (af_info f)" "as_phase a = Running"
    "\<And>o' v. (o', v) \<in> set (af_saved f) \<Longrightarrow> o' \<noteq> slot \<Longrightarrow> o' + 8 \<le> slot \<or> slot + 8 \<le> o'"
    using ok a by (auto simp: Let_def)
  let ?saved = "(slot, af_frontier f) # filter (\<lambda>(o', _). o' \<noteq> slot) (af_saved f)"
  let ?m = "store_le (ss_memory s) (slot_address G f slot) 8 (address G (af_frontier f))"
  note inside = slot_inside [OF f(1) ok'(2)]
  have "load_le ?m (slot_address G f o') 8 = load_le (ss_memory s) (slot_address G f o') 8"
    if "(o', v) \<in> set (af_saved f)" "o' \<noteq> slot" for o' v
    using ok'(4) [OF that] by (intro load_store_other) (auto simp: slot_address_def)
  then have stored: "stored G ?m (f\<lparr>af_saved := ?saved\<rparr>) (parent_fp G fs)"
    using chain inside by (auto simp: stored_def load_store_other load_store_same take_bit_word_self)
  have callers: "?m x = ss_memory s x" if "g \<in> set fs" "x \<in> protected_words G g" for g x
    using protected_callers [OF chain that] inside(2) by (intro store_le_other) simp
  have "chain G ?m (f\<lparr>af_saved := ?saved\<rparr> # fs)"
    by (rule chain_head [OF chain _ stored _ _ _ callers]) (use f(2) in simp_all)
  moreover have "frame_ok G (f\<lparr>af_saved := ?saved\<rparr>)" using f(1) ok'(2) by (auto simp: frame_ok_def)
  ultimately show "simulates G (Save slot) s a"
    using a fp sp region ok'(1-3) slot [of slot]
    by (simp add: simulates_def represents_def stack_save_def set_memory_def Let_def del: chain.simps)
qed

lemma lifted_frame:
  assumes "chain G m (f # fs)" and "frame_ok G f" and "af_frontier f \<le> v" and "v + FrameSize (af_info f) \<le> af_fp f"
    and "FrameAlignment G dvd v"
  shows "chain G m (lift_frontier v f # fs)" and "frame_ok G (lift_frontier v f)"
proof -
  have "stored G m (lift_frontier v f) (parent_fp G fs)" "entry_ok G (lift_frontier v f)"
    using assms(1) by (auto simp: stored_def lift_frontier_def link_address_def slot_address_def entry_ok_def)
  then show "chain G m (lift_frontier v f # fs)" by (intro chain_head [OF assms(1)]) (auto simp: lift_frontier_def)
  show "frame_ok G (lift_frontier v f)" using assms(2-5) by (auto simp: frame_ok_def lift_frontier_def)
qed

lemma lift_frontier_simps [simp]:
  "af_fp (lift_frontier v f) = af_fp f" "af_info (lift_frontier v f) = af_info f" "af_frontier (lift_frontier v f) = v"
  by (simp_all add: lift_frontier_def)

lemma Restore_simulates:
  assumes G: "geometry_ok G" and rep: "represents G s a" and ok: "op_ok G m a (Restore slot)"
  shows "simulates G (Restore slot) s a"
proof (rule running_simulates [OF G rep])
  show "as_phase a = Running" using ok by (simp add: Let_def)
next
  fix f fs
  assume a: "as_frames a = f # fs" and f: "frame_ok G f" "entry_ok G f" and chain: "chain G (ss_memory s) (f # fs)"
    and fp: "fc_fp (ss_control s) = address G (af_fp f)"
    and slot: "\<And>slot. slot \<le> FrameSize (af_info f) \<Longrightarrow> frame_slot G (af_info f) slot s = slot_address G f slot"
    and region: "fc_resume_region_id (ss_control s) = as_region a"
  have ok': "dynamicSp (af_info f)" "slot \<in> fst ` set (af_saved f)" "as_phase a = Running" using ok a by (auto simp: Let_def)
  then obtain v where v: "map_of (af_saved f) slot = Some v" by (cases "map_of (af_saved f) slot") (auto simp: map_of_eq_None_iff)
  then have mem: "(slot, v) \<in> set (af_saved f)" by (rule map_of_SomeD)
  then have bounds: "slot + 8 \<le> FrameSize (af_info f)" "af_frontier f \<le> v" "v + FrameSize (af_info f) \<le> af_fp f" "FrameAlignment G dvd v"
    using f(1) by (auto simp: frame_ok_def)
  have "load_le (ss_memory s) (slot_address G f slot) 8 = address G v" using chain mem by (auto simp: stored_def)
  then show "simulates G (Restore slot) s a"
    using a fp region ok'(1,3) slot [of slot] bounds(1) v lifted_frame [OF chain f(1) bounds(2-4)]
    by (simp add: simulates_def represents_def stack_restore_def set_control_def Let_def del: chain.simps)
qed

subsection \<open>Jumps\<close>

lemma chain_avoid:
  assumes "chain G m fs" and "avoids G fs a n" and "a \<le> b" and "b + k \<le> a + n"
  shows "chain G (store_le m b k v) fs"
proof -
  have "store_le m b k v x = m x" if "f \<in> set fs" "x \<in> protected_words G f" for f x
    using assms(2-4) that by (intro store_le_other) (fastforce simp: avoids_def)
  then show ?thesis using assms(1) chain_cong [of fs G _ m] by blast
qed

lemma jump_field:
  assumes "unat env + 32 < 2 ^ 64" and "n \<le> 24"
  shows "unat (env + of_nat n) = unat (env :: u64) + n"
proof -
  have "unat (of_nat n :: u64) = n" using assms(2) by (intro unat_of_nat_small) simp
  then show ?thesis using assms by (simp add: unat_plus_if')
qed

lemma Setjmp_simulates:
  assumes G: "geometry_ok G" and rep: "represents G s a" and ok: "op_ok G m a (Setjmp slot resume env)"
  shows "simulates G (Setjmp slot resume env) s a"
proof (rule running_simulates [OF G rep])
  show "as_phase a = Running" using ok by (simp add: Let_def)
next
  fix f fs
  assume a: "as_frames a = f # fs" and f: "frame_ok G f" and chain: "chain G (ss_memory s) (f # fs)"
    and fp: "fc_fp (ss_control s) = address G (af_fp f)"
    and sp: "dynamicSp (af_info f) \<or> hasSetjmp (af_info f) \<Longrightarrow> fc_sp (ss_control s) = address G (af_frontier f)"
    and slot: "\<And>slot. slot \<le> FrameSize (af_info f) \<Longrightarrow> frame_slot G (af_info f) slot s = slot_address G f slot"
    and region: "fc_resume_region_id (ss_control s) = as_region a"
  have ok': "slot + 4 \<le> FrameSize (af_info f)" "avoids G [f] (slot_address G f slot) 4" "avoids G (f # fs) (unat env) 32"
    "unat env + 32 < 2 ^ 64" "as_phase a = Running"
    using ok a by (auto simp: Let_def)
  note field = jump_field [OF ok'(4)]
  note writes = chain_avoid [OF _ ok'(3)]
  show "simulates G (Setjmp slot resume env) s a"
    using a fp sp region ok'(5) f slot [of slot] ok'(1)
      writes [OF writes [OF writes [OF writes [OF chain_write [OF chain f ok'(1,2)]]]]]
    by (simp add: simulates_def represents_def LowerSetjmp_def set_memory_def Let_def field jump_defs del: chain.simps of_nat_numeral)
qed

lemma chain_drop: "chain G m fs \<Longrightarrow> chain G m (drop n fs)"
proof (induction n arbitrary: fs)
  case (Suc n)
  then show ?case by (cases fs) auto
qed simp

lemma Longjmp_simulates:
  assumes G: "geometry_ok G" and rep: "represents G s a" and ok: "op_ok G (ss_memory s) a (Longjmp env v depth frontier region)"
  shows "simulates G (Longjmp env v depth frontier region) s a"
proof -
  define result where "result = unat (load_le (ss_memory s) (unat (env + of_nat JumpResultOffset)) 8)"
  obtain f fs where d: "drop depth (as_frames a) = f # fs" using ok by (cases "drop depth (as_frames a)") (auto simp: Let_def)
  have ok': "as_phase a = Running" "hasSetjmp (af_info f)" "af_frontier f \<le> frontier" "frontier + FrameSize (af_info f) \<le> af_fp f"
    "FrameAlignment G dvd frontier" "load_le (ss_memory s) (unat env) 4 = ucast region"
    "load_le (ss_memory s) (unat env + 8) 8 = address G frontier" "load_le (ss_memory s) (unat env + 16) 8 = address G (af_fp f)"
    "unat env + 32 < 2 ^ 64" "avoids G (f # fs) result 4" "result + 4 \<le> unat env \<or> unat env + 24 \<le> result"
    using ok d jump_field [of env 8] jump_field [of env 16]
    by (simp_all add: Let_def jump_defs result_def)
  note field = jump_field [OF ok'(9)]
  define m where "m = store_le (ss_memory s) result 4 (ucast (if v = 0 then 1 else v))"
  have chain: "chain G m (f # fs)" unfolding m_def
    using rep d chain_drop [of G "ss_memory s" "as_frames a" depth] by (intro chain_avoid [OF _ ok'(10)]) (auto simp: represents_def simp del: chain.simps)
  have frame: "frame_ok G f"
  proof (cases depth)
    case 0
    then show ?thesis using rep d ok'(1) by (simp add: represents_def)
  next
    case (Suc n)
    have "f \<in> set (tl (as_frames a))" using d Suc by (metis drop_Suc in_set_dropD list.set_intros(1))
    then show ?thesis using rep chain_frames [of G "ss_memory s" "hd (as_frames a)" "tl (as_frames a)" f]
      by (cases "as_frames a") (auto simp: represents_def simp del: chain.simps)
  qed
  have "load_le m (unat env) 4 = ucast region" "load_le m (unat env + 8) 8 = address G frontier"
    "load_le m (unat env + 16) 8 = address G (af_fp f)"
    using ok'(6-8,11) by (auto simp: load_store_other m_def)
  then have "LowerLongjmp env v s = (ActionContinue, set_control ((ss_control s)\<lparr>fc_sp := address G frontier, fc_fp := address G (af_fp f),
      fc_resume_region_id := region\<rparr>) (set_memory m s))"
    unfolding LowerLongjmp_def Let_def result_def [symmetric] m_def [symmetric]
    using field [of 0] field [of 8] field [of 16] by (simp add: jump_defs)
  then show ?thesis using d ok'(1,2) lifted_frame [OF chain frame ok'(3-5)]
    by (simp add: simulates_def represents_def set_memory_def set_control_def Let_def del: chain.simps)
qed

section \<open>Runs\<close>

lemma op_simulates:
  assumes "geometry_ok G" and "represents G s a" and "op_ok G (ss_memory s) a op"
  shows "simulates G op s a"
proof (cases op)
  case Enter
  then show ?thesis using assms Enter_simulates by blast
next
  case (Call layout resume callee info args)
  then show ?thesis using assms Call_simulates by blast
next
  case (Return result)
  then show ?thesis using assms Return_simulates by blast
next
  case (Resume layout)
  then show ?thesis using assms Resume_simulates by blast
next
  case (Carve handle elem alignment count)
  then show ?thesis using assms Carve_simulates by blast
next
  case (Save slot)
  then show ?thesis using assms Save_simulates by blast
next
  case (Restore slot)
  then show ?thesis using assms Restore_simulates by blast
next
  case (Setjmp slot resume env)
  then show ?thesis using assms Setjmp_simulates by blast
next
  case (Longjmp env v depth frontier region)
  then show ?thesis using assms Longjmp_simulates by blast
qed (use assms Backedge_simulates Yield_simulates Body_simulates in blast)+

definition entered :: "stack_geometry \<Rightarrow> managed_call_layout \<Rightarrow> frame_info \<Rightarrow> u32 \<Rightarrow> astack" where
  "entered G layout info entryRegionId =
     \<lparr>as_frames = [\<lparr>af_info = info, af_fp = Root G, af_frontier = Root G, af_area = Size layout,
        af_return = BPF_CAPSULE_REGION_ID_DONE, af_saved = []\<rparr>], as_phase = Entering, as_region = entryRegionId\<rparr>"

lemma entry_represents:
  assumes G: "geometry_ok G" and "call_ok G layout info args" and "Root G + Size layout \<le> FiberStackSize G"
  shows "represents G (RewriteEntryCall G layout returnSize entryRegionId args s) (entered G layout info entryRegionId)"
proof -
  have fits: "LinkageBytes \<le> Size layout" "function_ok G info"
    "\<forall>((offset, bytes, _), a) \<in> set (zip (ArgSlots layout) args). LinkageBytes \<le> offset \<and> offset + bytes \<le> Size layout \<and> argument_size a \<le> bytes"
    using assms(2) by (auto simp: call_ok_def arguments_fit_def)
  have root: "StackPtr G (of_nat (Root G)) = address G (Root G)"
    using geometry_okD(6) [OF G] by (intro StackPtr_root [OF G]) simp
  have "entry_ok G \<lparr>af_info = info, af_fp = Root G, af_frontier = Root G, af_area = Size layout,
      af_return = BPF_CAPSULE_REGION_ID_DONE, af_saved = []\<rparr>"
    using geometry_okD(5,8,10) [OF G] fits(1,2) assms(3) by (simp add: entry_ok_def)
  with linkage_stored(1,2) [OF G assms(3) fits(1,3) refl, where m = "ss_memory s" and fp = 0 and rid = BPF_CAPSULE_REGION_ID_DONE]
  show ?thesis
    by (simp add: represents_def entered_def RewriteEntryCall_def set_control_def set_memory_def store_outcome_def Let_def root
        stored_def link_address_def)
qed

text \<open>The states a fiber goes through from its entry, with the list of frames beside them: bodies do what they
  like to memory as long as they spare the protected words.\<close>

inductive managed_run :: "stack_geometry \<Rightarrow> stack_state \<Rightarrow> astack \<Rightarrow> bool" for G where
  entry: "call_ok G layout info args \<Longrightarrow> Root G + Size layout \<le> FiberStackSize G \<Longrightarrow>
    managed_run G (RewriteEntryCall G layout returnSize entryRegionId args s) (entered G layout info entryRegionId)"
| step: "managed_run G s a \<Longrightarrow> op_ok G (ss_memory s) a op \<Longrightarrow>
    managed_run G (snd (run_op G (af_info (hd (as_frames a))) op s)) (snd (spec_op G op a))"

lemma run_represents: "managed_run G s a \<Longrightarrow> geometry_ok G \<Longrightarrow> represents G s a"
proof (induction rule: managed_run.induct)
  case (entry layout info args returnSize entryRegionId s)
  then show ?case by (intro entry_represents)
next
  case (step s a op)
  then show ?case using op_simulates [of G s a op] by (simp add: simulates_def)
qed

text \<open>The frames keep apart, above the transient reserve and inside the fiber's slice.\<close>

definition frames_apart :: "stack_geometry \<Rightarrow> aframe list \<Rightarrow> bool" where
  "frames_apart G fs \<longleftrightarrow>
     sorted_wrt (\<lambda>f g. af_fp f + af_area f \<le> af_frontier g) fs \<and>
     (\<forall>f \<in> set fs. TransientReserveBytes (FiberStackSize G) \<le> af_frontier f \<and> af_frontier f \<le> af_fp f \<and>
        af_fp f + af_area f \<le> FiberStackSize G)"

lemma chain_sorted: "chain G m fs \<Longrightarrow> sorted_wrt (\<lambda>f g. af_fp f + af_area f \<le> af_frontier g) fs"
proof (induction fs)
  case (Cons f fs)
  then show ?case using chain_frames [OF Cons.prems] by simp
qed simp

lemma represents_apart:
  assumes G: "geometry_ok G" and "represents G s a"
  shows "frames_apart G (as_frames a)"
proof (cases "as_frames a")
  case (Cons f fs)
  have chain: "chain G (ss_memory s) (f # fs)" and phase: "phase_ok G (fc_sp (ss_control s)) (f # fs) (as_phase a)"
    using assms(2) by (auto simp: represents_def Cons)
  have "TransientReserveBytes (FiberStackSize G) \<le> af_frontier f \<and> af_frontier f \<le> af_fp f"
    using chain phase geometry_okD(8) [OF G] by (cases "as_phase a") (auto simp: entry_ok_def frame_ok_def)
  moreover have "af_fp f + af_area f \<le> FiberStackSize G" using chain by (simp add: entry_ok_def)
  moreover have "TransientReserveBytes (FiberStackSize G) \<le> af_frontier g \<and> af_frontier g \<le> af_fp g \<and> af_fp g + af_area g \<le> FiberStackSize G"
    if "g \<in> set fs" for g
    using chain_frames [OF chain that] geometry_okD(8) [OF G] by (auto simp: entry_ok_def frame_ok_def)
  ultimately show ?thesis using chain_sorted [OF chain] by (auto simp: frames_apart_def Cons)
qed (simp add: frames_apart_def)

text \<open>The geometry of a module's plan, for a bank of stacks in memory.\<close>

definition planned_geometry :: "nat \<Rightarrow> frame_plan \<Rightarrow> bool \<Rightarrow> u64 \<Rightarrow> u32 \<Rightarrow> u32 \<Rightarrow> stack_geometry" where
  "planned_geometry F P arena bank count fiber =
     \<lparr>ArenaTier = arena, StackBank = bank, FiberCount = count, FiberStackSize = F, FrameAlignment = fp_alignment P,
      Floor = ReserveFloor P, Root = RootFp P, Fiber = fiber\<rparr>"

text \<open>Every area of a plan holds at least the linkage.\<close>

lemma plan_linkage:
  assumes "ComputeFrameLayout F M = Inr P" and "F < 2 ^ 63" and "l \<in> set (fp_calls P @ fp_roots P)"
  shows "LinkageBytes \<le> Size l"
proof -
  note P = ComputeFrameLayout_cases [OF assms(1,2)]
  obtain c where c: "LayoutCall F (fp_alignment P) (fst c) (snd c) = Inr l"
    using layout_calls_member [OF P(4)] layout_frames_members [OF P(3)] assms(3) by fastforce
  have "16 \<le> F" using frame_alignment_ge(1) [OF P(1)] P(6) by linarith
  then have "LinkageBytes \<le> ArgsEnd l" "ReserveFrameBytes F (ArgsEnd l) 0 (fp_alignment P) = Inr (Size l, Size l)"
    using LayoutCall_placed [OF assms(2) _ c] placed_sound [of LinkageBytes "call_slots l" "ArgsEnd l" 0] by auto
  then show ?thesis using assms(2) P(5)
    by (auto simp: reserve_iff isPowerOf2_64_def intro: order_trans [OF _ align_to_ge])
qed

lemma planned_geometry_ok:
  assumes "ConfigureStackGeometry stackBytes = Some F" and "ComputeFrameLayout F M = Inr P"
    and "F dvd unat bank" and "bank \<noteq> 0" and "unat bank + unat count * F < 2 ^ 64" and "fiber < count"
  shows "geometry_ok (planned_geometry F P arena bank count fiber)"
proof -
  let ?G = "planned_geometry F P arena bank count fiber"
  have F: "isPowerOf2_64 F" "F \<le> MaxFiberStackBytes" "F < 2 ^ 63"
    using assms(1) by (auto simp: ConfigureStackGeometry_def MaxFiberStackBytes_def split: if_splits)
  note P = ComputeFrameLayout_cases [OF assms(2) F(3)]
  note sound = plan_boundaries [OF assms(2) F(1,3)]
  have "NormalizeFiber count fiber = fiber" using assms(6) by (rule NormalizeFiber_id)
  then have base: "slice_base ?G = unat bank + unat fiber * F" by (simp add: slice_base_def planned_geometry_def)
  have "unat fiber + 1 \<le> unat count" using assms(6) by (simp add: word_less_nat_alt)
  then have "(unat fiber + 1) * F \<le> unat count * F" by (rule mult_le_mono1)
  then have top: "slice_base ?G + F < 2 ^ 64" using base assms(5) by simp
  have "fp_roots P \<noteq> []" using P(9) by (auto simp: max_of_def)
  then obtain l where l: "l \<in> set (fp_roots P)" by (cases "fp_roots P") auto
  have A: "16 \<le> fp_alignment P" using frame_alignment_ge(1) [OF P(1)] .
  have "LinkageBytes \<le> Size l" using plan_linkage [OF assms(2) F(3)] l by simp
  then have "RootFp P + LinkageBytes \<le> F" using sound(4) [OF l] by linarith
  moreover have "TransientReserveBytes F \<le> ReserveFloor P"
    using P(5,7) align_to_ge [of "fp_alignment P" "F div 2 + max_of (map Size (fp_calls P))"]
    by (auto simp: isPowerOf2_64_def TransientReserveBytes_def)
  ultimately show ?thesis using F(1,2) assms(3,4) P(5,6,10) A sound(2) top base
    by (auto simp: geometry_ok_def planned_geometry_def slice_base_def unat_gt_0)
qed

text \<open>The calls of the plan are ones the running function may make, with arguments of their slots' sizes.\<close>

lemma planned_call:
  assumes "ConfigureStackGeometry stackBytes = Some F" and "ComputeFrameLayout F M = Inr P"
    and "G = planned_geometry F P arena bank count fiber" and "function_ok G info"
    and "\<forall>((_, bytes, _), a) \<in> set (zip (ArgSlots l) args). argument_size a \<le> bytes"
  shows "l \<in> set (fp_calls P) \<Longrightarrow> call_ok G l info args \<and> TransientReserveBytes (FiberStackSize G) + Size l \<le> Floor G"
    and "l \<in> set (fp_roots P) \<Longrightarrow> call_ok G l info args \<and> Root G + Size l \<le> FiberStackSize G"
proof -
  have F: "isPowerOf2_64 F" "F < 2 ^ 63"
    using assms(1) by (auto simp: ConfigureStackGeometry_def MaxFiberStackBytes_def split: if_splits)
  note sound = plan_areas_sound(1) [OF assms(2) F(2)] plan_boundaries [OF assms(2) F]
  have "call_ok G l info args" if l: "l \<in> set (fp_calls P @ fp_roots P)"
  proof -
    have area: "area_sound (fp_alignment P) LinkageBytes (call_slots l) (Size l)" using sound(1) l by simp
    then have "LinkageBytes \<le> offset \<and> offset + n \<le> Size l" if "((offset, n, alignment), a) \<in> set (zip (ArgSlots l) args)" for offset n alignment a
      using set_zip_leftD [OF that] by (fastforce simp: area_sound_def slots_sound_def call_slots_def)
    then have "arguments_fit l args" using assms(5) by (fastforce simp: arguments_fit_def)
    then show ?thesis using plan_linkage [OF assms(2) F(2) l] area assms(3,4)
      by (simp add: call_ok_def area_sound_def planned_geometry_def)
  qed
  then show "l \<in> set (fp_calls P) \<Longrightarrow> call_ok G l info args \<and> TransientReserveBytes (FiberStackSize G) + Size l \<le> Floor G"
    and "l \<in> set (fp_roots P) \<Longrightarrow> call_ok G l info args \<and> Root G + Size l \<le> FiberStackSize G"
    using sound(4,5) assms(3) by (auto simp: planned_geometry_def)
qed


text \<open>The small module on the first of one stack: its function enters its frame.\<close>

definition small_geometry :: stack_geometry where
  "small_geometry = planned_geometry 128 small_plan True 128 1 0"

definition small_function :: frame_info where
  "small_function = \<lparr>FrameSize = 16, dynamicSp = False, hasSetjmp = False, ResultOffset = 0\<rparr>"

definition small_entry :: stack_state where
  "small_entry = RewriteEntryCall small_geometry (hd (fp_roots small_plan)) 0 5 [] \<lparr>ss_control = zero_control, ss_memory = (\<lambda>_. 0)\<rparr>"

lemmas small_stack_defs = small_plan_def small_geometry_def small_function_def planned_geometry_def entered_def Let_def


section \<open>Frame addresses and results\<close>

lemma frame_parent_chain:
  assumes G: "geometry_ok G"
  shows "chain G m fs \<Longrightarrow> frame_parent G m (parent_fp G fs) depth = parent_fp G (drop depth fs)"
proof (induction depth)
  case (Suc depth)
  show ?case
  proof (cases "drop depth fs")
    case Nil
    then show ?thesis using Suc by (simp add: Let_def)
  next
    case (Cons f gs)
    then have chain: "chain G m (f # gs)" and rest: "drop (Suc depth) fs = gs"
      using chain_drop [OF Suc.prems, of depth] by (auto simp: drop_Suc tl_drop [symmetric] simp del: chain.simps)
    have "af_fp f < FiberStackSize G" using chain geometry_okD(6) [OF G] by (auto simp: entry_ok_def)
    then have "FramePointer G (address G (af_fp f)) = address G (af_fp f)" "address G (af_fp f) \<noteq> 0"
      "unat (address G (af_fp f)) = link_address G f"
      using G by (simp_all add: address_nonzero unat_address link_address_def)
    moreover have "load_le m (link_address G f) 8 = parent_fp G gs" using chain by (simp add: stored_def)
    ultimately show ?thesis using Suc Cons rest by (simp add: Let_def SavedFpOffset_def)
  qed
qed simp

text \<open>A frame address is the boundary of that caller's frame, and null past the root.\<close>

lemma frame_address_walks:
  assumes G: "geometry_ok G" and "managed_run G s a"
  shows "LowerFrameAddress G depth s = (if depth < length (as_frames a) then address G (af_fp (as_frames a ! depth)) else 0)"
proof -
  have rep: "chain G (ss_memory s) (as_frames a)" "fc_fp (ss_control s) = parent_fp G (as_frames a)"
    using run_represents [OF assms(2) G] by (auto simp: represents_def)
  note walk = frame_parent_chain [OF G rep(1), of depth]
  show ?thesis
  proof (cases "depth < length (as_frames a)")
    case True
    then have d: "drop depth (as_frames a) = as_frames a ! depth # drop (Suc depth) (as_frames a)" by (simp add: Cons_nth_drop_Suc)
    then have "entry_ok G (as_frames a ! depth)" using chain_drop [OF rep(1), of depth] by simp
    then have "af_fp (as_frames a ! depth) < FiberStackSize G" using geometry_okD(6) [OF G] by (simp add: entry_ok_def)
    then show ?thesis using True d walk rep(2) G by (simp add: LowerFrameAddress_def Let_def address_nonzero)
  qed (use walk rep(2) in \<open>simp add: LowerFrameAddress_def Let_def\<close>)
qed

text \<open>The parts of a result copy have a width of at least one byte that fits what is left, so the copy ends
  and moves every byte.\<close>

lemma part_width_power:
  "offset < bytes \<Longrightarrow> width = 2 ^ k \<Longrightarrow> \<exists>j \<le> k. part_width bytes offset width = 2 ^ j \<and> offset + 2 ^ j \<le> bytes"
proof (induction k arbitrary: width)
  case 0
  then show ?case using part_width.simps [of bytes offset 1] by simp
next
  case (Suc k)
  have pos: "width \<noteq> 0" and half: "width div 2 = 2 ^ k" using Suc.prems(2) by simp_all
  note unfold = part_width.simps [of bytes offset width]
  show ?case
  proof (cases "width > bytes - offset \<or> offset mod width \<noteq> 0")
    case True
    then have "part_width bytes offset width = part_width bytes offset (width div 2)" using unfold pos by presburger
    then show ?thesis using Suc.IH [OF Suc.prems(1) half] le_SucI by metis
  next
    case False
    then have "part_width bytes offset width = width" using unfold pos by presburger
    then show ?thesis using False Suc.prems by (intro exI [of _ "Suc k"]) auto
  qed
qed

lemma copy_parts_copied:
  assumes "isPowerOf2_64 alignment" and "output \<le> source \<or> source + bytes \<le> output"
  shows "offset \<le> bytes \<Longrightarrow>
    copy_parts source output bytes alignment offset (mem_copied output source offset m) = mem_copied output source bytes m"
proof (induction "bytes - offset" arbitrary: offset rule: less_induct)
  case less
  obtain k where "alignment = 2 ^ k" using assms(1) by (auto simp: isPowerOf2_64_def)
  moreover have "min 8 (2 ^ k) = (2 :: nat) ^ min 3 k"
  proof (cases "3 \<le> k")
    case True
    then have "(2 :: nat) ^ 3 \<le> 2 ^ k" by (intro power_increasing) simp_all
    then show ?thesis using True by simp
  next
    case False
    then consider "k = 0" | "k = 1" | "k = 2" by linarith
    then show ?thesis by cases simp_all
  qed
  ultimately have "min 8 alignment = 2 ^ min 3 k" by simp
  note power = part_width_power [OF _ this, where offset = offset and bytes = bytes]
  show ?case
  proof (cases "offset < bytes")
    case True
    obtain j where j: "j \<le> min 3 k" "part_width bytes offset (min 8 alignment) = 2 ^ j" "offset + 2 ^ j \<le> bytes"
      using power [OF True] by blast
    have "j \<le> 3" using j(1) by simp
    then have "(2 :: nat) ^ j \<le> 2 ^ 3" by (rule power_increasing) simp
    then have copied: "store_le (mem_copied output source offset m) (output + offset) (2 ^ j) (load_le (mem_copied output source offset m) (source + offset) (2 ^ j))
        = mem_copied output source (offset + 2 ^ j) m"
      using assms(2) j(3) by (intro copy_up_step) auto
    have rest: "copy_parts source output bytes alignment (offset + 2 ^ j) (mem_copied output source (offset + 2 ^ j) m) = mem_copied output source bytes m"
      using j(3) True by (intro less.hyps) (simp_all add: diff_less_mono2)
    have "(2 :: nat) ^ j \<noteq> 0" by simp
    then show ?thesis
      unfolding copy_parts.simps [of source "output" bytes alignment offset "mem_copied output source offset m"] Let_def j(2) copied
      by (simp only: True rest if_True if_False)
  next
    case False
    then show ?thesis using less.prems
      unfolding copy_parts.simps [of source "output" bytes alignment offset "mem_copied output source offset m"] by simp
  qed
qed

lemma return_copy_exact:
  assumes G: "geometry_ok G" and "isPowerOf2_64 alignment"
    and "Root G + align_to LinkageBytes (max 8 alignment) < FiberStackSize G"
    and "source = slice_base G + Root G + align_to LinkageBytes (max 8 alignment)"
    and "unat output \<le> source \<or> source + bytes \<le> unat output"
  shows "RewriteReturnCopy G output bytes alignment s = set_memory (mem_copied (unat output) source bytes (ss_memory s)) s"
proof -
  have "unat (StackPtr G (of_nat (Root G + align_to LinkageBytes (max 8 alignment)))) = source"
    using assms(3,4) by (simp add: StackPtr_root [OF G] unat_address [OF G] del: of_nat_add)
  moreover have "mem_copied (unat output) source 0 m = m" for m by (auto simp: mem_copied_def fun_eq_iff)
  ultimately show ?thesis using copy_parts_copied [OF assms(2,5), of 0 "ss_memory s"]
    by (simp add: RewriteReturnCopy_def Let_def del: of_nat_add)
qed

text \<open>Every path into a return that published an outcome stops there, and every other pops the frame.\<close>

lemma return_lowering_stops:
  assumes "return_lowering False predecessors \<noteq> ConditionalOutcome" and "(publishes, direct) \<in> set predecessors"
  shows "path_stops (return_lowering False predecessors) publishes \<longleftrightarrow> publishes"
proof -
  define bad where "bad = (\<exists>(publishes, direct) \<in> set predecessors. publishes \<and> \<not> direct)"
  define terminal where "terminal = filter fst predecessors"
  define ordinary where "ordinary = (\<exists>(publishes, _) \<in> set predecessors. \<not> publishes)"
  have "return_lowering False predecessors =
      (if bad then ConditionalOutcome else if terminal \<noteq> [] \<and> \<not> ordinary then TerminalReturn
       else if terminal \<noteq> [] then SplitReturn else OrdinaryReturn)"
    by (simp only: return_lowering_def bad_def terminal_def ordinary_def Let_def if_False)
  moreover have "publishes \<Longrightarrow> terminal \<noteq> []" using assms(2) by (force simp: terminal_def filter_empty_conv)
  moreover have "\<not> publishes \<Longrightarrow> ordinary" using assms(2) unfolding ordinary_def by blast
  ultimately show ?thesis using assms(1) by (cases publishes) (auto split: if_splits)
qed

end
