(* ===== verification/Spec2Isabelle.thy ===== *)
theory Spec2Isabelle
  imports Stack_Budget Heap_Library Host_Alloc Arena_Init Atomics_Pass Mem_Expansion Scalar_Lowering Managed_Stack
begin

text \<open>
  \<^bold>\<open>BPF Capsule: a verification development.\<close>

  BPF Capsule compiles ordinary C, C++ and Rust programs to Linux eBPF. A compiler pipeline (under \<open>src/src/pass\<close>)
  cuts functions into regions that return to a driver at every call, yield and loop back edge and keep their locals
  on a stack of their own in map or arena memory. A guest runtime (\<open>src/src/runtime/guest\<close>) leases a fiber for each
  call, drives its regions and hands out continuations. A host library (\<open>src/src/runtime/host\<close>) plans the memory,
  configures and loads the object, maps the guest's memory into its process and serves allocations.

  \<^bold>\<open>Theories and sources.\<close>

  \<^item> \<open>Capsule_Prelude\<close>: word lemmas, alignment, fallible steps (\<open>on_ok\<close>), the lemmas all components share.
  \<^item> \<open>Capsule_Abi\<close>, \<open>Kernel_Maps\<close>, \<open>Fiber_Pool\<close>, \<open>Pool_Contract\<close>: the fiber records, continuation tokens and pool of
    \<open>bpf_capsule.c\<close>, \<open>bpf_capsule_types.h\<close> and \<open>bpf_capsule_abi.h\<close>. The machine state is one record; the map helpers of
    the kernel are parameters. The pool refines a set of leased fibers; the contract is a locale interpreted on the
    model of each tier.
  \<^item> \<open>Region_Ids\<close>, \<open>Step_Dispatch\<close>: the numbering of regions and the emitted selection trees of \<open>stackify.cpp\<close>.
  \<^item> \<open>Trampoline\<close>, \<open>Entry_Glue\<close>: the driver loops and the begin, call, continue and reset entry points of
    \<open>bpf_capsule.c\<close> and \<open>lower_capsule_call.cpp\<close>, with leases conserved on every branch.
  \<^item> \<open>Memory_Plan\<close>, \<open>Object_Layout\<close>, \<open>Heap_Access\<close>, \<open>Byte_Memory\<close>, \<open>Arena_Init\<close>: the memory plan of
    \<open>bpf_capsule_host.c\<close>, and the object layout, accessors and arena initializer of \<open>memory.cpp\<close>.
  \<^item> \<open>Host_Window\<close>, \<open>Host_Configure\<close>, \<open>Host_Freplace\<close>, \<open>Host_Memory\<close>, \<open>Host_Alloc\<close>: the host library, function by
    function with its error paths; libbpf, the kernel and the guest program are parameters with named hypotheses.
  \<^item> \<open>Atomic_Loops\<close>, \<open>Atomics_Pass\<close>, \<open>Mem_Expansion\<close>, \<open>Scalar_Lowering\<close>: \<open>atomics.cpp\<close>, \<open>expand_mem.cpp\<close> and the scalar
    and machine lowerings, each against the operation it replaces.
  \<^item> \<open>Frame_Layout\<close>, \<open>Managed_Stack\<close>: the frames and the emitted stack operations of \<open>stackify.cpp\<close>, refining a list of
    frames.
  \<^item> \<open>Guest_Heap\<close>, \<open>Heap_Library\<close>: the guest's allocator, \<open>platform/allocator.c\<close>. TLSF is a parameter that works on the bytes
    of the heap. The lock and the operations under it are interleaved between any number of fibers; the library functions
    are shown for one fiber while others run.
  \<^item> \<open>Stack_Budget\<close>: \<open>machine_stack_budget.cpp\<close>, with the kernel's limits on every call path of an accepted module.

  \<^bold>\<open>What the theorems show.\<close> The managed stack refines a list of frames; the pool neither leaks nor shares a fiber and
  no token is consumed twice; the heaps of different fibers are isolated and \<open>realloc\<close> and \<open>calloc\<close> keep their
  contracts; every call path of an accepted module fits the kernel's stack; every resume word reaches the region it names; the planned memory has no overlaps and the
  accessors present it as one flat memory, the same the host sees; configuration, attachment and initialization either
  complete or leave nothing behind; lowered atomics, memory routines and scalar operations compute what the originals do.

  \<^bold>\<open>Bounds and fuel.\<close> Loops that may wait for another party (claiming the arena, resuming an allocation, the allocator's lock) are partial
  functions into \<open>option\<close>, with the conditions under which they return proved. The search of \<open>Stack_Budget\<close> recurses with
  one level more than there are nodes, which is shown to be enough. Machine integers keep their width; host arithmetic
  that the code guards against overflow is shown to stay in range.

  \<^bold>\<open>Not modelled.\<close> LLVM, the kernel, libbpf, TLSF and compiler-rt are not part of the sources. The walks over LLVM IR that
  find the instructions a pass rewrites, the liveness, alias and domain analyses and the splitting of functions in
  \<open>stackify.cpp\<close>, and the passes that mostly drive LLVM's own transforms are left out, because their meaning is that of
  LLVM's data structures. Soft floating point only replaces operators by library calls. The system call stubs fail
  with an error code and do nothing else. The drivers under \<open>src/tools\<close> start processes and move files.
\<close>

end
